(* ===== verification/Prelude.thy ===== *)
theory Prelude
  imports "HOL-Library.Word" "HOL-Library.While_Combinator"
begin

text \<open>
  Shared vocabulary of the development: the machine integers of the Rust sources, the outcome
  type of a Rust computation, the loop combinators the models are written with, byte slices and
  little-endian integers, and the u128 bit masks of the graph verifier.
\<close>

unbundle bit_operations_syntax

section \<open>Machine integers\<close>

text \<open>
  Both build targets of the repository are 64-bit, so \<open>usize\<close> has 64 bits. A \<open>usize\<close> is a
  natural number here and the checked operations of the source carry the bound; the fixed-width
  fields of records and ABIs are words.
\<close>

type_synonym u8 = "8 word"
type_synonym u16 = "16 word"
type_synonym u32 = "32 word"
type_synonym u64 = "64 word"
type_synonym u128 = "128 word"
type_synonym usize = nat

definition USIZE_MAX :: usize where
  "USIZE_MAX = 2 ^ 64 - 1"

definition checked_add_usize :: "usize \<Rightarrow> usize \<Rightarrow> usize option" where
  "checked_add_usize a b = (if a + b \<le> USIZE_MAX then Some (a + b) else None)"

definition checked_mul_usize :: "usize \<Rightarrow> usize \<Rightarrow> usize option" where
  "checked_mul_usize a b = (if a * b \<le> USIZE_MAX then Some (a * b) else None)"

definition checked_add_word :: "'w::len word \<Rightarrow> 'w word \<Rightarrow> 'w word option" where
  "checked_add_word a b = (if unat a + unat b < 2 ^ LENGTH('w) then Some (a + b) else None)"

text \<open>\<open>try_from\<close> between unsigned widths: the value is kept or the conversion fails.\<close>

definition try_from_word :: "'a::len word \<Rightarrow> 'b::len word option" where
  "try_from_word w = (if unat w < 2 ^ LENGTH('b) then Some (ucast w) else None)"

lemma checked_add_usize_Some [simp]:
  "checked_add_usize a b = Some c \<longleftrightarrow> c = a + b \<and> a + b \<le> USIZE_MAX"
  by (auto simp: checked_add_usize_def)

lemma checked_mul_usize_Some [simp]:
  "checked_mul_usize a b = Some c \<longleftrightarrow> c = a * b \<and> a * b \<le> USIZE_MAX"
  by (auto simp: checked_mul_usize_def)

lemma checked_add_word_unat:
  fixes a b c :: "'w::len word"
  assumes "checked_add_word a b = Some c"
  shows "unat c = unat a + unat b" and "unat a + unat b < 2 ^ LENGTH('w)"
  using assms by (auto simp: checked_add_word_def unat_word_ariths split: if_splits)

lemma try_from_word_unat:
  fixes w :: "'a::len word" and v :: "'b::len word"
  assumes "try_from_word w = Some v"
  shows "unat v = unat w"
  using assms
  by (auto simp: try_from_word_def unsigned_ucast_eq take_bit_nat_eq_self split: if_splits)

lemma unat_bound: "unat (w :: 'w::len word) < 2 ^ LENGTH('w)"
  by (rule unsigned_less)

lemma unat_u32_le_USIZE_MAX [simp]: "unat (w :: u32) \<le> USIZE_MAX"
  using unat_bound [of w] by (simp add: USIZE_MAX_def)

lemma unat_u16_le_USIZE_MAX [simp]: "unat (w :: u16) \<le> USIZE_MAX"
  using unat_bound [of w] by (simp add: USIZE_MAX_def)

section \<open>Outcomes of a computation\<close>

text \<open>
  \<open>Ok\<close> and \<open>Err\<close> are the constructors of Rust's \<open>Result\<close>. \<open>Panic\<close> stands for every way the code
  can abort: \<open>expect\<close> on an absent value, an index out of range, a shift by the full width.
  \<open>Diverge\<close> is a loop that does not end. The total-correctness theorems show that neither occurs.
\<close>

datatype ('e, 'a) result = Ok 'a | Err 'e | Panic | Diverge

primrec bindR :: "('e, 'a) result \<Rightarrow> ('a \<Rightarrow> ('e, 'b) result) \<Rightarrow> ('e, 'b) result" where
  "bindR (Ok x) f = f x"
| "bindR (Err e) f = Err e"
| "bindR Panic f = Panic"
| "bindR Diverge f = Diverge"

definition ensure :: "bool \<Rightarrow> 'e \<Rightarrow> ('e, unit) result" where
  "ensure b e = (if b then Ok () else Err e)"

definition ok_or :: "'a option \<Rightarrow> 'e \<Rightarrow> ('e, 'a) result" where
  "ok_or x e = (case x of Some a \<Rightarrow> Ok a | None \<Rightarrow> Err e)"

definition expectR :: "'a option \<Rightarrow> ('e, 'a) result" where
  "expectR x = (case x of Some a \<Rightarrow> Ok a | None \<Rightarrow> Panic)"

primrec map_errR :: "('e \<Rightarrow> 'f) \<Rightarrow> ('e, 'a) result \<Rightarrow> ('f, 'a) result" where
  "map_errR g (Ok x) = Ok x"
| "map_errR g (Err e) = Err (g e)"
| "map_errR g Panic = Panic"
| "map_errR g Diverge = Diverge"

text \<open>A \<open>for\<close> loop whose body may return early, without and with loop-carried state.\<close>

fun for_each :: "('a \<Rightarrow> ('e, unit) result) \<Rightarrow> 'a list \<Rightarrow> ('e, unit) result" where
  "for_each f [] = Ok ()"
| "for_each f (x # xs) = bindR (f x) (\<lambda>_. for_each f xs)"

fun fold_res :: "('s \<Rightarrow> 'a \<Rightarrow> ('e, 's) result) \<Rightarrow> 's \<Rightarrow> 'a list \<Rightarrow> ('e, 's) result" where
  "fold_res f s [] = Ok s"
| "fold_res f s (x # xs) = bindR (f s x) (\<lambda>s'. fold_res f s' xs)"

named_theorems settled_intros

definition settled :: "('e, 'a) result \<Rightarrow> bool" where
  "settled m \<longleftrightarrow> m \<noteq> Panic \<and> m \<noteq> Diverge"

lemma settled_simps [simp]:
  "settled (Ok x)" "settled (Err e)" "\<not> settled Panic" "\<not> settled Diverge"
  by (simp_all add: settled_def)

lemma bindR_eq_Ok [simp]: "bindR m f = Ok y \<longleftrightarrow> (\<exists>x. m = Ok x \<and> f x = Ok y)"
  by (cases m) auto

lemma bindR_eq_Err: "bindR m f = Err e \<longleftrightarrow> m = Err e \<or> (\<exists>x. m = Ok x \<and> f x = Err e)"
  by (cases m) auto

lemma ensure_eq_Ok [simp]: "ensure b e = Ok u \<longleftrightarrow> b"
  by (simp add: ensure_def)

lemma ensure_eq_Err [simp]: "ensure b e = Err e' \<longleftrightarrow> \<not> b \<and> e' = e"
  by (auto simp: ensure_def)

lemma ok_or_eq_Ok [simp]: "ok_or x e = Ok a \<longleftrightarrow> x = Some a"
  by (auto simp: ok_or_def split: option.splits)

lemma expectR_eq_Ok [simp]: "expectR x = Ok a \<longleftrightarrow> x = Some a"
  by (auto simp: expectR_def split: option.splits)

lemma map_errR_eq_Ok [simp]: "map_errR g m = Ok a \<longleftrightarrow> m = Ok a"
  by (cases m) auto

lemma ok_or_simps [simp]: "ok_or (Some a) e = Ok a" "ok_or None e = Err e"
  by (simp_all add: ok_or_def)

lemma expectR_simps [simp]: "expectR (Some a) = Ok a" "expectR None = Panic"
  by (simp_all add: expectR_def)

lemma ensure_simps [simp]: "ensure True e = Ok ()" "ensure False e = Err e"
  by (simp_all add: ensure_def)

lemma settled_ensure [simp, settled_intros]: "settled (ensure b e)"
  by (simp add: ensure_def)

lemma settled_ok_or [simp, settled_intros]: "settled (ok_or x e)"
  by (simp add: ok_or_def split: option.splits)

lemma settled_expectR [simp]: "settled (expectR x) \<longleftrightarrow> x \<noteq> None"
  by (auto simp: expectR_def split: option.splits)

lemma settled_map_errR [simp]: "settled (map_errR g m) \<longleftrightarrow> settled m"
  by (cases m) auto

lemma settled_bindR [settled_intros]:
  assumes "settled m" and "\<And>x. m = Ok x \<Longrightarrow> settled (f x)"
  shows "settled (bindR m f)"
  using assms by (cases m) auto

lemma settled_bindR_iff:
  "settled (bindR m f) \<longleftrightarrow> settled m \<and> (\<forall>x. m = Ok x \<longrightarrow> settled (f x))"
  by (cases m) auto

lemma settled_cases:
  assumes "settled m"
  obtains (Ok) x where "m = Ok x" | (Err) e where "m = Err e"
  using assms by (cases m) auto

subsection \<open>Loops\<close>

lemma for_each_eq_Ok [simp]: "for_each f xs = Ok u \<longleftrightarrow> (\<forall>x\<in>set xs. f x = Ok ())"
  by (induction xs) auto

lemma settled_for_each [settled_intros]:
  assumes "\<And>x. x \<in> set xs \<Longrightarrow> settled (f x)"
  shows "settled (for_each f xs)"
  using assms by (induction xs) (auto intro!: settled_bindR)

lemma fold_res_append:
  "fold_res f s (xs @ ys) = bindR (fold_res f s xs) (\<lambda>s'. fold_res f s' ys)"
proof (induction xs arbitrary: s)
  case Nil
  show ?case by simp
next
  case (Cons x xs)
  show ?case by (cases "f s x") (simp_all add: Cons.IH)
qed

text \<open>
  The loop rule over an index range: an invariant indexed by the iteration number that holds at
  the start and is kept by each completed iteration holds at the end.
\<close>

lemma fold_res_upt:
  assumes "fold_res f s [a..<b] = Ok s'" and "P a s" and "a \<le> b"
    and "\<And>i t t'. a \<le> i \<Longrightarrow> i < b \<Longrightarrow> P i t \<Longrightarrow> f t i = Ok t' \<Longrightarrow> P (Suc i) t'"
  shows "P b s'"
  using assms(3) assms(1,2,4)
proof (induction b arbitrary: s' rule: dec_induct)
  case base
  then show ?case by simp
next
  case (step n)
  from step.prems(1) step.hyps(1) obtain t where t: "fold_res f s [a..<n] = Ok t" and "f t n = Ok s'"
    by (auto simp: fold_res_append)
  moreover have "P n t"
    using t step.prems(2,3) by (intro step.IH) auto
  ultimately show ?case using step.hyps step.prems(3) by blast
qed

lemma settled_fold_res_upt:
  assumes "P a s" and "a \<le> b"
    and "\<And>i t. a \<le> i \<Longrightarrow> i < b \<Longrightarrow> P i t \<Longrightarrow> settled (f t i)"
    and "\<And>i t t'. a \<le> i \<Longrightarrow> i < b \<Longrightarrow> P i t \<Longrightarrow> f t i = Ok t' \<Longrightarrow> P (Suc i) t'"
  shows "settled (fold_res f s [a..<b])"
  using assms(2) assms(1,3,4)
proof (induction b rule: dec_induct)
  case base
  then show ?case by simp
next
  case (step n)
  have IH: "settled (fold_res f s [a..<n])"
    using step.prems by (intro step.IH) auto
  have "settled (f t n)" if "fold_res f s [a..<n] = Ok t" for t
    using fold_res_upt [of f s a n t P] that step.prems step.hyps by simp
  with IH step.hyps(1) show ?case by (auto simp: fold_res_append intro!: settled_bindR)
qed

lemma fold_res_upt_total:
  assumes "a \<le> b" and "P a s"
    and "\<And>i t. a \<le> i \<Longrightarrow> i < b \<Longrightarrow> P i t \<Longrightarrow> \<exists>t'. f t i = Ok t' \<and> P (Suc i) t'"
  shows "\<exists>t. fold_res f s [a..<b] = Ok t \<and> P b t"
  using assms
proof (induction b rule: dec_induct)
  case base
  then show ?case by simp
next
  case (step n)
  then obtain t where "fold_res f s [a..<n] = Ok t" "P n t" by auto
  moreover obtain t' where "f t n = Ok t'" "P (Suc n) t'"
    using step.prems(2) [OF step.hyps(1) _ \<open>P n t\<close>] by auto
  ultimately show ?case using step.hyps(1) by (simp add: fold_res_append)
qed

lemma fold_res_enumerate:
  "fold_res f s (enumerate n xs) =
   fold_res (\<lambda>t i. f t (i, xs ! (i - n))) s [n..<n + length xs]"
proof (induction xs arbitrary: n s)
  case Nil
  show ?case by simp
next
  case (Cons x xs)
  have upt: "[n..<n + length (x # xs)] = n # [Suc n..<Suc n + length xs]"
    by (subst upt_conv_Cons) auto
  have "fold_res (\<lambda>t i. f t (i, xs ! (i - Suc n))) s' [Suc n..<Suc n + length xs] =
        fold_res (\<lambda>t i. f t (i, (x # xs) ! (i - n))) s' [Suc n..<Suc n + length xs]" for s'
  proof -
    have "fold_res (\<lambda>t i. f t (i, xs ! (i - Suc n))) s' is =
          fold_res (\<lambda>t i. f t (i, (x # xs) ! (i - n))) s' is" if "\<forall>i\<in>set is. Suc n \<le> i" for "is"
      using that
    proof (induction "is" arbitrary: s')
      case (Cons i "is")
      then have "i - n = Suc (i - Suc n)" by auto
      then have "(x # xs) ! (i - n) = xs ! (i - Suc n)" by simp
      with Cons show ?case by (cases "f s' (i, xs ! (i - Suc n))") auto
    qed simp
    then show ?thesis by simp
  qed
  with Cons.IH show ?case
    unfolding upt by (cases "f s (n, x)") simp_all
qed

lemma for_each_enumerate_eq_Ok [simp]:
  "for_each f (enumerate 0 xs) = Ok u \<longleftrightarrow> (\<forall>i < length xs. f (i, xs ! i) = Ok ())"
  by (auto simp: in_set_enumerate_eq)

text \<open>
  A \<open>while\<close> loop whose body may leave early: it runs while the state is \<open>Ok\<close> and the guard holds,
  and a loop that does not end is \<open>Diverge\<close>.
\<close>

definition while_res :: "('s \<Rightarrow> bool) \<Rightarrow> ('s \<Rightarrow> ('e, 's) result) \<Rightarrow> 's \<Rightarrow> ('e, 's) result" where
  "while_res guard body s =
     (case while_option (\<lambda>m. case m of Ok t \<Rightarrow> guard t | _ \<Rightarrow> False) (\<lambda>m. bindR m body) (Ok s) of
        Some m \<Rightarrow> m
      | None \<Rightarrow> Diverge)"

lemma while_res_unfold:
  "while_res guard body s = (if guard s then bindR (body s) (while_res guard body) else Ok s)"
proof -
  let ?b = "\<lambda>m. case m of Ok t \<Rightarrow> guard t | _ \<Rightarrow> False" and ?c = "\<lambda>m. bindR m body"
  have stop: "while_option ?b ?c m = Some m" if "\<not> ?b m" for m
    using that by (subst while_option_unfold) simp
  show ?thesis
  proof (cases "guard s")
    case True
    then have "while_option ?b ?c (Ok s) = while_option ?b ?c (body s)"
      by (subst while_option_unfold) simp
    moreover have "while_option ?b ?c (Err e) = Some (Err e)" "while_option ?b ?c Panic = Some Panic"
      "while_option ?b ?c Diverge = Some Diverge" for e
      by (rule stop, simp)+
    ultimately show ?thesis
      using True by (cases "body s") (simp_all add: while_res_def)
  next
    case False
    then show ?thesis by (simp add: while_res_def stop)
  qed
qed

text \<open>
  A loop whose body succeeds and decreases a measure ends, with the invariant and without its guard.
\<close>

lemma while_res_total:
  fixes m :: "'s \<Rightarrow> nat"
  assumes "P s"
    and "\<And>s. P s \<Longrightarrow> guard s \<Longrightarrow> \<exists>s'. body s = Ok s' \<and> P s' \<and> m s' < m s"
  shows "\<exists>t. while_res guard body s = Ok t \<and> P t \<and> \<not> guard t"
  using assms(1)
proof (induction "m s" arbitrary: s rule: less_induct)
  case less
  show ?case
  proof (cases "guard s")
    case True
    with assms(2) [OF less.prems] obtain s' where "body s = Ok s'" "P s'" "m s' < m s" by blast
    with less.hyps [of s'] True show ?thesis by (subst while_res_unfold) simp
  next
    case False
    with less.prems show ?thesis by (subst while_res_unfold) simp
  qed
qed

section \<open>Arrays\<close>

text \<open>
  A fixed-size array of the source is a function from indices; reads and writes test the bound of
  the array and abort beyond it, as the indexing of the source does.
\<close>

type_synonym 'a array = "usize \<Rightarrow> 'a"

definition array_get :: "usize \<Rightarrow> 'a array \<Rightarrow> usize \<Rightarrow> ('e, 'a) result" where
  "array_get len a i = (if i < len then Ok (a i) else Panic)"

definition array_set :: "usize \<Rightarrow> 'a array \<Rightarrow> usize \<Rightarrow> 'a \<Rightarrow> ('e, 'a array) result" where
  "array_set len a i v = (if i < len then Ok (a(i := v)) else Panic)"

lemma array_get_eq_Ok [simp]: "array_get len a i = Ok v \<longleftrightarrow> i < len \<and> v = a i"
  by (auto simp: array_get_def)

lemma array_set_eq_Ok [simp]: "array_set len a i v = Ok b \<longleftrightarrow> i < len \<and> b = a(i := v)"
  by (auto simp: array_set_def)

lemma settled_array_get [simp]: "settled (array_get len a i) \<longleftrightarrow> i < len"
  by (simp add: array_get_def)

lemma settled_array_set [simp]: "settled (array_set len a i v) \<longleftrightarrow> i < len"
  by (simp add: array_set_def)

section \<open>Byte slices and little-endian integers\<close>

definition slice_get :: "'a list \<Rightarrow> usize \<Rightarrow> usize \<Rightarrow> 'a list option" where
  "slice_get xs start end' =
     (if start \<le> end' \<and> end' \<le> length xs then Some (take (end' - start) (drop start xs)) else None)"

lemma slice_get_Some:
  "slice_get xs a b = Some ys \<longleftrightarrow> a \<le> b \<and> b \<le> length xs \<and> ys = take (b - a) (drop a xs)"
  by (auto simp: slice_get_def)

lemma slice_get_length: "slice_get xs a b = Some ys \<Longrightarrow> length ys = b - a"
  by (auto simp: slice_get_Some)

lemma slice_get_append_mid:
  "a = length xs \<Longrightarrow> b = length xs + length ys \<Longrightarrow> slice_get (xs @ ys @ zs) a b = Some ys"
  by (simp add: slice_get_def)

primrec nat_of_le :: "u8 list \<Rightarrow> nat" where
  "nat_of_le [] = 0"
| "nat_of_le (b # bs) = unat b + 256 * nat_of_le bs"

definition from_le_bytes :: "u8 list \<Rightarrow> 'w::len word" where
  "from_le_bytes bs = word_of_nat (nat_of_le bs)"

primrec le_bytes_of :: "nat \<Rightarrow> nat \<Rightarrow> u8 list" where
  "le_bytes_of 0 n = []"
| "le_bytes_of (Suc k) n = word_of_nat (n mod 256) # le_bytes_of k (n div 256)"

definition to_le_bytes :: "'w::len word \<Rightarrow> u8 list" where
  "to_le_bytes w = le_bytes_of (LENGTH('w) div 8) (unat w)"

lemma length_le_bytes_of [simp]: "length (le_bytes_of k n) = k"
  by (induction k arbitrary: n) auto

lemma length_to_le_bytes [simp]: "length (to_le_bytes (w :: 'w::len word)) = LENGTH('w) div 8"
  by (simp add: to_le_bytes_def)

lemma nat_of_le_le_bytes_of: "nat_of_le (le_bytes_of k n) = n mod 256 ^ k"
proof (induction k arbitrary: n)
  case (Suc k)
  have byte: "unat (word_of_nat (n mod 256) :: u8) = n mod 256"
    by (simp add: unat_of_nat)
  have "n mod 256 ^ Suc k = n mod 256 + 256 * ((n div 256) mod 256 ^ k)"
    by (simp add: mod_mult2_eq)
  with Suc byte show ?case by simp
qed simp

lemma nat_of_le_bound: "nat_of_le bs < 256 ^ length bs"
proof (induction bs)
  case (Cons b bs)
  have "unat b < 256" using unat_bound [of b] by simp
  with Cons show ?case by auto
qed simp

lemma le_bytes_of_nat_of_le: "length bs = k \<Longrightarrow> le_bytes_of k (nat_of_le bs) = bs"
proof (induction bs arbitrary: k)
  case (Cons b bs)
  have b: "unat b < 256" using unat_bound [of b] by simp
  then have "(unat b + 256 * nat_of_le bs) mod 256 = unat b"
    and "(unat b + 256 * nat_of_le bs) div 256 = nat_of_le bs"
    by auto
  with Cons show ?case by (cases k) auto
qed simp

lemma from_to_le_bytes_u16 [simp]: "from_le_bytes (to_le_bytes (w :: u16)) = w"
  using unat_bound [of w] by (simp add: from_le_bytes_def to_le_bytes_def nat_of_le_le_bytes_of)

lemma from_to_le_bytes_u32 [simp]: "from_le_bytes (to_le_bytes (w :: u32)) = w"
  using unat_bound [of w] by (simp add: from_le_bytes_def to_le_bytes_def nat_of_le_le_bytes_of)

lemma from_to_le_bytes_u64 [simp]: "from_le_bytes (to_le_bytes (w :: u64)) = w"
  using unat_bound [of w] by (simp add: from_le_bytes_def to_le_bytes_def nat_of_le_le_bytes_of)

section \<open>UTF-8\<close>

text \<open>
  \<open>core::str::from_utf8\<close>: the well-formed byte sequences of the Unicode standard, which exclude
  overlong forms, surrogates and code points above 10FFFF.
\<close>

definition utf8_cont :: "u8 \<Rightarrow> bool" where
  "utf8_cont b \<longleftrightarrow> 0x80 \<le> b \<and> b \<le> 0xBF"

fun utf8_valid :: "u8 list \<Rightarrow> bool" where
  "utf8_valid [] = True"
| "utf8_valid (a # bs) =
     (if a \<le> 0x7F then utf8_valid bs
      else if 0xC2 \<le> a \<and> a \<le> 0xDF then
        (case bs of b # cs \<Rightarrow> utf8_cont b \<and> utf8_valid cs | _ \<Rightarrow> False)
      else if 0xE0 \<le> a \<and> a \<le> 0xEF then
        (case bs of b # c # ds \<Rightarrow>
             utf8_cont b \<and> utf8_cont c \<and> (a = 0xE0 \<longrightarrow> 0xA0 \<le> b) \<and> (a = 0xED \<longrightarrow> b \<le> 0x9F) \<and>
             utf8_valid ds
         | _ \<Rightarrow> False)
      else if 0xF0 \<le> a \<and> a \<le> 0xF4 then
        (case bs of b # c # d # es \<Rightarrow>
             utf8_cont b \<and> utf8_cont c \<and> utf8_cont d \<and> (a = 0xF0 \<longrightarrow> 0x90 \<le> b) \<and>
             (a = 0xF4 \<longrightarrow> b \<le> 0x8F) \<and> utf8_valid es
         | _ \<Rightarrow> False)
      else False)"

section \<open>Bit masks\<close>

text \<open>A mask is read as the set of its bits.\<close>

definition bits_of :: "'w::len word \<Rightarrow> nat set" where
  "bits_of w = {i. bit w i}"

lemma bits_of_iff: "i \<in> bits_of w \<longleftrightarrow> bit w i"
  by (simp add: bits_of_def)

lemma bits_of_bounded: "bits_of (w :: 'w::len word) \<subseteq> {..<LENGTH('w)}"
  by (auto simp: bits_of_def dest: bit_imp_le_length)

lemma finite_bits_of [simp]: "finite (bits_of w)"
  by (rule finite_subset [OF bits_of_bounded]) simp

lemma bits_of_eq_iff: "bits_of v = bits_of w \<longleftrightarrow> v = w"
proof
  assume "bits_of v = bits_of w"
  then have "bit v n = bit w n" for n
    unfolding bits_of_def by blast
  then show "v = w" by (simp add: bit_eq_iff)
qed simp

lemma bits_of_0 [simp]: "bits_of 0 = {}"
  by (simp add: bits_of_def)

lemma bits_of_eq_empty [simp]: "bits_of w = {} \<longleftrightarrow> w = 0"
  using bits_of_eq_iff [of w 0] by simp

lemma bits_of_or [simp]: "bits_of (v OR w) = bits_of v \<union> bits_of w"
  by (auto simp: bits_of_def bit_or_iff)

lemma bits_of_and [simp]: "bits_of (v AND w) = bits_of v \<inter> bits_of w"
  by (auto simp: bits_of_def bit_and_iff)

lemma bits_of_and_not [simp]: "bits_of (v AND NOT w) = bits_of v - bits_of w"
  by (auto simp: bits_of_def bit_and_iff bit_not_iff dest: bit_imp_le_length)

lemma bits_of_push_bit_1:
  "i < LENGTH('w) \<Longrightarrow> bits_of (push_bit i 1 :: 'w::len word) = {i}"
  by (auto simp: bits_of_def push_bit_eq_mult bit_exp_iff)

lemma bits_of_mask: "n \<le> LENGTH('w) \<Longrightarrow> bits_of (mask n :: 'w::len word) = {..<n}"
  by (auto simp: bits_of_def bit_mask_iff)

end
