(* ===== verification/Tig_Types.thy ===== *)
theory Tig_Types
  imports Prelude
begin

text \<open>
  The value types and the opcodes of PythTIG (\<open>shared/src/pyth_tig/types.rs\<close> and
  \<open>shared/src/pyth_tig/opcode.rs\<close>): their wire codes, the partial decoding of a code, and the
  signature each opcode has. The locale \<open>wire_code\<close> states the contract between \<open>code()\<close> and
  \<open>TryFrom<u16>\<close>; both enumerations interpret it.
\<close>

section \<open>The contract of a wire code\<close>

locale wire_code =
  fixes code :: "'a \<Rightarrow> u16"
    and try_from :: "u16 \<Rightarrow> 'a option"
  assumes try_from_code: "try_from (code x) = Some x"
    and code_try_from: "try_from c = Some x \<Longrightarrow> code x = c"
begin

lemma code_inject: "code x = code y \<longleftrightarrow> x = y"
  by (metis option.inject try_from_code)

lemma try_from_iff: "try_from c = Some x \<longleftrightarrow> c = code x"
  using code_try_from try_from_code by blast

lemma unknown_iff: "try_from c = None \<longleftrightarrow> c \<notin> range code"
  by (metis not_None_eq rangeE rangeI try_from_iff)

end

section \<open>Types\<close>

datatype PythType =
    Unit | Bool | U64 | I64 | Bytes | Utf8 | ObjectId | RevisionId | TaskId | ProposalId
  | Capability | Effect | ErrorCode

fun type_code :: "PythType \<Rightarrow> u16" where
  "type_code Unit = 0x0000"
| "type_code Bool = 0x0001"
| "type_code U64 = 0x0002"
| "type_code I64 = 0x0003"
| "type_code Bytes = 0x0004"
| "type_code Utf8 = 0x0005"
| "type_code ObjectId = 0x0006"
| "type_code RevisionId = 0x0007"
| "type_code TaskId = 0x0008"
| "type_code ProposalId = 0x0009"
| "type_code Capability = 0x000A"
| "type_code Effect = 0x000B"
| "type_code ErrorCode = 0x000C"

definition type_try_from :: "u16 \<Rightarrow> PythType option" where
  "type_try_from c =
     (if c = 0x0000 then Some Unit
      else if c = 0x0001 then Some Bool
      else if c = 0x0002 then Some U64
      else if c = 0x0003 then Some I64
      else if c = 0x0004 then Some Bytes
      else if c = 0x0005 then Some Utf8
      else if c = 0x0006 then Some ObjectId
      else if c = 0x0007 then Some RevisionId
      else if c = 0x0008 then Some TaskId
      else if c = 0x0009 then Some ProposalId
      else if c = 0x000A then Some Capability
      else if c = 0x000B then Some Effect
      else if c = 0x000C then Some ErrorCode
      else None)"

lemma type_try_from_code [simp]: "type_try_from (type_code t) = Some t"
  by (cases t) (simp_all add: type_try_from_def)

interpretation type_wire: wire_code type_code type_try_from
proof
  show "type_try_from (type_code t) = Some t" for t
    by simp
  show "type_code t = c" if "type_try_from c = Some t" for c t
    using that by (simp add: type_try_from_def split: if_splits)
qed

section \<open>Opcodes\<close>

datatype Opcode =
    BlockParam | ConstBool | ConstU64 | ConstI64 | ConstBytes | ConstUtf8 | EffectStart
  | HostResult | Eq | LessThanU64 | AddU64 | SubU64 | BoolAnd | BoolOr | BoolNot | Select
  | Jump | Branch | Return | SystemLog | ObjectCreate | ObjectQuery | ObjectInspect
  | ObjectRevise | ObjectHistory | TaskActiveRead | TaskProposalEmit | TaskProposalApprove
  | TaskSuspend | TaskRevive | TaskContextRead | GraphQueryRelated | RelevanceAssertionEmit
  | CapabilityRequestEmit | CommandRead | CommandResultEmit

fun opcode_code :: "Opcode \<Rightarrow> u16" where
  "opcode_code BlockParam = 0x0001"
| "opcode_code ConstBool = 0x0002"
| "opcode_code ConstU64 = 0x0003"
| "opcode_code ConstI64 = 0x0004"
| "opcode_code ConstBytes = 0x0005"
| "opcode_code ConstUtf8 = 0x0006"
| "opcode_code EffectStart = 0x0007"
| "opcode_code HostResult = 0x0008"
| "opcode_code Eq = 0x0100"
| "opcode_code LessThanU64 = 0x0101"
| "opcode_code AddU64 = 0x0102"
| "opcode_code SubU64 = 0x0103"
| "opcode_code BoolAnd = 0x0104"
| "opcode_code BoolOr = 0x0105"
| "opcode_code BoolNot = 0x0106"
| "opcode_code Select = 0x0107"
| "opcode_code Jump = 0x0200"
| "opcode_code Branch = 0x0201"
| "opcode_code Return = 0x0202"
| "opcode_code SystemLog = 0x1000"
| "opcode_code ObjectCreate = 0x1100"
| "opcode_code ObjectQuery = 0x1101"
| "opcode_code ObjectInspect = 0x1102"
| "opcode_code ObjectRevise = 0x1103"
| "opcode_code ObjectHistory = 0x1104"
| "opcode_code TaskActiveRead = 0x1200"
| "opcode_code TaskProposalEmit = 0x1201"
| "opcode_code TaskProposalApprove = 0x1202"
| "opcode_code TaskSuspend = 0x1203"
| "opcode_code TaskRevive = 0x1204"
| "opcode_code TaskContextRead = 0x1205"
| "opcode_code GraphQueryRelated = 0x1300"
| "opcode_code RelevanceAssertionEmit = 0x1301"
| "opcode_code CapabilityRequestEmit = 0x1400"
| "opcode_code CommandRead = 0x1500"
| "opcode_code CommandResultEmit = 0x1501"

definition opcode_try_from :: "u16 \<Rightarrow> Opcode option" where
  "opcode_try_from c =
     (if c = 0x0001 then Some BlockParam
      else if c = 0x0002 then Some ConstBool
      else if c = 0x0003 then Some ConstU64
      else if c = 0x0004 then Some ConstI64
      else if c = 0x0005 then Some ConstBytes
      else if c = 0x0006 then Some ConstUtf8
      else if c = 0x0007 then Some EffectStart
      else if c = 0x0008 then Some HostResult
      else if c = 0x0100 then Some Eq
      else if c = 0x0101 then Some LessThanU64
      else if c = 0x0102 then Some AddU64
      else if c = 0x0103 then Some SubU64
      else if c = 0x0104 then Some BoolAnd
      else if c = 0x0105 then Some BoolOr
      else if c = 0x0106 then Some BoolNot
      else if c = 0x0107 then Some Select
      else if c = 0x0200 then Some Jump
      else if c = 0x0201 then Some Branch
      else if c = 0x0202 then Some Return
      else if c = 0x1000 then Some SystemLog
      else if c = 0x1100 then Some ObjectCreate
      else if c = 0x1101 then Some ObjectQuery
      else if c = 0x1102 then Some ObjectInspect
      else if c = 0x1103 then Some ObjectRevise
      else if c = 0x1104 then Some ObjectHistory
      else if c = 0x1200 then Some TaskActiveRead
      else if c = 0x1201 then Some TaskProposalEmit
      else if c = 0x1202 then Some TaskProposalApprove
      else if c = 0x1203 then Some TaskSuspend
      else if c = 0x1204 then Some TaskRevive
      else if c = 0x1205 then Some TaskContextRead
      else if c = 0x1300 then Some GraphQueryRelated
      else if c = 0x1301 then Some RelevanceAssertionEmit
      else if c = 0x1400 then Some CapabilityRequestEmit
      else if c = 0x1500 then Some CommandRead
      else if c = 0x1501 then Some CommandResultEmit
      else None)"

lemma opcode_try_from_code [simp]: "opcode_try_from (opcode_code p) = Some p"
  by (cases p) (simp_all add: opcode_try_from_def)

interpretation opcode_wire: wire_code opcode_code opcode_try_from
proof
  show "opcode_try_from (opcode_code p) = Some p" for p
    by simp
  show "opcode_code p = c" if "opcode_try_from c = Some p" for c p
    using that by (simp add: opcode_try_from_def split: if_splits)
qed

section \<open>Resources and rights\<close>

definition RESOURCE_SYSTEM_LOG :: u16 where "RESOURCE_SYSTEM_LOG = 1"
definition RESOURCE_OBJECT_WORKSPACE :: u16 where "RESOURCE_OBJECT_WORKSPACE = 2"
definition RESOURCE_OBJECT :: u16 where "RESOURCE_OBJECT = 3"
definition RESOURCE_TASK :: u16 where "RESOURCE_TASK = 4"
definition RESOURCE_GRAPH :: u16 where "RESOURCE_GRAPH = 5"
definition RESOURCE_COMMAND :: u16 where "RESOURCE_COMMAND = 6"

definition RIGHTS_READ :: u64 where "RIGHTS_READ = 0x0001"
definition RIGHTS_QUERY :: u64 where "RIGHTS_QUERY = 0x0002"
definition RIGHTS_REVISE :: u64 where "RIGHTS_REVISE = 0x0004"
definition RIGHTS_CREATE :: u64 where "RIGHTS_CREATE = 0x0008"
definition RIGHTS_APPEND :: u64 where "RIGHTS_APPEND = 0x0010"
definition RIGHTS_APPROVE :: u64 where "RIGHTS_APPROVE = 0x0020"
definition RIGHTS_CONTROL :: u64 where "RIGHTS_CONTROL = 0x0040"

definition TASK_RIGHT_READ_CONTEXT :: u64 where "TASK_RIGHT_READ_CONTEXT = 0x0001"
definition TASK_RIGHT_CREATE_PROPOSAL :: u64 where "TASK_RIGHT_CREATE_PROPOSAL = 0x0008"
definition TASK_RIGHT_APPROVE_PROPOSAL :: u64 where "TASK_RIGHT_APPROVE_PROPOSAL = 0x0020"
definition TASK_RIGHT_CONTROL_STATE :: u64 where "TASK_RIGHT_CONTROL_STATE = 0x0040"

lemmas resource_defs =
  RESOURCE_SYSTEM_LOG_def RESOURCE_OBJECT_WORKSPACE_def RESOURCE_OBJECT_def RESOURCE_TASK_def
  RESOURCE_GRAPH_def RESOURCE_COMMAND_def

lemmas rights_defs =
  RIGHTS_READ_def RIGHTS_QUERY_def RIGHTS_REVISE_def RIGHTS_CREATE_def RIGHTS_APPEND_def
  RIGHTS_APPROVE_def RIGHTS_CONTROL_def TASK_RIGHT_READ_CONTEXT_def
  TASK_RIGHT_CREATE_PROPOSAL_def TASK_RIGHT_APPROVE_PROPOSAL_def TASK_RIGHT_CONTROL_STATE_def

section \<open>Signatures\<close>

text \<open>
  The source pads the inputs to an array of four and keeps the count beside it; the model keeps
  the list of the declared inputs, so that \<open>input_count\<close> is its length.
\<close>

record OpcodeSignature =
  sig_inputs :: "PythType list"
  sig_result :: PythType
  sig_effectful :: bool
  sig_terminator :: bool
  sig_required_resource_kind :: "u16 option"
  sig_required_rights :: u64

definition plain_sig :: "PythType list \<Rightarrow> PythType \<Rightarrow> OpcodeSignature" where
  "plain_sig inputs result =
     \<lparr>sig_inputs = inputs, sig_result = result, sig_effectful = False, sig_terminator = False,
      sig_required_resource_kind = None, sig_required_rights = 0\<rparr>"

definition terminator_sig :: "PythType \<Rightarrow> OpcodeSignature" where
  "terminator_sig result = (plain_sig [] result)\<lparr>sig_terminator := True\<rparr>"

definition terminator_with_inputs :: "PythType list \<Rightarrow> PythType \<Rightarrow> OpcodeSignature" where
  "terminator_with_inputs inputs result = (plain_sig inputs result)\<lparr>sig_terminator := True\<rparr>"

definition host_sig :: "PythType list \<Rightarrow> u16 \<Rightarrow> u64 \<Rightarrow> OpcodeSignature" where
  "host_sig inputs resource_kind rights =
     (plain_sig inputs Effect)\<lparr>sig_effectful := True,
        sig_required_resource_kind := Some resource_kind, sig_required_rights := rights\<rparr>"

fun signature :: "Opcode \<Rightarrow> OpcodeSignature" where
  "signature BlockParam = plain_sig [] Unit"
| "signature ConstBool = plain_sig [] Bool"
| "signature ConstU64 = plain_sig [] U64"
| "signature ConstI64 = plain_sig [] I64"
| "signature ConstBytes = plain_sig [] Bytes"
| "signature ConstUtf8 = plain_sig [] Utf8"
| "signature EffectStart = plain_sig [] Effect"
| "signature HostResult = plain_sig [Effect] Unit"
| "signature Eq = plain_sig [U64, U64] Bool"
| "signature LessThanU64 = plain_sig [U64, U64] Bool"
| "signature AddU64 = plain_sig [U64, U64] U64"
| "signature SubU64 = plain_sig [U64, U64] U64"
| "signature BoolAnd = plain_sig [Bool, Bool] Bool"
| "signature BoolOr = plain_sig [Bool, Bool] Bool"
| "signature BoolNot = plain_sig [Bool] Bool"
| "signature Select = plain_sig [Bool, U64, U64] U64"
| "signature Jump = terminator_sig Unit"
| "signature Branch = terminator_with_inputs [Bool] Unit"
| "signature Return = terminator_sig Unit"
| "signature SystemLog = host_sig [Effect, Capability, Utf8] RESOURCE_SYSTEM_LOG RIGHTS_READ"
| "signature ObjectCreate =
     host_sig [Effect, Capability, Utf8] RESOURCE_OBJECT_WORKSPACE RIGHTS_CREATE"
| "signature ObjectQuery =
     host_sig [Effect, Capability, Utf8] RESOURCE_OBJECT_WORKSPACE RIGHTS_QUERY"
| "signature ObjectInspect = host_sig [Effect, Capability, ObjectId] RESOURCE_OBJECT RIGHTS_READ"
| "signature ObjectRevise =
     host_sig [Effect, Capability, ObjectId, Bytes] RESOURCE_OBJECT RIGHTS_REVISE"
| "signature ObjectHistory = host_sig [Effect, Capability, ObjectId] RESOURCE_OBJECT RIGHTS_READ"
| "signature TaskActiveRead = host_sig [Effect, Capability] RESOURCE_TASK TASK_RIGHT_READ_CONTEXT"
| "signature TaskProposalEmit =
     host_sig [Effect, Capability, TaskId, U64] RESOURCE_TASK TASK_RIGHT_CREATE_PROPOSAL"
| "signature TaskProposalApprove =
     host_sig [Effect, Capability, ProposalId] RESOURCE_TASK TASK_RIGHT_APPROVE_PROPOSAL"
| "signature TaskSuspend =
     host_sig [Effect, Capability, TaskId] RESOURCE_TASK TASK_RIGHT_CONTROL_STATE"
| "signature TaskRevive =
     host_sig [Effect, Capability, TaskId] RESOURCE_TASK TASK_RIGHT_CONTROL_STATE"
| "signature TaskContextRead = host_sig [Effect, Capability] RESOURCE_TASK TASK_RIGHT_READ_CONTEXT"
| "signature GraphQueryRelated =
     host_sig [Effect, Capability, ObjectId] RESOURCE_GRAPH RIGHTS_QUERY"
| "signature RelevanceAssertionEmit =
     host_sig [Effect, Capability, ObjectId, ObjectId] RESOURCE_GRAPH RIGHTS_APPEND"
| "signature CapabilityRequestEmit =
     host_sig [Effect, Capability, Utf8] RESOURCE_TASK RIGHTS_APPEND"
| "signature CommandRead = host_sig [Effect, Capability] RESOURCE_COMMAND RIGHTS_READ"
| "signature CommandResultEmit =
     host_sig [Effect, Capability, ErrorCode, Utf8] RESOURCE_COMMAND RIGHTS_APPEND"

lemmas sig_defs =
  plain_sig_def terminator_sig_def terminator_with_inputs_def host_sig_def

text \<open>Facts about every signature that the verifier and the interpreter proofs use.\<close>

lemma signature_inputs_at_most_4: "length (sig_inputs (signature p)) \<le> 4"
  by (cases p) (simp_all add: sig_defs)

lemma signature_inputs_not_Unit: "Unit \<notin> set (sig_inputs (signature p))"
  by (cases p) (simp_all add: sig_defs)

lemma effectful_shape:
  assumes "sig_effectful (signature p)"
  shows "sig_result (signature p) = Effect" and "\<not> sig_terminator (signature p)"
    and "\<exists>rest. sig_inputs (signature p) = Effect # Capability # rest"
    and "sig_required_resource_kind (signature p) \<noteq> None"
  using assms by (cases p; simp add: sig_defs)+

end
