(* ===== verification/Tig_Format.thy ===== *)
theory Tig_Format
  imports Tig_Types
begin

text \<open>
  The binary PythTIG package of \<open>shared/src/pyth_tig/format.rs\<close>: header and record layouts, the
  decoder with its validation passes, and the accessors that view the sections of a decoded
  package as tables of records. The lemmas show that the decoder is total, that the six sections
  of an accepted package tile the bytes after the header, and that the accessors of an accepted
  package cannot panic.
\<close>

section \<open>Layout constants\<close>

definition PYTH_TIG_MAGIC :: "u8 list" where
  "PYTH_TIG_MAGIC = [0x50, 0x59, 0x54, 0x48, 0x54, 0x49, 0x47, 0x31]"
definition PYTH_TIG_MAJOR :: u16 where "PYTH_TIG_MAJOR = 1"
definition PYTH_TIG_MINOR :: u16 where "PYTH_TIG_MINOR = 1"

definition MAX_PACKAGE_BYTES :: usize where "MAX_PACKAGE_BYTES = 131072"
definition MAX_GRAPH_NODES :: usize where "MAX_GRAPH_NODES = 1024"
definition MAX_BLOCKS :: usize where "MAX_BLOCKS = 128"
definition MAX_CAPABILITY_IMPORTS :: usize where "MAX_CAPABILITY_IMPORTS = 32"
definition MAX_CONSTANT_POOL_BYTES :: usize where "MAX_CONSTANT_POOL_BYTES = 65536"
definition MAX_STRING_TABLE_BYTES :: usize where "MAX_STRING_TABLE_BYTES = 16384"
definition MAX_RUNTIME_VALUES :: usize where "MAX_RUNTIME_VALUES = 1024"
definition NO_VALUE :: u32 where "NO_VALUE = 0xFFFFFFFF"

text \<open>The record sizes are the \<open>size_of\<close> values of the \<open>repr(C)\<close> structures below.\<close>

definition PYTH_GRAPH_HEADER_SIZE :: usize where "PYTH_GRAPH_HEADER_SIZE = 96"
definition TYPE_RECORD_SIZE :: usize where "TYPE_RECORD_SIZE = 8"
definition BLOCK_RECORD_SIZE :: usize where "BLOCK_RECORD_SIZE = 24"
definition NODE_RECORD_SIZE :: usize where "NODE_RECORD_SIZE = 40"
definition CAPABILITY_IMPORT_RECORD_SIZE :: usize where "CAPABILITY_IMPORT_RECORD_SIZE = 24"
definition RECORD_SECTION_ALIGNMENT :: usize where "RECORD_SECTION_ALIGNMENT = 4"
definition CHECKSUM_OFFSET :: usize where "CHECKSUM_OFFSET = 84"
definition CHECKSUM_END :: usize where "CHECKSUM_END = 92"

lemmas tig_limits =
  MAX_PACKAGE_BYTES_def MAX_GRAPH_NODES_def MAX_BLOCKS_def MAX_CAPABILITY_IMPORTS_def
  MAX_CONSTANT_POOL_BYTES_def MAX_STRING_TABLE_BYTES_def MAX_RUNTIME_VALUES_def

lemmas tig_sizes =
  PYTH_GRAPH_HEADER_SIZE_def TYPE_RECORD_SIZE_def BLOCK_RECORD_SIZE_def NODE_RECORD_SIZE_def
  CAPABILITY_IMPORT_RECORD_SIZE_def

section \<open>Header and records\<close>

record PythGraphHeader =
  hdr_magic :: "u8 list"
  hdr_major :: u16
  hdr_minor :: u16
  hdr_flags :: u32
  hdr_package_id :: u64
  hdr_principal_id :: u64
  hdr_entry_block :: u32
  hdr_type_count :: u32
  hdr_block_count :: u32
  hdr_node_count :: u32
  hdr_import_count :: u32
  hdr_constant_pool_len :: u32
  hdr_string_table_len :: u32
  hdr_types_offset :: u32
  hdr_blocks_offset :: u32
  hdr_nodes_offset :: u32
  hdr_imports_offset :: u32
  hdr_constant_pool_offset :: u32
  hdr_string_table_offset :: u32
  hdr_checksum :: u64
  hdr_reserved :: u32

record TypeRecord =
  ty_kind :: u16
  ty_flags :: u16
  ty_auxiliary :: u32

record BlockRecord =
  blk_block_id :: u32
  blk_first_node :: u32
  blk_node_count :: u32
  blk_parameter_count :: u16
  blk_flags :: u16
  blk_terminator_node :: u32
  blk_reserved :: u32

record NodeRecord =
  nd_opcode :: u16
  nd_result_type :: u16
  nd_flags :: u16
  nd_block_index :: u16
  nd_input0 :: u32
  nd_input1 :: u32
  nd_input2 :: u32
  nd_input3 :: u32
  nd_auxiliary0 :: u32
  nd_auxiliary1 :: u32
  nd_immediate :: u64

record CapabilityImportRecord =
  imp_name_offset :: u32
  imp_name_len :: u16
  imp_resource_kind :: u16
  imp_rights :: u64
  imp_expected_type :: u16
  imp_import_slot :: u16
  imp_reserved :: u32

datatype PackageDecodeError =
    PackageTooLarge | HeaderTooShort | BadMagic | UnsupportedMajor | UnsupportedMinor
  | UnsupportedFlags | NonZeroReserved | CountLimit | LengthLimit | OffsetOverflow
  | SectionOutOfBounds | SectionUnaligned | SectionOrder | SectionOverlap | ChecksumMismatch
  | StringOutOfBounds

section \<open>Reading fields\<close>

definition read_bytes :: "nat \<Rightarrow> u8 list \<Rightarrow> usize \<Rightarrow> (PackageDecodeError, u8 list) result" where
  "read_bytes n bytes offset =
     bindR (ok_or (checked_add_usize offset n) OffsetOverflow) (\<lambda>end'.
     ok_or (slice_get bytes offset end') HeaderTooShort)"

definition read_u16 :: "u8 list \<Rightarrow> usize \<Rightarrow> (PackageDecodeError, u16) result" where
  "read_u16 bytes offset = bindR (read_bytes 2 bytes offset) (\<lambda>raw. Ok (from_le_bytes raw))"

definition read_u32 :: "u8 list \<Rightarrow> usize \<Rightarrow> (PackageDecodeError, u32) result" where
  "read_u32 bytes offset = bindR (read_bytes 4 bytes offset) (\<lambda>raw. Ok (from_le_bytes raw))"

definition read_u64 :: "u8 list \<Rightarrow> usize \<Rightarrow> (PackageDecodeError, u64) result" where
  "read_u64 bytes offset = bindR (read_bytes 8 bytes offset) (\<lambda>raw. Ok (from_le_bytes raw))"

definition read_magic :: "u8 list \<Rightarrow> (PackageDecodeError, u8 list) result" where
  "read_magic bytes = read_bytes 8 bytes 0"

definition read_header :: "u8 list \<Rightarrow> (PackageDecodeError, PythGraphHeader) result" where
  "read_header bytes =
     bindR (read_magic bytes) (\<lambda>magic.
     bindR (read_u16 bytes 8) (\<lambda>major.
     bindR (read_u16 bytes 10) (\<lambda>minor.
     bindR (read_u32 bytes 12) (\<lambda>flags.
     bindR (read_u64 bytes 16) (\<lambda>package_id.
     bindR (read_u64 bytes 24) (\<lambda>principal_id.
     bindR (read_u32 bytes 32) (\<lambda>entry_block.
     bindR (read_u32 bytes 36) (\<lambda>type_count.
     bindR (read_u32 bytes 40) (\<lambda>block_count.
     bindR (read_u32 bytes 44) (\<lambda>node_count.
     bindR (read_u32 bytes 48) (\<lambda>import_count.
     bindR (read_u32 bytes 52) (\<lambda>constant_pool_len.
     bindR (read_u32 bytes 56) (\<lambda>string_table_len.
     bindR (read_u32 bytes 60) (\<lambda>types_offset.
     bindR (read_u32 bytes 64) (\<lambda>blocks_offset.
     bindR (read_u32 bytes 68) (\<lambda>nodes_offset.
     bindR (read_u32 bytes 72) (\<lambda>imports_offset.
     bindR (read_u32 bytes 76) (\<lambda>constant_pool_offset.
     bindR (read_u32 bytes 80) (\<lambda>string_table_offset.
     bindR (read_u64 bytes CHECKSUM_OFFSET) (\<lambda>checksum.
     bindR (read_u32 bytes CHECKSUM_END) (\<lambda>reserved.
     Ok \<lparr>hdr_magic = magic, hdr_major = major, hdr_minor = minor, hdr_flags = flags,
         hdr_package_id = package_id, hdr_principal_id = principal_id,
         hdr_entry_block = entry_block, hdr_type_count = type_count,
         hdr_block_count = block_count, hdr_node_count = node_count,
         hdr_import_count = import_count, hdr_constant_pool_len = constant_pool_len,
         hdr_string_table_len = string_table_len, hdr_types_offset = types_offset,
         hdr_blocks_offset = blocks_offset, hdr_nodes_offset = nodes_offset,
         hdr_imports_offset = imports_offset, hdr_constant_pool_offset = constant_pool_offset,
         hdr_string_table_offset = string_table_offset, hdr_checksum = checksum,
         hdr_reserved = reserved\<rparr>)))))))))))))))))))))"

definition decode_type_record :: "u8 list \<Rightarrow> usize \<Rightarrow> (PackageDecodeError, TypeRecord) result" where
  "decode_type_record bytes offset =
     bindR (read_u16 bytes offset) (\<lambda>kind.
     bindR (read_u16 bytes (offset + 2)) (\<lambda>flags.
     bindR (read_u32 bytes (offset + 4)) (\<lambda>auxiliary.
     Ok \<lparr>ty_kind = kind, ty_flags = flags, ty_auxiliary = auxiliary\<rparr>)))"

definition decode_block_record :: "u8 list \<Rightarrow> usize \<Rightarrow> (PackageDecodeError, BlockRecord) result" where
  "decode_block_record bytes offset =
     bindR (read_u32 bytes offset) (\<lambda>block_id.
     bindR (read_u32 bytes (offset + 4)) (\<lambda>first_node.
     bindR (read_u32 bytes (offset + 8)) (\<lambda>node_count.
     bindR (read_u16 bytes (offset + 12)) (\<lambda>parameter_count.
     bindR (read_u16 bytes (offset + 14)) (\<lambda>flags.
     bindR (read_u32 bytes (offset + 16)) (\<lambda>terminator_node.
     bindR (read_u32 bytes (offset + 20)) (\<lambda>reserved.
     Ok \<lparr>blk_block_id = block_id, blk_first_node = first_node, blk_node_count = node_count,
         blk_parameter_count = parameter_count, blk_flags = flags,
         blk_terminator_node = terminator_node, blk_reserved = reserved\<rparr>)))))))"

definition decode_node_record :: "u8 list \<Rightarrow> usize \<Rightarrow> (PackageDecodeError, NodeRecord) result" where
  "decode_node_record bytes offset =
     bindR (read_u16 bytes offset) (\<lambda>opcode.
     bindR (read_u16 bytes (offset + 2)) (\<lambda>result_type.
     bindR (read_u16 bytes (offset + 4)) (\<lambda>flags.
     bindR (read_u16 bytes (offset + 6)) (\<lambda>block_index.
     bindR (read_u32 bytes (offset + 8)) (\<lambda>input0.
     bindR (read_u32 bytes (offset + 12)) (\<lambda>input1.
     bindR (read_u32 bytes (offset + 16)) (\<lambda>input2.
     bindR (read_u32 bytes (offset + 20)) (\<lambda>input3.
     bindR (read_u32 bytes (offset + 24)) (\<lambda>auxiliary0.
     bindR (read_u32 bytes (offset + 28)) (\<lambda>auxiliary1.
     bindR (read_u64 bytes (offset + 32)) (\<lambda>immediate.
     Ok \<lparr>nd_opcode = opcode, nd_result_type = result_type, nd_flags = flags,
         nd_block_index = block_index, nd_input0 = input0, nd_input1 = input1,
         nd_input2 = input2, nd_input3 = input3, nd_auxiliary0 = auxiliary0,
         nd_auxiliary1 = auxiliary1, nd_immediate = immediate\<rparr>)))))))))))"

definition decode_capability_import_record ::
    "u8 list \<Rightarrow> usize \<Rightarrow> (PackageDecodeError, CapabilityImportRecord) result" where
  "decode_capability_import_record bytes offset =
     bindR (read_u32 bytes offset) (\<lambda>name_offset.
     bindR (read_u16 bytes (offset + 4)) (\<lambda>name_len.
     bindR (read_u16 bytes (offset + 6)) (\<lambda>resource_kind.
     bindR (read_u64 bytes (offset + 8)) (\<lambda>rights.
     bindR (read_u16 bytes (offset + 16)) (\<lambda>expected_type.
     bindR (read_u16 bytes (offset + 18)) (\<lambda>import_slot.
     bindR (read_u32 bytes (offset + 20)) (\<lambda>reserved.
     Ok \<lparr>imp_name_offset = name_offset, imp_name_len = name_len,
         imp_resource_kind = resource_kind, imp_rights = rights,
         imp_expected_type = expected_type, imp_import_slot = import_slot,
         imp_reserved = reserved\<rparr>)))))))"

section \<open>Validation\<close>

type_synonym SectionRange = "usize \<times> usize"

definition range_from_parts :: "usize \<Rightarrow> usize \<Rightarrow> (PackageDecodeError, SectionRange) result" where
  "range_from_parts start len =
     bindR (ok_or (checked_add_usize start len) OffsetOverflow) (\<lambda>end'. Ok (start, end'))"

definition record_range :: "u32 \<Rightarrow> usize \<Rightarrow> usize \<Rightarrow> (PackageDecodeError, SectionRange) result" where
  "record_range offset count record_size =
     bindR (ok_or (checked_mul_usize count record_size) LengthLimit) (\<lambda>len.
     range_from_parts (unat offset) len)"

definition byte_range :: "u32 \<Rightarrow> u32 \<Rightarrow> (PackageDecodeError, SectionRange) result" where
  "byte_range offset len = range_from_parts (unat offset) (unat len)"

definition validate_count :: "u32 \<Rightarrow> usize \<Rightarrow> (PackageDecodeError, unit) result" where
  "validate_count count limit = ensure (unat count \<le> limit) CountLimit"

definition validate_len :: "u32 \<Rightarrow> usize \<Rightarrow> (PackageDecodeError, unit) result" where
  "validate_len len limit = ensure (unat len \<le> limit) LengthLimit"

definition validate_header :: "PythGraphHeader \<Rightarrow> (PackageDecodeError, unit) result" where
  "validate_header h =
     bindR (ensure (hdr_magic h = PYTH_TIG_MAGIC) BadMagic) (\<lambda>_.
     bindR (ensure (hdr_major h = PYTH_TIG_MAJOR) UnsupportedMajor) (\<lambda>_.
     bindR (ensure (hdr_minor h \<le> PYTH_TIG_MINOR) UnsupportedMinor) (\<lambda>_.
     bindR (ensure (hdr_flags h = 0) UnsupportedFlags) (\<lambda>_.
     bindR (ensure (hdr_reserved h = 0) NonZeroReserved) (\<lambda>_.
     bindR (validate_count (hdr_type_count h) MAX_RUNTIME_VALUES) (\<lambda>_.
     bindR (validate_count (hdr_block_count h) MAX_BLOCKS) (\<lambda>_.
     bindR (validate_count (hdr_node_count h) MAX_GRAPH_NODES) (\<lambda>_.
     bindR (validate_count (hdr_import_count h) MAX_CAPABILITY_IMPORTS) (\<lambda>_.
     bindR (validate_len (hdr_constant_pool_len h) MAX_CONSTANT_POOL_BYTES) (\<lambda>_.
     validate_len (hdr_string_table_len h) MAX_STRING_TABLE_BYTES))))))))))"

definition validate_byte_section :: "u8 list \<Rightarrow> SectionRange \<Rightarrow> (PackageDecodeError, unit) result" where
  "validate_byte_section bytes rng = ensure (snd rng \<le> length bytes) SectionOutOfBounds"

definition validate_record_section :: "u8 list \<Rightarrow> SectionRange \<Rightarrow> (PackageDecodeError, unit) result" where
  "validate_record_section bytes rng =
     bindR (validate_byte_section bytes rng) (\<lambda>_.
     ensure (RECORD_SECTION_ALIGNMENT dvd fst rng) SectionUnaligned)"

definition validate_record_reserved ::
    "u8 list \<Rightarrow> SectionRange \<Rightarrow> usize \<Rightarrow> usize \<Rightarrow> usize \<Rightarrow> (PackageDecodeError, unit) result" where
  "validate_record_reserved bytes rng count record_size field_offset =
     for_each (\<lambda>index.
       bindR (ok_or (checked_mul_usize index record_size) LengthLimit) (\<lambda>record_delta.
       bindR (ok_or (checked_add_usize (fst rng) record_delta) OffsetOverflow) (\<lambda>record_start.
       bindR (ok_or (checked_add_usize record_start field_offset) OffsetOverflow) (\<lambda>reserved_offset.
       bindR (read_u32 bytes reserved_offset) (\<lambda>reserved.
       ensure (reserved = 0) NonZeroReserved))))) [0..<count]"

definition validate_section_layout ::
    "usize \<Rightarrow> SectionRange list \<Rightarrow> (PackageDecodeError, unit) result" where
  "validate_section_layout bytes_len sections =
     bindR (fold_res (\<lambda>expected_start (start, end').
         bindR (ensure (\<not> start < expected_start) SectionOverlap) (\<lambda>_.
         bindR (ensure (\<not> start > expected_start) SectionOrder) (\<lambda>_.
         Ok end'))) PYTH_GRAPH_HEADER_SIZE sections) (\<lambda>expected_start.
     ensure (expected_start = bytes_len) SectionOutOfBounds)"

definition validate_sections :: "u8 list \<Rightarrow> PythGraphHeader \<Rightarrow> (PackageDecodeError, unit) result" where
  "validate_sections bytes h =
     (let type_count = unat (hdr_type_count h);
          block_count = unat (hdr_block_count h);
          node_count = unat (hdr_node_count h);
          import_count = unat (hdr_import_count h) in
     bindR (record_range (hdr_types_offset h) type_count TYPE_RECORD_SIZE) (\<lambda>types.
     bindR (record_range (hdr_blocks_offset h) block_count BLOCK_RECORD_SIZE) (\<lambda>blocks.
     bindR (record_range (hdr_nodes_offset h) node_count NODE_RECORD_SIZE) (\<lambda>nodes.
     bindR (record_range (hdr_imports_offset h) import_count CAPABILITY_IMPORT_RECORD_SIZE) (\<lambda>imports.
     bindR (byte_range (hdr_constant_pool_offset h) (hdr_constant_pool_len h)) (\<lambda>constant_pool.
     bindR (byte_range (hdr_string_table_offset h) (hdr_string_table_len h)) (\<lambda>string_table.
     bindR (validate_record_section bytes types) (\<lambda>_.
     bindR (validate_record_section bytes blocks) (\<lambda>_.
     bindR (validate_record_section bytes nodes) (\<lambda>_.
     bindR (validate_record_section bytes imports) (\<lambda>_.
     bindR (validate_record_reserved bytes blocks block_count BLOCK_RECORD_SIZE 20) (\<lambda>_.
     bindR (validate_record_reserved bytes imports import_count CAPABILITY_IMPORT_RECORD_SIZE 20) (\<lambda>_.
     bindR (validate_byte_section bytes constant_pool) (\<lambda>_.
     bindR (validate_byte_section bytes string_table) (\<lambda>_.
     validate_section_layout (length bytes)
       [types, blocks, nodes, imports, constant_pool, string_table])))))))))))))))"

text \<open>FNV-1a over the whole package, with the checksum field itself read as zeros.\<close>

definition package_checksum :: "u8 list \<Rightarrow> u64" where
  "package_checksum bytes =
     fold (\<lambda>(index, byte) hash.
         (hash XOR ucast (if CHECKSUM_OFFSET \<le> index \<and> index < CHECKSUM_END then 0 else byte))
         * 0x100000001B3)
       (enumerate 0 bytes) 0xcbf29ce484222325"

section \<open>Decoding a package\<close>

record PythGraphPackage =
  pkg_bytes :: "u8 list"
  pkg_header :: PythGraphHeader

definition decode :: "u8 list \<Rightarrow> (PackageDecodeError, PythGraphPackage) result" where
  "decode bytes =
     bindR (ensure (\<not> length bytes > MAX_PACKAGE_BYTES) PackageTooLarge) (\<lambda>_.
     bindR (ensure (\<not> length bytes < PYTH_GRAPH_HEADER_SIZE) HeaderTooShort) (\<lambda>_.
     bindR (read_header bytes) (\<lambda>header.
     bindR (validate_header header) (\<lambda>_.
     bindR (validate_sections bytes header) (\<lambda>_.
     bindR (ensure (package_checksum bytes = hdr_checksum header) ChecksumMismatch) (\<lambda>_.
     Ok \<lparr>pkg_bytes = bytes, pkg_header = header\<rparr>))))))"

section \<open>Section accessors\<close>

text \<open>Accessors \<open>expect\<close> the range and index the bytes, so they panic where the range is bad.\<close>

definition record_section :: "PythGraphPackage \<Rightarrow> u32 \<Rightarrow> u32 \<Rightarrow> usize \<Rightarrow> ('e, u8 list) result" where
  "record_section pkg offset count record_size =
     (case record_range offset (unat count) record_size of
        Ok (start, end') \<Rightarrow> expectR (slice_get (pkg_bytes pkg) start end')
      | _ \<Rightarrow> Panic)"

definition byte_section :: "PythGraphPackage \<Rightarrow> u32 \<Rightarrow> u32 \<Rightarrow> ('e, u8 list) result" where
  "byte_section pkg offset len =
     (case byte_range offset len of
        Ok (start, end') \<Rightarrow> expectR (slice_get (pkg_bytes pkg) start end')
      | _ \<Rightarrow> Panic)"

definition record_bytes :: "u8 list \<Rightarrow> usize \<Rightarrow> usize \<Rightarrow> u8 list option" where
  "record_bytes bytes index record_size =
     Option.bind (checked_mul_usize index record_size) (\<lambda>start.
     Option.bind (checked_add_usize start record_size) (\<lambda>end'.
     slice_get bytes start end'))"

primrec ok :: "('e, 'a) result \<Rightarrow> 'a option" where
  "ok (Ok x) = Some x"
| "ok (Err e) = None"
| "ok Panic = None"
| "ok Diverge = None"

definition type_get :: "u8 list \<Rightarrow> usize \<Rightarrow> TypeRecord option" where
  "type_get bytes index =
     Option.bind (record_bytes bytes index TYPE_RECORD_SIZE) (\<lambda>b. ok (decode_type_record b 0))"

definition block_get :: "u8 list \<Rightarrow> usize \<Rightarrow> BlockRecord option" where
  "block_get bytes index =
     Option.bind (record_bytes bytes index BLOCK_RECORD_SIZE) (\<lambda>b. ok (decode_block_record b 0))"

definition node_get :: "u8 list \<Rightarrow> usize \<Rightarrow> NodeRecord option" where
  "node_get bytes index =
     Option.bind (record_bytes bytes index NODE_RECORD_SIZE) (\<lambda>b. ok (decode_node_record b 0))"

definition import_get :: "u8 list \<Rightarrow> usize \<Rightarrow> CapabilityImportRecord option" where
  "import_get bytes index =
     Option.bind (record_bytes bytes index CAPABILITY_IMPORT_RECORD_SIZE)
       (\<lambda>b. ok (decode_capability_import_record b 0))"

text \<open>
  The record iterators call \<open>get\<close> with increasing indices until it returns nothing. One more step
  than the number of whole records in the section reaches that end.
\<close>

fun iter_records :: "(usize \<Rightarrow> 'r option) \<Rightarrow> nat \<Rightarrow> usize \<Rightarrow> 'r list" where
  "iter_records get 0 index = []"
| "iter_records get (Suc n) index =
     (case get index of None \<Rightarrow> [] | Some r \<Rightarrow> r # iter_records get n (Suc index))"

definition type_records :: "u8 list \<Rightarrow> TypeRecord list" where
  "type_records bytes = iter_records (type_get bytes) (Suc (length bytes div TYPE_RECORD_SIZE)) 0"

definition block_records :: "u8 list \<Rightarrow> BlockRecord list" where
  "block_records bytes = iter_records (block_get bytes) (Suc (length bytes div BLOCK_RECORD_SIZE)) 0"

definition node_records :: "u8 list \<Rightarrow> NodeRecord list" where
  "node_records bytes = iter_records (node_get bytes) (Suc (length bytes div NODE_RECORD_SIZE)) 0"

definition import_records :: "u8 list \<Rightarrow> CapabilityImportRecord list" where
  "import_records bytes =
     iter_records (import_get bytes) (Suc (length bytes div CAPABILITY_IMPORT_RECORD_SIZE)) 0"

text \<open>
  The view of a package that its consumers work with: the header and, for each section, what the
  accessor method of the same name returns.
\<close>

record tig_graph =
  header :: PythGraphHeader
  types :: "TypeRecord list"
  blocks :: "BlockRecord list"
  nodes :: "NodeRecord list"
  g_imports :: "CapabilityImportRecord list"
  constant_pool :: "u8 list"
  string_table :: "u8 list"

definition package_graph :: "PythGraphPackage \<Rightarrow> ('e, tig_graph) result" where
  "package_graph pkg =
     (let h = pkg_header pkg in
     bindR (record_section pkg (hdr_types_offset h) (hdr_type_count h) TYPE_RECORD_SIZE) (\<lambda>t.
     bindR (record_section pkg (hdr_blocks_offset h) (hdr_block_count h) BLOCK_RECORD_SIZE) (\<lambda>b.
     bindR (record_section pkg (hdr_nodes_offset h) (hdr_node_count h) NODE_RECORD_SIZE) (\<lambda>n.
     bindR (record_section pkg (hdr_imports_offset h) (hdr_import_count h)
              CAPABILITY_IMPORT_RECORD_SIZE) (\<lambda>i.
     bindR (byte_section pkg (hdr_constant_pool_offset h) (hdr_constant_pool_len h)) (\<lambda>c.
     bindR (byte_section pkg (hdr_string_table_offset h) (hdr_string_table_len h)) (\<lambda>s.
     Ok \<lparr>header = h, types = type_records t, blocks = block_records b, nodes = node_records n,
         g_imports = import_records i, constant_pool = c, string_table = s\<rparr>)))))))"

text \<open>Indexed access \<open>nodes().get(i)\<close> and \<open>blocks().get(i)\<close> on the view.\<close>

definition list_get :: "'a list \<Rightarrow> usize \<Rightarrow> 'a option" where
  "list_get xs i = (if i < length xs then Some (xs ! i) else None)"

lemma list_get_Some [simp]: "list_get xs i = Some x \<longleftrightarrow> i < length xs \<and> x = xs ! i"
  by (auto simp: list_get_def)

lemma list_get_None [simp]: "list_get xs i = None \<longleftrightarrow> length xs \<le> i"
  by (auto simp: list_get_def)

definition string_at :: "tig_graph \<Rightarrow> u32 \<Rightarrow> u16 \<Rightarrow> (PackageDecodeError, u8 list) result" where
  "string_at g offset len =
     bindR (ok_or (checked_add_word offset (ucast len)) OffsetOverflow) (\<lambda>end_offset.
     ok_or (slice_get (string_table g) (unat offset) (unat end_offset)) StringOutOfBounds)"

section \<open>Field reads and record decoding\<close>

lemma read_bytes_eq_Ok [simp]:
  "read_bytes n bs off = Ok raw \<longleftrightarrow>
     off + n \<le> USIZE_MAX \<and> off + n \<le> length bs \<and> raw = take n (drop off bs)"
  by (auto simp: read_bytes_def slice_get_Some)

lemma settled_read_bytes [simp, settled_intros]: "settled (read_bytes n bs off)"
  by (auto simp: read_bytes_def intro!: settled_intros)

lemma settled_reads [simp, settled_intros]:
  "settled (read_u16 bs off)" "settled (read_u32 bs off)" "settled (read_u64 bs off)"
  "settled (read_magic bs)"
  by (auto simp: read_u16_def read_u32_def read_u64_def read_magic_def intro!: settled_intros)

lemma read_word_eq_Ok:
  "read_u16 bs off = Ok v \<longleftrightarrow>
     off + 2 \<le> USIZE_MAX \<and> off + 2 \<le> length bs \<and> v = from_le_bytes (take 2 (drop off bs))"
  "read_u32 bs off = Ok w \<longleftrightarrow>
     off + 4 \<le> USIZE_MAX \<and> off + 4 \<le> length bs \<and> w = from_le_bytes (take 4 (drop off bs))"
  "read_u64 bs off = Ok x \<longleftrightarrow>
     off + 8 \<le> USIZE_MAX \<and> off + 8 \<le> length bs \<and> x = from_le_bytes (take 8 (drop off bs))"
  by (auto simp: read_u16_def read_u32_def read_u64_def)

lemma settled_read_header [simp, settled_intros]: "settled (read_header bs)"
  unfolding read_header_def by (intro settled_intros settled_simps)

lemma record_decodable:
  assumes "length bs \<le> USIZE_MAX"
  shows "length bs = TYPE_RECORD_SIZE \<Longrightarrow> ok (decode_type_record bs 0) \<noteq> None"
    and "length bs = BLOCK_RECORD_SIZE \<Longrightarrow> ok (decode_block_record bs 0) \<noteq> None"
    and "length bs = NODE_RECORD_SIZE \<Longrightarrow> ok (decode_node_record bs 0) \<noteq> None"
    and "length bs = CAPABILITY_IMPORT_RECORD_SIZE \<Longrightarrow>
           ok (decode_capability_import_record bs 0) \<noteq> None"
  using assms
  by (simp_all add: tig_sizes decode_type_record_def decode_block_record_def
      decode_node_record_def decode_capability_import_record_def read_u16_def read_u32_def
      read_u64_def read_bytes_def checked_add_usize_def slice_get_def)

lemma record_bytes_length:
  "record_bytes bs i rsize = Some b \<Longrightarrow> length b = rsize"
  by (auto simp: record_bytes_def slice_get_Some split: bind_splits)

lemma record_bytes_defined:
  assumes "length bs \<le> USIZE_MAX"
  shows "record_bytes bs i rsize \<noteq> None \<longleftrightarrow> Suc i * rsize \<le> length bs"
  using assms
  by (auto simp: record_bytes_def slice_get_def checked_mul_usize_def checked_add_usize_def)

section \<open>Tables of records\<close>

lemma iter_records_eq:
  assumes "\<And>j. j < k \<Longrightarrow> get (i + j) \<noteq> None" and "get (i + k) = None" and "k < n"
  shows "iter_records get n i = map (\<lambda>j. the (get (i + j))) [0..<k]"
  using assms
proof (induction k arbitrary: i n)
  case 0
  then show ?case by (cases n) auto
next
  case (Suc k)
  from Suc.prems(3) obtain m where n: "n = Suc m" and "k < m"
    by (cases n) auto
  have "iter_records get m (Suc i) = map (\<lambda>j. the (get (Suc i + j))) [0..<k]"
    using Suc.prems(1) [of "Suc _"] Suc.prems(2) \<open>k < m\<close> by (intro Suc.IH) auto
  moreover obtain r where "get i = Some r"
    using Suc.prems(1) [of 0] by auto
  moreover have "[0..<Suc k] = 0 # map Suc [0..<k]"
    by (simp add: map_Suc_upt upt_conv_Cons del: upt_Suc)
  ultimately show ?case by (simp add: n comp_def del: upt_Suc)
qed

declare iter_records.simps [simp del]

text \<open>
  The contract between an indexed \<open>get\<close> over a section and the record iterator: a record exists
  exactly where a whole record fits. The four record kinds interpret it.
\<close>

locale record_table =
  fixes get :: "u8 list \<Rightarrow> usize \<Rightarrow> 'r option"
    and rsize :: usize
  assumes size_pos: "0 < rsize"
    and get_defined: "length bs \<le> USIZE_MAX \<Longrightarrow> get bs i \<noteq> None \<longleftrightarrow> Suc i * rsize \<le> length bs"
begin

lemma get_defined_div:
  assumes "length bs \<le> USIZE_MAX"
  shows "get bs i \<noteq> None \<longleftrightarrow> i < length bs div rsize"
proof -
  have "Suc i * rsize \<le> length bs \<longleftrightarrow> Suc i \<le> length bs div rsize"
    using size_pos by (simp add: less_eq_div_iff_mult_less_eq)
  with get_defined [OF assms] show ?thesis by auto
qed

lemma iter_eq:
  assumes "length bs \<le> USIZE_MAX"
  shows "iter_records (get bs) (Suc (length bs div rsize)) 0 =
         map (\<lambda>i. the (get bs i)) [0..<length bs div rsize]"
proof -
  have "get bs (0 + i) \<noteq> None" if "i < length bs div rsize" for i
    using that get_defined_div [OF assms, of i] by simp
  moreover have "get bs (0 + length bs div rsize) = None"
    using get_defined_div [OF assms, of "length bs div rsize"] by auto
  ultimately show ?thesis by (subst iter_records_eq) auto
qed

lemma iter_length:
  "length bs \<le> USIZE_MAX \<Longrightarrow>
   length (iter_records (get bs) (Suc (length bs div rsize)) 0) = length bs div rsize"
  by (simp add: iter_eq)

lemma get_iter:
  assumes "length bs \<le> USIZE_MAX"
  shows "get bs i = list_get (iter_records (get bs) (Suc (length bs div rsize)) 0) i"
proof (cases "i < length bs div rsize")
  case True
  then obtain r where "get bs i = Some r"
    using get_defined_div [OF assms, of i] by auto
  with True show ?thesis by (simp add: iter_eq assms list_get_def)
next
  case False
  then have "get bs i = None"
    using get_defined_div [OF assms, of i] by auto
  with False show ?thesis by (simp add: iter_eq assms list_get_def)
qed

end

lemma bind_record_defined:
  assumes "length bs \<le> USIZE_MAX"
    and "\<And>b. length b \<le> USIZE_MAX \<Longrightarrow> length b = rsize \<Longrightarrow> dec b \<noteq> None"
    and "rsize \<le> USIZE_MAX"
  shows "Option.bind (record_bytes bs i rsize) dec \<noteq> None \<longleftrightarrow> Suc i * rsize \<le> length bs"
proof (cases "record_bytes bs i rsize")
  case None
  then show ?thesis using record_bytes_defined [OF assms(1), of i rsize] by simp
next
  case (Some b)
  then have "dec b \<noteq> None"
    using assms(2) [of b] assms(3) record_bytes_length by metis
  with Some show ?thesis using record_bytes_defined [OF assms(1), of i rsize] by simp
qed

lemma record_size_bounds [simp]:
  "0 < TYPE_RECORD_SIZE" "0 < BLOCK_RECORD_SIZE" "0 < NODE_RECORD_SIZE"
  "0 < CAPABILITY_IMPORT_RECORD_SIZE" "TYPE_RECORD_SIZE \<le> USIZE_MAX"
  "BLOCK_RECORD_SIZE \<le> USIZE_MAX" "NODE_RECORD_SIZE \<le> USIZE_MAX"
  "CAPABILITY_IMPORT_RECORD_SIZE \<le> USIZE_MAX"
  by (simp_all add: tig_sizes USIZE_MAX_def)

interpretation type_table: record_table type_get TYPE_RECORD_SIZE
proof
  show "type_get bs i \<noteq> None \<longleftrightarrow> Suc i * TYPE_RECORD_SIZE \<le> length bs"
    if "length bs \<le> USIZE_MAX" for bs i
    unfolding type_get_def
    by (rule bind_record_defined [OF that record_decodable(1)]) simp_all
qed simp

interpretation block_table: record_table block_get BLOCK_RECORD_SIZE
proof
  show "block_get bs i \<noteq> None \<longleftrightarrow> Suc i * BLOCK_RECORD_SIZE \<le> length bs"
    if "length bs \<le> USIZE_MAX" for bs i
    unfolding block_get_def
    by (rule bind_record_defined [OF that record_decodable(2)]) simp_all
qed simp

interpretation node_table: record_table node_get NODE_RECORD_SIZE
proof
  show "node_get bs i \<noteq> None \<longleftrightarrow> Suc i * NODE_RECORD_SIZE \<le> length bs"
    if "length bs \<le> USIZE_MAX" for bs i
    unfolding node_get_def
    by (rule bind_record_defined [OF that record_decodable(3)]) simp_all
qed simp

interpretation import_table: record_table import_get CAPABILITY_IMPORT_RECORD_SIZE
proof
  show "import_get bs i \<noteq> None \<longleftrightarrow> Suc i * CAPABILITY_IMPORT_RECORD_SIZE \<le> length bs"
    if "length bs \<le> USIZE_MAX" for bs i
    unfolding import_get_def
    by (rule bind_record_defined [OF that record_decodable(4)]) simp_all
qed simp

section \<open>Totality of the decoder\<close>

lemma settled_ranges [simp, settled_intros]:
  "settled (record_range off n rsize)" "settled (byte_range off len)"
  unfolding record_range_def byte_range_def range_from_parts_def
  by (intro settled_intros settled_simps)+

lemma settled_validations [simp, settled_intros]:
  "settled (validate_count c l)" "settled (validate_len len l)"
  "settled (validate_byte_section bs r)" "settled (validate_record_section bs r)"
  "settled (validate_record_reserved bs r n rsize fo)" "settled (validate_section_layout n rs)"
proof -
  show 1: "settled (validate_byte_section bs r)" for bs r
    by (simp add: validate_byte_section_def)
  show "settled (validate_record_section bs r)"
    unfolding validate_record_section_def by (intro settled_intros 1)
  show "settled (validate_record_reserved bs r n rsize fo)"
    unfolding validate_record_reserved_def by (intro settled_intros)
  have "settled (fold_res (\<lambda>expected_start (start, end').
         bindR (ensure (\<not> start < expected_start) SectionOverlap) (\<lambda>_.
         bindR (ensure (\<not> start > expected_start) SectionOrder) (\<lambda>_.
         Ok end'))) e rs)" for e rs
    by (induction rs arbitrary: e) (auto intro!: settled_intros)
  then show "settled (validate_section_layout n rs)"
    unfolding validate_section_layout_def by (intro settled_intros)
qed (simp_all add: validate_count_def validate_len_def)

lemma settled_decode [simp]: "settled (decode bs)"
  unfolding decode_def validate_header_def validate_sections_def Let_def
  by (intro settled_intros settled_simps)

section \<open>What an accepted package looks like\<close>

lemma record_range_eq_Ok [simp]:
  "record_range off n rsize = Ok r \<longleftrightarrow>
     n * rsize \<le> USIZE_MAX \<and> unat off + n * rsize \<le> USIZE_MAX \<and>
     r = (unat off, unat off + n * rsize)"
  by (auto simp: record_range_def range_from_parts_def)

lemma byte_range_eq_Ok [simp]:
  "byte_range off len = Ok r \<longleftrightarrow>
     unat off + unat len \<le> USIZE_MAX \<and> r = (unat off, unat off + unat len)"
  by (auto simp: byte_range_def range_from_parts_def)

text \<open>The six sections follow each other without gap or overlap from the header to the end.\<close>

definition sections_tile :: "u8 list \<Rightarrow> PythGraphHeader \<Rightarrow> bool" where
  "sections_tile bytes h \<longleftrightarrow>
     unat (hdr_types_offset h) = PYTH_GRAPH_HEADER_SIZE \<and>
     unat (hdr_blocks_offset h) =
       unat (hdr_types_offset h) + unat (hdr_type_count h) * TYPE_RECORD_SIZE \<and>
     unat (hdr_nodes_offset h) =
       unat (hdr_blocks_offset h) + unat (hdr_block_count h) * BLOCK_RECORD_SIZE \<and>
     unat (hdr_imports_offset h) =
       unat (hdr_nodes_offset h) + unat (hdr_node_count h) * NODE_RECORD_SIZE \<and>
     unat (hdr_constant_pool_offset h) =
       unat (hdr_imports_offset h) + unat (hdr_import_count h) * CAPABILITY_IMPORT_RECORD_SIZE \<and>
     unat (hdr_string_table_offset h) =
       unat (hdr_constant_pool_offset h) + unat (hdr_constant_pool_len h) \<and>
     length bytes = unat (hdr_string_table_offset h) + unat (hdr_string_table_len h)"

definition within_limits :: "PythGraphHeader \<Rightarrow> bool" where
  "within_limits h \<longleftrightarrow>
     unat (hdr_type_count h) \<le> MAX_RUNTIME_VALUES \<and> unat (hdr_block_count h) \<le> MAX_BLOCKS \<and>
     unat (hdr_node_count h) \<le> MAX_GRAPH_NODES \<and>
     unat (hdr_import_count h) \<le> MAX_CAPABILITY_IMPORTS \<and>
     unat (hdr_constant_pool_len h) \<le> MAX_CONSTANT_POOL_BYTES \<and>
     unat (hdr_string_table_len h) \<le> MAX_STRING_TABLE_BYTES"

lemma validate_header_within_limits: "validate_header h = Ok u \<Longrightarrow> within_limits h"
  by (auto simp: validate_header_def validate_count_def validate_len_def within_limits_def)

lemma validate_section_layout_6:
  "validate_section_layout n [(s0, e0), (s1, e1), (s2, e2), (s3, e3), (s4, e4), (s5, e5)] = Ok u \<longleftrightarrow>
     s0 = PYTH_GRAPH_HEADER_SIZE \<and> s1 = e0 \<and> s2 = e1 \<and> s3 = e2 \<and> s4 = e3 \<and> s5 = e4 \<and> e5 = n"
  by (auto simp: validate_section_layout_def)

lemma validate_sections_tile: "validate_sections bytes h = Ok u \<Longrightarrow> sections_tile bytes h"
  by (auto simp: validate_sections_def Let_def validate_section_layout_6 sections_tile_def)

lemma decode_eq_OkD:
  assumes "decode bytes = Ok pkg"
  shows "pkg_bytes pkg = bytes" and "length bytes \<le> MAX_PACKAGE_BYTES"
    and "within_limits (pkg_header pkg)" and "sections_tile bytes (pkg_header pkg)"
    and "read_header bytes = Ok (pkg_header pkg)"
    and "package_checksum bytes = hdr_checksum (pkg_header pkg)"
  using assms
  by (auto simp: decode_def dest: validate_header_within_limits validate_sections_tile)

lemma record_section_eq_Ok:
  assumes "unat off + unat n * rsize \<le> length (pkg_bytes pkg)"
    and "length (pkg_bytes pkg) \<le> USIZE_MAX"
  shows "record_section pkg off n rsize =
         Ok (take (unat n * rsize) (drop (unat off) (pkg_bytes pkg)))"
proof -
  have "record_range off (unat n) rsize = Ok (unat off, unat off + unat n * rsize)"
    using assms by simp
  then show ?thesis using assms by (simp add: record_section_def slice_get_def del: record_range_eq_Ok)
qed

lemma byte_section_eq_Ok:
  assumes "unat off + unat n \<le> length (pkg_bytes pkg)"
    and "length (pkg_bytes pkg) \<le> USIZE_MAX"
  shows "byte_section pkg off n = Ok (take (unat n) (drop (unat off) (pkg_bytes pkg)))"
proof -
  have "byte_range off n = Ok (unat off, unat off + unat n)"
    using assms by simp
  then show ?thesis using assms by (simp add: byte_section_def slice_get_def del: byte_range_eq_Ok)
qed

text \<open>The sizes of the tables a consumer sees, as the header announces them.\<close>

definition table_sizes :: "tig_graph \<Rightarrow> bool" where
  "table_sizes g \<longleftrightarrow>
     length (types g) = unat (hdr_type_count (header g)) \<and>
     length (blocks g) = unat (hdr_block_count (header g)) \<and>
     length (nodes g) = unat (hdr_node_count (header g)) \<and>
     length (g_imports g) = unat (hdr_import_count (header g)) \<and>
     length (constant_pool g) = unat (hdr_constant_pool_len (header g)) \<and>
     length (string_table g) = unat (hdr_string_table_len (header g))"

definition graph_within_limits :: "tig_graph \<Rightarrow> bool" where
  "graph_within_limits g \<longleftrightarrow>
     length (types g) \<le> MAX_RUNTIME_VALUES \<and> length (blocks g) \<le> MAX_BLOCKS \<and>
     length (nodes g) \<le> MAX_GRAPH_NODES \<and> length (g_imports g) \<le> MAX_CAPABILITY_IMPORTS \<and>
     length (constant_pool g) \<le> MAX_CONSTANT_POOL_BYTES \<and>
     length (string_table g) \<le> MAX_STRING_TABLE_BYTES"

lemma table_lengths:
  assumes "length bs \<le> USIZE_MAX"
  shows "length (type_records bs) = length bs div TYPE_RECORD_SIZE"
    and "length (block_records bs) = length bs div BLOCK_RECORD_SIZE"
    and "length (node_records bs) = length bs div NODE_RECORD_SIZE"
    and "length (import_records bs) = length bs div CAPABILITY_IMPORT_RECORD_SIZE"
  using assms
  by (simp_all add: type_records_def block_records_def node_records_def import_records_def
      type_table.iter_length block_table.iter_length node_table.iter_length
      import_table.iter_length)

lemma sections_tile_bounds:
  assumes "sections_tile bytes h"
  shows "unat (hdr_types_offset h) + unat (hdr_type_count h) * TYPE_RECORD_SIZE \<le> length bytes"
    and "unat (hdr_blocks_offset h) + unat (hdr_block_count h) * BLOCK_RECORD_SIZE \<le> length bytes"
    and "unat (hdr_nodes_offset h) + unat (hdr_node_count h) * NODE_RECORD_SIZE \<le> length bytes"
    and "unat (hdr_imports_offset h) + unat (hdr_import_count h) * CAPABILITY_IMPORT_RECORD_SIZE
           \<le> length bytes"
    and "unat (hdr_constant_pool_offset h) + unat (hdr_constant_pool_len h) \<le> length bytes"
    and "unat (hdr_string_table_offset h) + unat (hdr_string_table_len h) \<le> length bytes"
  using assms unfolding sections_tile_def by linarith+

lemma package_graph_of_decoded:
  assumes "decode bytes = Ok pkg"
  obtains g where "package_graph pkg = (Ok g :: ('e, tig_graph) result)"
    and "header g = pkg_header pkg" and "table_sizes g" and "graph_within_limits g"
proof -
  note D = decode_eq_OkD [OF assms]
  let ?h = "pkg_header pkg"
  let ?sec = "\<lambda>off n. take n (drop (unat off) bytes)"
  have len: "length bytes \<le> USIZE_MAX"
    using D(2) by (simp add: MAX_PACKAGE_BYTES_def USIZE_MAX_def)
  let ?g = "\<lparr>header = ?h,
      types = type_records (?sec (hdr_types_offset ?h) (unat (hdr_type_count ?h) * TYPE_RECORD_SIZE)),
      blocks = block_records
        (?sec (hdr_blocks_offset ?h) (unat (hdr_block_count ?h) * BLOCK_RECORD_SIZE)),
      nodes = node_records (?sec (hdr_nodes_offset ?h) (unat (hdr_node_count ?h) * NODE_RECORD_SIZE)),
      g_imports = import_records (?sec (hdr_imports_offset ?h)
        (unat (hdr_import_count ?h) * CAPABILITY_IMPORT_RECORD_SIZE)),
      constant_pool = ?sec (hdr_constant_pool_offset ?h) (unat (hdr_constant_pool_len ?h)),
      string_table = ?sec (hdr_string_table_offset ?h) (unat (hdr_string_table_len ?h))\<rparr>"
  note B = sections_tile_bounds [OF D(4)]
  have graph: "package_graph pkg = (Ok ?g :: ('e, tig_graph) result)"
    using B len D(1) by (simp add: package_graph_def Let_def record_section_eq_Ok byte_section_eq_Ok)
  have sec: "length (?sec off n) = n" if "unat off + n \<le> length bytes" for off :: u32 and n
    using that by simp
  have "table_sizes ?g"
    using B len unfolding table_sizes_def
    by (simp add: table_lengths sec del: length_take length_drop)
  moreover have "graph_within_limits ?g"
    using \<open>table_sizes ?g\<close> D(3) by (simp add: table_sizes_def graph_within_limits_def within_limits_def)
  ultimately show thesis using graph by (intro that [of ?g]) simp_all
qed

end
