(* ===== verification/Tig_Verify.thy ===== *)
theory Tig_Verify
  imports Tig_Format
begin

text \<open>
  The admission verifier of \<open>shared/src/pyth_tig/verify.rs\<close>: every pass in the order of
  \<open>verify_package\<close>, with each early return, each \<open>expect\<close>, each array bound and each shift of the
  source as an outcome of the model. Only definitions stand here; the theories
  \<open>Tig_Blocks\<close>, \<open>Tig_Dominators\<close> and \<open>Tig_Semantics\<close> hold what the passes establish.
\<close>

section \<open>Errors\<close>

datatype VerifyError =
    Decode PackageDecodeError
  | UnknownType u16
  | UnknownOpcode u16
  | InvalidBlockRange u32
  | MissingTerminator u32
  | MultipleTerminators u32
  | InvalidControlTarget u32 u32
  | BlockArgumentCountMismatch u32 u32
  | ValueNotAvailable u32 u8
  | ResultTypeForbidden u32
  | TypeMismatch u32 u8 PythType PythType
  | EffectInputMissing u32
  | EffectFork u32
  | EffectChainDisconnected u32
  | CapabilityOriginInvalid u32
  | CapabilityImportMissing u32 u16
  | ImportTypeMismatch u16
  | ImportRightsInsufficient u32 u16
  | HostResultInvalid u32
  | ResourceBudgetExceeded
  | NonCanonicalEncoding
  | VerifyChecksumMismatch

section \<open>Small helpers\<close>

definition is_terminator :: "Opcode \<Rightarrow> bool" where
  "is_terminator opcode \<longleftrightarrow> opcode = Jump \<or> opcode = Branch \<or> opcode = Return"

text \<open>\<open>1u128 << block\<close> panics on a shift by 128 or more.\<close>

definition block_bit :: "usize \<Rightarrow> ('e, u128) result" where
  "block_bit block = (if block < 128 then Ok (push_bit block 1) else Panic)"

definition node_inputs :: "NodeRecord \<Rightarrow> u32 list" where
  "node_inputs node = [nd_input0 node, nd_input1 node, nd_input2 node, nd_input3 node]"

definition count_values :: "u32 list \<Rightarrow> usize" where
  "count_values inputs = length (filter (\<lambda>input. input \<noteq> NO_VALUE) inputs)"

definition expect_opcode :: "NodeRecord \<Rightarrow> (VerifyError, Opcode) result" where
  "expect_opcode node = expectR (opcode_try_from (nd_opcode node))"

definition expect_type :: "NodeRecord \<Rightarrow> (VerifyError, PythType) result" where
  "expect_type node = expectR (type_try_from (nd_result_type node))"

definition u32_of :: "usize \<Rightarrow> u32" where
  "u32_of n = word_of_nat n"

definition u8_of :: "usize \<Rightarrow> u8" where
  "u8_of n = word_of_nat n"

section \<open>Known types and opcodes\<close>

definition verify_known_types :: "tig_graph \<Rightarrow> (VerifyError, unit) result" where
  "verify_known_types g =
     bindR (for_each (\<lambda>ty. bindR (ok_or (type_try_from (ty_kind ty)) (UnknownType (ty_kind ty)))
                            (\<lambda>_. Ok ())) (types g)) (\<lambda>_.
     for_each (\<lambda>node. bindR (ok_or (type_try_from (nd_result_type node))
                               (UnknownType (nd_result_type node))) (\<lambda>_. Ok ())) (nodes g))"

definition verify_known_opcodes :: "tig_graph \<Rightarrow> (VerifyError, unit) result" where
  "verify_known_opcodes g =
     for_each (\<lambda>node. bindR (ok_or (opcode_try_from (nd_opcode node))
                               (UnknownOpcode (nd_opcode node))) (\<lambda>_. Ok ())) (nodes g)"

section \<open>Block ranges\<close>

record block_tables =
  bt_starts :: "usize array"
  bt_ends :: "usize array"
  bt_node_blocks :: "usize array"

text \<open>
  One node of a block: it must not be claimed yet, must exist, must name this block, and may be a
  terminator only in the last place. The state is the array \<open>node_blocks\<close> and the terminator
  count.
\<close>

definition claim_node ::
    "tig_graph \<Rightarrow> usize \<Rightarrow> BlockRecord \<Rightarrow> usize \<Rightarrow> usize array \<times> nat \<Rightarrow> usize \<Rightarrow>
     (VerifyError, usize array \<times> nat) result" where
  "claim_node g block_index block end' st node_index =
     (case st of (node_blocks, terminators) \<Rightarrow>
     bindR (ensure (node_blocks node_index = USIZE_MAX)
              (InvalidBlockRange (blk_block_id block))) (\<lambda>_.
     bindR (ok_or (list_get (nodes g) node_index) (InvalidBlockRange (blk_block_id block))) (\<lambda>node.
     bindR (ensure (unat (nd_block_index node) = block_index)
              (InvalidBlockRange (blk_block_id block))) (\<lambda>_.
     bindR (expect_opcode node) (\<lambda>opcode.
     if is_terminator opcode then
       bindR (ensure (node_index + 1 = end') (MultipleTerminators (blk_block_id block))) (\<lambda>_.
       Ok (node_blocks(node_index := block_index), terminators + 1))
     else Ok (node_blocks(node_index := block_index), terminators))))))"

definition verify_block_range ::
    "tig_graph \<Rightarrow> block_tables \<Rightarrow> usize \<times> BlockRecord \<Rightarrow> (VerifyError, block_tables) result" where
  "verify_block_range g tb entry =
     (case entry of (block_index, block) \<Rightarrow>
     let first = unat (blk_first_node block); count = unat (blk_node_count block) in
     bindR (ok_or (checked_add_usize first count) (InvalidBlockRange (blk_block_id block))) (\<lambda>end'.
     bindR (ensure (\<not> (blk_block_id block \<noteq> u32_of block_index \<or> count = 0 \<or>
                         end' > length (nodes g)))
              (InvalidBlockRange (blk_block_id block))) (\<lambda>_.
     bindR (array_set MAX_BLOCKS (bt_starts tb) block_index first) (\<lambda>starts.
     bindR (array_set MAX_BLOCKS (bt_ends tb) block_index end') (\<lambda>ends.
     bindR (fold_res (claim_node g block_index block end') (bt_node_blocks tb, 0)
              [first..<min end' MAX_GRAPH_NODES]) (\<lambda>(nblocks, terminators).
     bindR (ensure (terminators \<noteq> 0) (MissingTerminator (blk_block_id block))) (\<lambda>_.
     bindR (ensure (\<not> terminators > 1) (MultipleTerminators (blk_block_id block))) (\<lambda>_.
     bindR (ensure (blk_terminator_node block = u32_of (end' - 1))
              (MissingTerminator (blk_block_id block))) (\<lambda>_.
     Ok \<lparr>bt_starts = starts, bt_ends = ends, bt_node_blocks = nblocks\<rparr>)))))))))"

definition verify_block_ranges :: "tig_graph \<Rightarrow> (VerifyError, block_tables) result" where
  "verify_block_ranges g =
     bindR (fold_res (verify_block_range g)
              \<lparr>bt_starts = (\<lambda>_. 0), bt_ends = (\<lambda>_. 0), bt_node_blocks = (\<lambda>_. USIZE_MAX)\<rparr>
              (enumerate 0 (blocks g))) (\<lambda>tb.
     bindR (for_each (\<lambda>node_index.
         if bt_node_blocks tb node_index = USIZE_MAX then
           bindR (ok_or (list_get (nodes g) node_index) (InvalidBlockRange 0)) (\<lambda>node.
           Err (InvalidBlockRange (ucast (nd_block_index node))))
         else Ok ()) [0..<min (length (nodes g)) MAX_GRAPH_NODES]) (\<lambda>_.
     Ok tb))"

section \<open>Control flow\<close>

definition validate_target :: "tig_graph \<Rightarrow> u32 \<Rightarrow> u32 \<Rightarrow> (VerifyError, unit) result" where
  "validate_target g source target =
     ensure (\<not> unat target \<ge> length (blocks g)) (InvalidControlTarget source target)"

definition validate_jump_arity ::
    "tig_graph \<Rightarrow> usize \<Rightarrow> NodeRecord \<Rightarrow> u32 \<Rightarrow> u32 \<Rightarrow> (VerifyError, unit) result" where
  "validate_jump_arity g terminator_index terminator source target =
     bindR (expectR (list_get (blocks g) (unat target))) (\<lambda>target_block.
     let inputs = node_inputs terminator; provided = count_values inputs in
     bindR (ensure (provided = unat (blk_parameter_count target_block))
              (BlockArgumentCountMismatch source target)) (\<lambda>_.
     for_each (\<lambda>(input_index, input).
       bindR (ensure (input \<noteq> NO_VALUE)
                (ValueNotAvailable (u32_of terminator_index) (u8_of input_index))) (\<lambda>_.
       bindR (ok_or (checked_add_usize (unat (blk_first_node target_block)) input_index)
                (InvalidBlockRange (blk_block_id target_block))) (\<lambda>parameter_index.
       bindR (ok_or (list_get (nodes g) parameter_index)
                (InvalidBlockRange (blk_block_id target_block))) (\<lambda>parameter.
       bindR (expect_opcode parameter) (\<lambda>opcode.
       bindR (ensure (opcode = BlockParam) (InvalidBlockRange (blk_block_id target_block))) (\<lambda>_.
       bindR (ok_or (list_get (nodes g) (unat input))
                (ValueNotAvailable (u32_of terminator_index) (u8_of input_index))) (\<lambda>producer.
       bindR (expect_type producer) (\<lambda>actual.
       bindR (expect_type parameter) (\<lambda>expected.
       ensure (actual = expected)
         (TypeMismatch (u32_of terminator_index) (u8_of input_index) expected actual)))))))))
       ) (take (unat (blk_parameter_count target_block)) (enumerate 0 inputs))))"

definition validate_branch_arity :: "tig_graph \<Rightarrow> u32 \<Rightarrow> u32 \<Rightarrow> (VerifyError, unit) result" where
  "validate_branch_arity g source target =
     bindR (expectR (list_get (blocks g) (unat target))) (\<lambda>target_block.
     ensure (blk_parameter_count target_block = 0) (BlockArgumentCountMismatch source target))"

definition verify_block_control ::
    "tig_graph \<Rightarrow> block_tables \<Rightarrow> usize \<Rightarrow> (VerifyError, unit) result" where
  "verify_block_control g tb block_index =
     bindR (expectR (list_get (blocks g) block_index)) (\<lambda>block.
     bindR (array_get MAX_BLOCKS (bt_ends tb) block_index) (\<lambda>end'.
     bindR (if end' = 0 then Panic else Ok (end' - 1)) (\<lambda>terminator_index.
     bindR (expectR (list_get (nodes g) terminator_index)) (\<lambda>terminator.
     bindR (expect_opcode terminator) (\<lambda>opcode.
     bindR (case opcode of
         Jump \<Rightarrow>
           bindR (validate_target g (blk_block_id block) (nd_auxiliary0 terminator)) (\<lambda>_.
           validate_jump_arity g terminator_index terminator (blk_block_id block)
             (nd_auxiliary0 terminator))
       | Branch \<Rightarrow>
           bindR (validate_target g (blk_block_id block) (nd_auxiliary0 terminator)) (\<lambda>_.
           bindR (validate_target g (blk_block_id block) (nd_auxiliary1 terminator)) (\<lambda>_.
           bindR (validate_branch_arity g (blk_block_id block) (nd_auxiliary0 terminator)) (\<lambda>_.
           validate_branch_arity g (blk_block_id block) (nd_auxiliary1 terminator))))
       | Return \<Rightarrow> Ok ()
       | _ \<Rightarrow> Err (MissingTerminator (blk_block_id block))) (\<lambda>_.
     bindR (array_get MAX_BLOCKS (bt_starts tb) block_index) (\<lambda>start.
     for_each (\<lambda>node_index.
       bindR (expectR (list_get (nodes g) node_index)) (\<lambda>node.
       bindR (expect_opcode node) (\<lambda>opcode.
       ensure (\<not> is_terminator opcode) (MultipleTerminators (blk_block_id block)))))
       [start..<terminator_index])))))))"

definition verify_control_flow :: "tig_graph \<Rightarrow> block_tables \<Rightarrow> (VerifyError, unit) result" where
  "verify_control_flow g tb = for_each (verify_block_control g tb) [0..<length (blocks g)]"

section \<open>Reachability\<close>

definition entry_index :: "tig_graph \<Rightarrow> (VerifyError, usize) result" where
  "entry_index g =
     (let entry = unat (hdr_entry_block (header g)) in
     bindR (ensure (\<not> entry \<ge> length (blocks g))
              (InvalidControlTarget (hdr_entry_block (header g)) (hdr_entry_block (header g)))) (\<lambda>_.
     Ok entry))"

text \<open>The node that a block's \<open>terminator_node\<close> field names, with its opcode.\<close>

definition block_terminator :: "tig_graph \<Rightarrow> usize \<Rightarrow> (VerifyError, NodeRecord \<times> Opcode) result" where
  "block_terminator g block_index =
     bindR (expectR (list_get (blocks g) block_index)) (\<lambda>block.
     bindR (ok_or (list_get (nodes g) (unat (blk_terminator_node block)))
              (InvalidBlockRange (blk_block_id block))) (\<lambda>terminator.
     bindR (expect_opcode terminator) (\<lambda>opcode. Ok (terminator, opcode))))"

definition trailing_zeros :: "u128 \<Rightarrow> usize" where
  "trailing_zeros w = length (takeWhile (\<lambda>i. \<not> bit w i) [0..<128])"

text \<open>One iteration of the worklist loop over \<open>(reachable, pending)\<close>.\<close>

definition reach_step :: "tig_graph \<Rightarrow> u128 \<times> u128 \<Rightarrow> (VerifyError, u128 \<times> u128) result" where
  "reach_step g st =
     (case st of (reachable, pending) \<Rightarrow>
     let block_index = trailing_zeros pending in
     bindR (block_bit block_index) (\<lambda>b.
     let pending = pending AND NOT b in
     if reachable AND b \<noteq> 0 then Ok (reachable, pending)
     else
       let reachable = reachable OR b in
       bindR (block_terminator g block_index) (\<lambda>(terminator, opcode).
       case opcode of
         Jump \<Rightarrow>
           bindR (block_bit (unat (nd_auxiliary0 terminator))) (\<lambda>t.
           Ok (reachable, pending OR t))
       | Branch \<Rightarrow>
           bindR (block_bit (unat (nd_auxiliary0 terminator))) (\<lambda>t.
           bindR (block_bit (unat (nd_auxiliary1 terminator))) (\<lambda>f.
           Ok (reachable, (pending OR t) OR f)))
       | _ \<Rightarrow> Ok (reachable, pending))))"

definition verify_reachable_blocks :: "tig_graph \<Rightarrow> (VerifyError, unit) result" where
  "verify_reachable_blocks g =
     bindR (entry_index g) (\<lambda>entry.
     bindR (block_bit entry) (\<lambda>start.
     bindR (while_res (\<lambda>(reachable, pending). pending \<noteq> 0) (reach_step g) (0, start)) (\<lambda>(reachable, _).
     for_each (\<lambda>block_index.
       bindR (block_bit block_index) (\<lambda>b.
       if reachable AND b = 0 then
         bindR (expectR (list_get (blocks g) block_index)) (\<lambda>block.
         Err (InvalidBlockRange (blk_block_id block)))
       else Ok ())) [0..<length (blocks g)])))"

section \<open>Dominators\<close>

definition add_predecessor :: "u128 array \<Rightarrow> usize \<Rightarrow> usize \<Rightarrow> (VerifyError, u128 array) result" where
  "add_predecessor predecessors target block_index =
     bindR (array_get MAX_BLOCKS predecessors target) (\<lambda>old.
     bindR (block_bit block_index) (\<lambda>b.
     array_set MAX_BLOCKS predecessors target (old OR b)))"

definition block_predecessors ::
    "tig_graph \<Rightarrow> u128 array \<Rightarrow> usize \<Rightarrow> (VerifyError, u128 array) result" where
  "block_predecessors g predecessors block_index =
     bindR (block_terminator g block_index) (\<lambda>(terminator, opcode).
     case opcode of
       Jump \<Rightarrow> add_predecessor predecessors (unat (nd_auxiliary0 terminator)) block_index
     | Branch \<Rightarrow>
         bindR (add_predecessor predecessors (unat (nd_auxiliary0 terminator)) block_index)
           (\<lambda>preds. add_predecessor preds (unat (nd_auxiliary1 terminator)) block_index)
     | _ \<Rightarrow> Ok predecessors)"

definition all_blocks_mask :: "usize \<Rightarrow> ('e, u128) result" where
  "all_blocks_mask block_count =
     (if block_count = 128 then Ok (- 1)
      else bindR (block_bit block_count) (\<lambda>b. Ok (b - 1)))"

text \<open>The intersection of the dominator sets of the predecessors of a block.\<close>

definition pred_intersection ::
    "u128 array \<Rightarrow> usize \<Rightarrow> u128 \<Rightarrow> u128 \<Rightarrow> (VerifyError, u128) result" where
  "pred_intersection dominators block_count all_blocks preds =
     fold_res (\<lambda>intersection pred.
       bindR (block_bit pred) (\<lambda>b.
       Ok (if preds AND b \<noteq> 0 then intersection AND dominators pred else intersection)))
       all_blocks [0..<min block_count MAX_BLOCKS]"

definition dominator_update ::
    "u128 array \<Rightarrow> usize \<Rightarrow> u128 \<Rightarrow> usize \<Rightarrow> u128 array \<times> bool \<Rightarrow> usize \<Rightarrow>
     (VerifyError, u128 array \<times> bool) result" where
  "dominator_update predecessors block_count all_blocks entry st block_index =
     (case st of (dominators, changed) \<Rightarrow>
     if block_index = entry then Ok (dominators, changed)
     else
       bindR (array_get MAX_BLOCKS predecessors block_index) (\<lambda>preds.
       bindR (pred_intersection dominators block_count all_blocks preds) (\<lambda>intersection.
       bindR (block_bit block_index) (\<lambda>b.
       let next' = b OR intersection in
       bindR (array_get MAX_BLOCKS dominators block_index) (\<lambda>old.
       if old \<noteq> next' then
         bindR (array_set MAX_BLOCKS dominators block_index next') (\<lambda>dominators. Ok (dominators, True))
       else Ok (dominators, changed))))))"

definition dominator_pass ::
    "u128 array \<Rightarrow> usize \<Rightarrow> u128 \<Rightarrow> usize \<Rightarrow> u128 array \<times> bool \<Rightarrow>
     (VerifyError, u128 array \<times> bool) result" where
  "dominator_pass predecessors block_count all_blocks entry st =
     fold_res (dominator_update predecessors block_count all_blocks entry) (fst st, False)
       [0..<block_count]"

definition initial_dominators ::
    "usize \<Rightarrow> u128 \<Rightarrow> usize \<Rightarrow> (VerifyError, u128 array) result" where
  "initial_dominators block_count all_blocks entry =
     fold_res (\<lambda>dominators block_index.
       if block_index = entry then
         bindR (block_bit block_index) (\<lambda>b. Ok (dominators(block_index := b)))
       else Ok (dominators(block_index := all_blocks)))
       (\<lambda>_. 0) [0..<min block_count MAX_BLOCKS]"

definition compute_dominators :: "tig_graph \<Rightarrow> (VerifyError, u128 array) result" where
  "compute_dominators g =
     (let block_count = length (blocks g) in
     bindR (entry_index g) (\<lambda>entry.
     bindR (fold_res (block_predecessors g) (\<lambda>_. 0) [0..<block_count]) (\<lambda>predecessors.
     bindR (all_blocks_mask block_count) (\<lambda>all_blocks.
     bindR (initial_dominators block_count all_blocks entry) (\<lambda>dominators.
     bindR (while_res snd (dominator_pass predecessors block_count all_blocks entry)
              (dominators, True)) (\<lambda>(dominators, _).
     Ok dominators))))))"

section \<open>Value availability\<close>

definition verify_input_available ::
    "tig_graph \<Rightarrow> usize array \<Rightarrow> u128 array \<Rightarrow> usize \<Rightarrow> usize \<times> u32 \<Rightarrow> (VerifyError, unit) result" where
  "verify_input_available g node_blocks dominators node_index entry =
     (case entry of (input_index, input) \<Rightarrow>
     let unavailable = ValueNotAvailable (u32_of node_index) (u8_of input_index) in
     if input = NO_VALUE then Ok ()
     else
       let producer_index = unat input in
       bindR (ensure (\<not> producer_index \<ge> length (nodes g)) unavailable) (\<lambda>_.
       bindR (array_get MAX_GRAPH_NODES node_blocks node_index) (\<lambda>consumer_block.
       bindR (array_get MAX_GRAPH_NODES node_blocks producer_index) (\<lambda>producer_block.
       bindR (ensure (\<not> (consumer_block = USIZE_MAX \<or> producer_block = USIZE_MAX)) unavailable) (\<lambda>_.
       bindR (if producer_block = consumer_block then Ok (producer_index < node_index)
              else
                bindR (array_get MAX_BLOCKS dominators consumer_block) (\<lambda>doms.
                bindR (block_bit producer_block) (\<lambda>b.
                Ok (doms AND b \<noteq> 0)))) (\<lambda>available.
       ensure available unavailable))))))"

definition verify_value_availability ::
    "tig_graph \<Rightarrow> usize array \<Rightarrow> (VerifyError, unit) result" where
  "verify_value_availability g node_blocks =
     bindR (compute_dominators g) (\<lambda>dominators.
     for_each (\<lambda>(node_index, node).
       for_each (verify_input_available g node_blocks dominators node_index)
         (enumerate 0 (node_inputs node))) (enumerate 0 (nodes g)))"

section \<open>Host results\<close>

definition HOST_RESULT_STATUS :: u32 where "HOST_RESULT_STATUS = 0"
definition HOST_RESULT_OBJECT_ID :: u32 where "HOST_RESULT_OBJECT_ID = 1"
definition HOST_RESULT_REVISION :: u32 where "HOST_RESULT_REVISION = 2"
definition HOST_RESULT_CAPABILITY :: u32 where "HOST_RESULT_CAPABILITY = 3"
definition HOST_RESULT_UTF8 :: u32 where "HOST_RESULT_UTF8 = 4"

definition TASK_CONTEXT_RESULT_ACTIVE_TASK_ID :: u32 where "TASK_CONTEXT_RESULT_ACTIVE_TASK_ID = 0"
definition TASK_CONTEXT_RESULT_CANDIDATE_TASK_ID :: u32 where
  "TASK_CONTEXT_RESULT_CANDIDATE_TASK_ID = 1"
definition TASK_CONTEXT_RESULT_CONFIDENCE_SCORE :: u32 where
  "TASK_CONTEXT_RESULT_CONFIDENCE_SCORE = 2"
definition TASK_CONTEXT_RESULT_PROPOSAL_KIND :: u32 where "TASK_CONTEXT_RESULT_PROPOSAL_KIND = 3"
definition TASK_CONTEXT_RESULT_REASON_UTF8 :: u32 where "TASK_CONTEXT_RESULT_REASON_UTF8 = 4"

definition COMMAND_FIELD_KIND :: u32 where "COMMAND_FIELD_KIND = 0"
definition COMMAND_FIELD_OBJECT_ID :: u32 where "COMMAND_FIELD_OBJECT_ID = 1"
definition COMMAND_FIELD_TASK_ID :: u32 where "COMMAND_FIELD_TASK_ID = 2"
definition COMMAND_FIELD_PROPOSAL_ID :: u32 where "COMMAND_FIELD_PROPOSAL_ID = 3"
definition COMMAND_FIELD_TEXT_UTF8 :: u32 where "COMMAND_FIELD_TEXT_UTF8 = 4"

lemmas field_defs =
  HOST_RESULT_STATUS_def HOST_RESULT_OBJECT_ID_def HOST_RESULT_REVISION_def
  HOST_RESULT_CAPABILITY_def HOST_RESULT_UTF8_def TASK_CONTEXT_RESULT_ACTIVE_TASK_ID_def
  TASK_CONTEXT_RESULT_CANDIDATE_TASK_ID_def TASK_CONTEXT_RESULT_CONFIDENCE_SCORE_def
  TASK_CONTEXT_RESULT_PROPOSAL_KIND_def TASK_CONTEXT_RESULT_REASON_UTF8_def
  COMMAND_FIELD_KIND_def COMMAND_FIELD_OBJECT_ID_def COMMAND_FIELD_TASK_ID_def
  COMMAND_FIELD_PROPOSAL_ID_def COMMAND_FIELD_TEXT_UTF8_def

datatype CapabilityOrigin =
    NoOrigin | ImportOrigin u16 | HostResultOrigin u16 u64

record HostResultSchema =
  hrs_result_type :: PythType
  hrs_capability_origin :: "CapabilityOrigin option"

definition host_result_field_type :: "Opcode \<Rightarrow> u32 \<Rightarrow> PythType option" where
  "host_result_field_type producer_opcode field =
     (if producer_opcode \<in> {ObjectCreate, ObjectQuery, ObjectInspect, ObjectRevise, ObjectHistory}
           \<and> field = HOST_RESULT_STATUS then Some ErrorCode
      else if producer_opcode \<in> {ObjectCreate, ObjectQuery, ObjectInspect, ObjectRevise, ObjectHistory}
           \<and> field = HOST_RESULT_OBJECT_ID then Some ObjectId
      else if producer_opcode \<in> {ObjectCreate, ObjectInspect, ObjectRevise, ObjectHistory}
           \<and> field = HOST_RESULT_REVISION then Some RevisionId
      else if producer_opcode \<in> {ObjectCreate, ObjectQuery} \<and> field = HOST_RESULT_CAPABILITY
        then Some Capability
      else if producer_opcode = ObjectInspect \<and> field = HOST_RESULT_UTF8 then Some Utf8
      else if producer_opcode = TaskContextRead then
        (if field = TASK_CONTEXT_RESULT_ACTIVE_TASK_ID then Some TaskId
         else if field = TASK_CONTEXT_RESULT_CANDIDATE_TASK_ID then Some TaskId
         else if field = TASK_CONTEXT_RESULT_CONFIDENCE_SCORE then Some U64
         else if field = TASK_CONTEXT_RESULT_PROPOSAL_KIND then Some U64
         else if field = TASK_CONTEXT_RESULT_REASON_UTF8 then Some Utf8
         else None)
      else if producer_opcode = CommandRead then
        (if field = COMMAND_FIELD_KIND then Some U64
         else if field = COMMAND_FIELD_OBJECT_ID then Some ObjectId
         else if field = COMMAND_FIELD_TASK_ID then Some TaskId
         else if field = COMMAND_FIELD_PROPOSAL_ID then Some ProposalId
         else if field = COMMAND_FIELD_TEXT_UTF8 then Some Utf8
         else None)
      else None)"

definition host_result_field_schema :: "Opcode \<Rightarrow> u32 \<Rightarrow> HostResultSchema option" where
  "host_result_field_schema producer_opcode field =
     (case host_result_field_type producer_opcode field of
        None \<Rightarrow> None
      | Some result_type \<Rightarrow>
          Some \<lparr>hrs_result_type = result_type,
                hrs_capability_origin =
                  (if result_type = Capability
                   then Some (HostResultOrigin RESOURCE_OBJECT (RIGHTS_READ OR RIGHTS_REVISE))
                   else None)\<rparr>)"

text \<open>Between the producer and the projection stand only projections of the same producer.\<close>

fun projection_run :: "tig_graph \<Rightarrow> u32 \<Rightarrow> usize list \<Rightarrow> bool" where
  "projection_run g producer_ref [] = True"
| "projection_run g producer_ref (index # rest) =
     (case list_get (nodes g) index of
        None \<Rightarrow> False
      | Some projector \<Rightarrow>
          if opcode_try_from (nd_opcode projector) \<noteq> Some HostResult
             \<or> nd_input0 projector \<noteq> producer_ref then False
          else projection_run g producer_ref rest)"

definition host_result_is_in_contiguous_projection_run :: "tig_graph \<Rightarrow> usize \<Rightarrow> usize \<Rightarrow> bool" where
  "host_result_is_in_contiguous_projection_run g producer_index node_index =
     (if producer_index \<ge> node_index then False
      else if producer_index \<ge> 2 ^ 32 then False
      else projection_run g (u32_of producer_index) [producer_index + 1..<node_index])"

definition verify_host_result ::
    "tig_graph \<Rightarrow> usize \<Rightarrow> NodeRecord \<Rightarrow> PythType \<Rightarrow> (VerifyError, HostResultSchema) result" where
  "verify_host_result g node_index node actual_result =
     (let producer_index = unat (nd_input0 node); invalid = HostResultInvalid (u32_of node_index) in
     bindR (ensure (host_result_is_in_contiguous_projection_run g producer_index node_index) invalid) (\<lambda>_.
     bindR (ok_or (list_get (nodes g) producer_index) invalid) (\<lambda>producer.
     bindR (ok_or (opcode_try_from (nd_opcode producer)) invalid) (\<lambda>producer_opcode.
     bindR (ensure (\<not> (\<not> sig_effectful (signature producer_opcode) \<or> nd_input1 node \<noteq> NO_VALUE
                         \<or> nd_input2 node \<noteq> NO_VALUE \<or> nd_input3 node \<noteq> NO_VALUE)) invalid) (\<lambda>_.
     bindR (ok_or (host_result_field_schema producer_opcode (nd_auxiliary0 node)) invalid) (\<lambda>schema.
     bindR (ensure (hrs_result_type schema = actual_result) invalid) (\<lambda>_.
     Ok schema)))))))"

section \<open>Signatures, imports and capability origins\<close>

definition opcode_accepts_result :: "Opcode \<Rightarrow> PythType \<Rightarrow> PythType \<Rightarrow> bool" where
  "opcode_accepts_result opcode actual expected =
     (if actual = expected then True
      else (opcode = ConstU64 \<and> actual \<in> {ObjectId, RevisionId, TaskId, ProposalId, ErrorCode})
           \<or> opcode = BlockParam)"

definition verify_opcode_signature ::
    "tig_graph \<Rightarrow> usize \<Rightarrow> NodeRecord \<Rightarrow> PythType array \<Rightarrow> (VerifyError, unit) result" where
  "verify_opcode_signature g node_index node result_types =
     bindR (expect_opcode node) (\<lambda>opcode.
     let sgn = signature opcode; n = u32_of node_index in
     bindR (array_get MAX_GRAPH_NODES result_types node_index) (\<lambda>actual_result.
     bindR (ensure (opcode_accepts_result opcode actual_result (sig_result sgn))
              (ResultTypeForbidden n)) (\<lambda>_.
     bindR (for_each (\<lambda>((input_index, input), expected).
         if input = NO_VALUE then
           Err (if expected = Effect then EffectInputMissing n
                else ValueNotAvailable n (u8_of input_index))
         else
           bindR (ensure (\<not> unat input \<ge> length (nodes g))
                    (ValueNotAvailable n (u8_of input_index))) (\<lambda>_.
           bindR (array_get MAX_GRAPH_NODES result_types (unat input)) (\<lambda>actual.
           ensure (actual = expected) (TypeMismatch n (u8_of input_index) expected actual))))
         (zip (enumerate 0 (node_inputs node)) (sig_inputs sgn))) (\<lambda>_.
     for_each (\<lambda>(input_index, input).
         ensure (input = NO_VALUE) (ValueNotAvailable n (u8_of input_index)))
         (drop (length (sig_inputs sgn)) (enumerate 0 (node_inputs node)))))))"

definition find_import :: "tig_graph \<Rightarrow> u16 \<Rightarrow> CapabilityImportRecord option" where
  "find_import g import_slot = List.find (\<lambda>imp. imp_import_slot imp = import_slot) (g_imports g)"

definition verify_import_block_param ::
    "tig_graph \<Rightarrow> usize \<Rightarrow> NodeRecord \<Rightarrow> (VerifyError, u16) result" where
  "verify_import_block_param g node_index node =
     bindR (ensure (ucast (nd_block_index node) = hdr_entry_block (header g))
              (CapabilityOriginInvalid (u32_of node_index))) (\<lambda>_.
     bindR (ok_or (try_from_word (nd_auxiliary0 node))
              (CapabilityImportMissing (u32_of node_index) (- 1))) (\<lambda>import_slot.
     bindR (ok_or (find_import g import_slot)
              (CapabilityImportMissing (u32_of node_index) import_slot)) (\<lambda>imp.
     bindR (ensure (imp_expected_type imp = type_code Capability)
              (ImportTypeMismatch import_slot)) (\<lambda>_.
     Ok import_slot))))"

definition verify_host_import ::
    "tig_graph \<Rightarrow> u32 \<Rightarrow> NodeRecord \<Rightarrow> Opcode \<Rightarrow> PythType array \<Rightarrow> CapabilityOrigin array \<Rightarrow>
     (VerifyError, unit) result" where
  "verify_host_import g node_index node opcode result_types capability_origins =
     (let sgn = signature opcode in
     case sig_required_resource_kind sgn of
       None \<Rightarrow> Ok ()
     | Some required_resource_kind \<Rightarrow>
         let capability_input = nd_input1 node; capability_index = unat capability_input in
         bindR (array_get MAX_GRAPH_NODES result_types capability_index) (\<lambda>ty.
         bindR (ensure (ty = Capability) (TypeMismatch node_index 1 Capability ty)) (\<lambda>_.
         bindR (array_get MAX_GRAPH_NODES capability_origins capability_index) (\<lambda>origin.
         case origin of
           ImportOrigin import_slot \<Rightarrow>
             bindR (ok_or (find_import g import_slot)
                      (CapabilityImportMissing node_index import_slot)) (\<lambda>imp.
             bindR (ensure (imp_expected_type imp = type_code Capability)
                      (ImportTypeMismatch import_slot)) (\<lambda>_.
             ensure (\<not> (imp_resource_kind imp \<noteq> required_resource_kind
                         \<or> imp_rights imp AND sig_required_rights sgn \<noteq> sig_required_rights sgn))
               (ImportRightsInsufficient node_index import_slot)))
         | HostResultOrigin resource_kind rights \<Rightarrow>
             ensure (\<not> (resource_kind \<noteq> required_resource_kind
                         \<or> rights AND sig_required_rights sgn \<noteq> sig_required_rights sgn))
               (CapabilityOriginInvalid capability_input)
         | NoOrigin \<Rightarrow> Err (CapabilityOriginInvalid capability_input)))))"

definition verify_capability_inputs ::
    "usize \<Rightarrow> NodeRecord \<Rightarrow> PythType array \<Rightarrow> CapabilityOrigin array \<Rightarrow> (VerifyError, unit) result" where
  "verify_capability_inputs node_index node result_types capability_origins =
     for_each (\<lambda>input.
       if input = NO_VALUE then Ok ()
       else
         bindR (array_get MAX_GRAPH_NODES result_types (unat input)) (\<lambda>ty.
         if ty = Capability then
           bindR (array_get MAX_GRAPH_NODES capability_origins (unat input)) (\<lambda>origin.
           ensure (origin \<noteq> NoOrigin) (CapabilityOriginInvalid input))
         else Ok ())) (node_inputs node)"

section \<open>The semantic pass\<close>

record sem_state =
  ss_result_types :: "PythType array"
  ss_origins :: "CapabilityOrigin array"
  ss_consumers :: "u8 array"
  ss_effect_start :: "u32 option"
  ss_current_effect :: u32

definition saturating_add_u8 :: "u8 \<Rightarrow> u8 \<Rightarrow> u8" where
  "saturating_add_u8 a b = (if unat a + unat b < 256 then a + b else 255)"

text \<open>The \<open>match opcode\<close> of the pass: signature and capability origin of the node.\<close>

definition verify_node_signature ::
    "tig_graph \<Rightarrow> usize \<Rightarrow> NodeRecord \<Rightarrow> Opcode \<Rightarrow> PythType \<Rightarrow> sem_state \<Rightarrow>
     (VerifyError, sem_state) result" where
  "verify_node_signature g node_index node opcode actual_result st =
     (case opcode of
        BlockParam \<Rightarrow>
          bindR (verify_opcode_signature g node_index node (ss_result_types st)) (\<lambda>_.
          if actual_result = Capability then
            bindR (verify_import_block_param g node_index node) (\<lambda>import_slot.
            bindR (array_set MAX_GRAPH_NODES (ss_origins st) node_index (ImportOrigin import_slot))
              (\<lambda>origins. Ok (st\<lparr>ss_origins := origins\<rparr>)))
          else Ok st)
      | HostResult \<Rightarrow>
          bindR (verify_host_result g node_index node actual_result) (\<lambda>schema.
          if actual_result = Capability then
            bindR (ok_or (hrs_capability_origin schema) (HostResultInvalid (u32_of node_index))) (\<lambda>origin.
            bindR (array_set MAX_GRAPH_NODES (ss_origins st) node_index origin)
              (\<lambda>origins. Ok (st\<lparr>ss_origins := origins\<rparr>)))
          else Ok st)
      | Jump \<Rightarrow> Ok st
      | _ \<Rightarrow>
          bindR (verify_opcode_signature g node_index node (ss_result_types st)) (\<lambda>_. Ok st))"

text \<open>The effect chain: one start, and every host operation consumes the latest effect.\<close>

definition verify_node_effect ::
    "tig_graph \<Rightarrow> usize \<Rightarrow> NodeRecord \<Rightarrow> Opcode \<Rightarrow> PythType \<Rightarrow> sem_state \<Rightarrow>
     (VerifyError, sem_state) result" where
  "verify_node_effect g node_index node opcode actual_result st =
     (if opcode = EffectStart then
        bindR (ensure (\<not> (ss_effect_start st \<noteq> None \<or> actual_result \<noteq> Effect
                            \<or> count_values (node_inputs node) \<noteq> 0))
                 (EffectChainDisconnected (u32_of node_index))) (\<lambda>_.
        Ok (st\<lparr>ss_effect_start := Some (u32_of node_index),
               ss_current_effect := u32_of node_index\<rparr>))
      else if sig_effectful (signature opcode) then
        let producer = nd_input0 node in
        bindR (ensure (producer \<noteq> NO_VALUE) (EffectInputMissing (u32_of node_index))) (\<lambda>_.
        bindR (array_get MAX_GRAPH_NODES (ss_consumers st) (unat producer)) (\<lambda>old.
        bindR (array_set MAX_GRAPH_NODES (ss_consumers st) (unat producer) (saturating_add_u8 old 1))
          (\<lambda>consumers.
        bindR (ensure (\<not> consumers (unat producer) > 1) (EffectFork producer)) (\<lambda>_.
        bindR (ensure (producer = ss_current_effect st)
                 (EffectChainDisconnected (u32_of node_index))) (\<lambda>_.
        let st' = st\<lparr>ss_consumers := consumers, ss_current_effect := u32_of node_index\<rparr> in
        bindR (verify_host_import g (u32_of node_index) node opcode (ss_result_types st')
                 (ss_origins st')) (\<lambda>_.
        Ok st'))))))
      else Ok st)"

definition verify_semantics_node ::
    "tig_graph \<Rightarrow> sem_state \<Rightarrow> usize \<times> NodeRecord \<Rightarrow> (VerifyError, sem_state) result" where
  "verify_semantics_node g st entry =
     (case entry of (node_index, node) \<Rightarrow>
     bindR (expect_opcode node) (\<lambda>opcode.
     bindR (expect_type node) (\<lambda>actual_result.
     bindR (array_set MAX_GRAPH_NODES (ss_result_types st) node_index actual_result) (\<lambda>result_types.
     let st = st\<lparr>ss_result_types := result_types\<rparr> in
     bindR (ensure (\<not> (actual_result = Capability \<and> opcode \<noteq> BlockParam \<and> opcode \<noteq> HostResult))
              (CapabilityOriginInvalid (u32_of node_index))) (\<lambda>_.
     bindR (verify_node_signature g node_index node opcode actual_result st) (\<lambda>st.
     bindR (verify_node_effect g node_index node opcode actual_result st) (\<lambda>st.
     bindR (verify_capability_inputs node_index node (ss_result_types st) (ss_origins st)) (\<lambda>_.
     Ok st))))))))"

definition initial_sem_state :: sem_state where
  "initial_sem_state =
     \<lparr>ss_result_types = (\<lambda>_. Unit), ss_origins = (\<lambda>_. NoOrigin), ss_consumers = (\<lambda>_. 0),
      ss_effect_start = None, ss_current_effect = NO_VALUE\<rparr>"

definition verify_semantics :: "tig_graph \<Rightarrow> (VerifyError, unit) result" where
  "verify_semantics g =
     bindR (fold_res (verify_semantics_node g) initial_sem_state (enumerate 0 (nodes g)))
       (\<lambda>_. Ok ())"

section \<open>Referenced ranges and canonical encoding\<close>

definition referenced_bytes :: "u8 list \<Rightarrow> u32 \<Rightarrow> u32 \<Rightarrow> u8 list option" where
  "referenced_bytes bytes offset len =
     Option.bind (checked_add_word offset len) (\<lambda>end'.
     slice_get bytes (unat offset) (unat end'))"

definition verify_referenced_ranges :: "tig_graph \<Rightarrow> (VerifyError, unit) result" where
  "verify_referenced_ranges g =
     bindR (for_each (\<lambda>imp.
         bindR (ok_or (referenced_bytes (string_table g) (imp_name_offset imp)
                         (ucast (imp_name_len imp))) NonCanonicalEncoding) (\<lambda>name.
         ensure (utf8_valid name) NonCanonicalEncoding)) (g_imports g)) (\<lambda>_.
     for_each (\<lambda>node.
         bindR (expect_opcode node) (\<lambda>opcode.
         case opcode of
           ConstBytes \<Rightarrow>
             bindR (ok_or (referenced_bytes (constant_pool g) (nd_auxiliary0 node)
                             (nd_auxiliary1 node)) NonCanonicalEncoding) (\<lambda>_. Ok ())
         | ConstUtf8 \<Rightarrow>
             bindR (ok_or (referenced_bytes (string_table g) (nd_auxiliary0 node)
                             (nd_auxiliary1 node)) NonCanonicalEncoding) (\<lambda>text.
             ensure (utf8_valid text) NonCanonicalEncoding)
         | _ \<Rightarrow> Ok ())) (nodes g))"

definition node_fields_are_canonical :: "Opcode \<Rightarrow> NodeRecord \<Rightarrow> bool" where
  "node_fields_are_canonical opcode node =
     (let no_auxiliary = (nd_auxiliary0 node = 0 \<and> nd_auxiliary1 node = 0);
          no_immediate = (nd_immediate node = 0) in
     case opcode of
       BlockParam \<Rightarrow>
         nd_auxiliary1 node = 0 \<and> no_immediate
         \<and> (nd_result_type node = type_code Capability \<or> nd_auxiliary0 node = 0)
     | ConstBool \<Rightarrow> no_auxiliary \<and> (nd_immediate node = 0 \<or> nd_immediate node = 1)
     | ConstU64 \<Rightarrow> no_auxiliary
     | ConstI64 \<Rightarrow> no_auxiliary
     | ConstBytes \<Rightarrow> no_immediate
     | ConstUtf8 \<Rightarrow> no_immediate
     | EffectStart \<Rightarrow> no_auxiliary \<and> no_immediate
     | HostResult \<Rightarrow> nd_auxiliary1 node = 0 \<and> no_immediate
     | Jump \<Rightarrow> nd_auxiliary1 node = 0 \<and> no_immediate
     | Branch \<Rightarrow> no_immediate
     | Return \<Rightarrow> no_auxiliary \<and> no_immediate
     | _ \<Rightarrow> no_auxiliary \<and> no_immediate)"

definition verify_canonical_encoding :: "tig_graph \<Rightarrow> (VerifyError, unit) result" where
  "verify_canonical_encoding g =
     bindR (for_each (\<lambda>ty. ensure (\<not> (ty_flags ty \<noteq> 0 \<or> ty_auxiliary ty \<noteq> 0)) NonCanonicalEncoding)
              (types g)) (\<lambda>_.
     bindR (fold_res (\<lambda>expected_first_node block.
         bindR (ensure (\<not> (blk_flags block \<noteq> 0 \<or> blk_first_node block \<noteq> expected_first_node
                             \<or> blk_parameter_count block > 4)) NonCanonicalEncoding) (\<lambda>_.
         ok_or (checked_add_word expected_first_node (blk_node_count block)) NonCanonicalEncoding))
         0 (blocks g)) (\<lambda>_.
     bindR (for_each (\<lambda>node.
         bindR (expect_opcode node) (\<lambda>opcode.
         ensure (\<not> (nd_flags node \<noteq> 0 \<or> \<not> node_fields_are_canonical opcode node))
           NonCanonicalEncoding)) (nodes g)) (\<lambda>_.
     for_each (\<lambda>(index, imp).
         ensure (\<not> (unat (imp_import_slot imp) \<noteq> index
                     \<or> type_try_from (imp_expected_type imp) = None
                     \<or> \<not> (1 \<le> imp_resource_kind imp \<and> imp_resource_kind imp \<le> 6)
                     \<or> imp_rights imp AND NOT 0x007F \<noteq> 0)) NonCanonicalEncoding)
         (enumerate 0 (g_imports g)))))"

section \<open>The verifier\<close>

definition verify_package :: "tig_graph \<Rightarrow> (VerifyError, tig_graph) result" where
  "verify_package g =
     bindR (ensure (\<not> (length (blocks g) > MAX_BLOCKS \<or> length (nodes g) > MAX_GRAPH_NODES))
              ResourceBudgetExceeded) (\<lambda>_.
     bindR (verify_known_types g) (\<lambda>_.
     bindR (verify_known_opcodes g) (\<lambda>_.
     bindR (verify_block_ranges g) (\<lambda>tb.
     bindR (verify_control_flow g tb) (\<lambda>_.
     bindR (verify_reachable_blocks g) (\<lambda>_.
     bindR (verify_value_availability g (bt_node_blocks tb)) (\<lambda>_.
     bindR (verify_semantics g) (\<lambda>_.
     bindR (verify_referenced_ranges g) (\<lambda>_.
     bindR (verify_canonical_encoding g) (\<lambda>_.
     Ok g))))))))))"

definition verify_bytes :: "u8 list \<Rightarrow> (VerifyError, tig_graph) result" where
  "verify_bytes bytes =
     bindR (map_errR Decode (decode bytes)) (\<lambda>pkg.
     bindR (package_graph pkg) verify_package)"

end
