(* ===== verification/Tig_Blocks.thy ===== *)
theory Tig_Blocks
  imports Tig_Verify
begin

text \<open>
  What the structural passes of the verifier establish: every code is known, the blocks partition
  the nodes into contiguous ranges that end in their only terminator, and every control transfer
  names a block. Each pass is shown to end without a panic once the passes before it succeeded.
\<close>

lemma unat_u32_of: "n < 2 ^ 32 \<Longrightarrow> unat (u32_of n) = n"
  by (simp add: u32_of_def unat_of_nat)

section \<open>Known codes\<close>

definition node_op :: "tig_graph \<Rightarrow> usize \<Rightarrow> Opcode" where
  "node_op g i = the (opcode_try_from (nd_opcode (nodes g ! i)))"

definition node_ty :: "tig_graph \<Rightarrow> usize \<Rightarrow> PythType" where
  "node_ty g i = the (type_try_from (nd_result_type (nodes g ! i)))"

definition known_codes :: "tig_graph \<Rightarrow> bool" where
  "known_codes g \<longleftrightarrow>
     (\<forall>n\<in>set (nodes g). opcode_try_from (nd_opcode n) \<noteq> None \<and>
        type_try_from (nd_result_type n) \<noteq> None)"

lemma verify_known_codes:
  assumes "verify_known_types g = Ok u" and "verify_known_opcodes g = Ok v"
  shows "known_codes g"
  using assms by (auto simp: verify_known_types_def verify_known_opcodes_def known_codes_def)

lemma settled_known [simp, settled_intros]:
  "settled (verify_known_types g)" "settled (verify_known_opcodes g)"
  unfolding verify_known_types_def verify_known_opcodes_def
  by (intro settled_intros settled_simps)+

lemma known_codesD:
  assumes "known_codes g" and "i < length (nodes g)"
  shows "opcode_try_from (nd_opcode (nodes g ! i)) = Some (node_op g i)"
    and "type_try_from (nd_result_type (nodes g ! i)) = Some (node_ty g i)"
    and "expect_opcode (nodes g ! i) = Ok (node_op g i)"
    and "expect_type (nodes g ! i) = Ok (node_ty g i)"
  using assms
  by (auto simp: known_codes_def node_op_def node_ty_def expect_opcode_def expect_type_def
      dest!: nth_mem)

lemma settled_expect_codes:
  assumes "known_codes g" and "n \<in> set (nodes g)"
  shows "settled (expect_opcode n)" and "settled (expect_type n)"
  using assms by (auto simp: known_codes_def expect_opcode_def expect_type_def)

section \<open>Blocks partition the nodes\<close>

definition blk_start :: "tig_graph \<Rightarrow> usize \<Rightarrow> usize" where
  "blk_start g b = unat (blk_first_node (blocks g ! b))"

definition blk_end :: "tig_graph \<Rightarrow> usize \<Rightarrow> usize" where
  "blk_end g b = unat (blk_first_node (blocks g ! b)) + unat (blk_node_count (blocks g ! b))"

text \<open>Block \<open>b\<close> is well formed: a non-empty range of its own nodes, ending in its terminator.\<close>

definition block_wf :: "tig_graph \<Rightarrow> usize \<Rightarrow> bool" where
  "block_wf g b \<longleftrightarrow>
     blk_block_id (blocks g ! b) = u32_of b \<and> blk_start g b < blk_end g b \<and>
     blk_end g b \<le> length (nodes g) \<and>
     unat (blk_terminator_node (blocks g ! b)) = blk_end g b - 1 \<and>
     (\<forall>i. blk_start g b \<le> i \<and> i < blk_end g b \<longrightarrow>
        unat (nd_block_index (nodes g ! i)) = b \<and>
        (is_terminator (node_op g i) \<longleftrightarrow> i = blk_end g b - 1))"

definition tables_agree :: "tig_graph \<Rightarrow> block_tables \<Rightarrow> usize \<Rightarrow> bool" where
  "tables_agree g tb b \<longleftrightarrow>
     bt_starts tb b = blk_start g b \<and> bt_ends tb b = blk_end g b \<and>
     (\<forall>i. blk_start g b \<le> i \<and> i < blk_end g b \<longrightarrow> bt_node_blocks tb i = b)"

definition graph_bounds :: "tig_graph \<Rightarrow> bool" where
  "graph_bounds g \<longleftrightarrow> length (blocks g) \<le> MAX_BLOCKS \<and> length (nodes g) \<le> MAX_GRAPH_NODES"

definition blocks_wf :: "tig_graph \<Rightarrow> block_tables \<Rightarrow> bool" where
  "blocks_wf g tb \<longleftrightarrow>
     (\<forall>b < length (blocks g). block_wf g b \<and> tables_agree g tb b) \<and>
     (\<forall>i < length (nodes g). \<exists>b < length (blocks g).
        bt_node_blocks tb i = b \<and> blk_start g b \<le> i \<and> i < blk_end g b)"

text \<open>The loop over the nodes of one block.\<close>

lemma claim_node_eq_Ok:
  assumes "known_codes g"
  shows "claim_node g b block e (nb, t) i = Ok st \<longleftrightarrow>
     nb i = USIZE_MAX \<and> i < length (nodes g) \<and> unat (nd_block_index (nodes g ! i)) = b \<and>
     (is_terminator (node_op g i) \<longrightarrow> i + 1 = e) \<and>
     st = (nb(i := b), t + (if is_terminator (node_op g i) then 1 else 0))"
proof (cases "i < length (nodes g)")
  case True
  then show ?thesis using known_codesD(3) [OF assms True] by (auto simp: claim_node_def)
qed (auto simp: claim_node_def)

lemma settled_claim_node:
  assumes "known_codes g"
  shows "settled (claim_node g b block e st i)"
proof (cases st)
  case (Pair nb t)
  show ?thesis
    unfolding claim_node_def Pair prod.case
    by (intro settled_bindR) (auto intro!: settled_bindR settled_expect_codes(1) [OF assms])
qed

lemma claim_nodes:
  assumes "known_codes g" and "s \<le> e"
    and "fold_res (claim_node g b block e) (nb, 0) [s..<e] = Ok (nb', t)"
  shows "\<And>i. s \<le> i \<Longrightarrow> i < e \<Longrightarrow>
           nb i = USIZE_MAX \<and> nb' i = b \<and> unat (nd_block_index (nodes g ! i)) = b \<and>
           (is_terminator (node_op g i) \<longrightarrow> i + 1 = e)"
    and "\<And>i. \<not> (s \<le> i \<and> i < e) \<Longrightarrow> nb' i = nb i"
    and "t = card {i. s \<le> i \<and> i < e \<and> is_terminator (node_op g i)}"
proof -
  let ?T = "\<lambda>j. {i. s \<le> i \<and> i < j \<and> is_terminator (node_op g i)}"
  let ?P = "\<lambda>j (m, n). (\<forall>i. s \<le> i \<and> i < j \<longrightarrow>
           nb i = USIZE_MAX \<and> m i = b \<and> unat (nd_block_index (nodes g ! i)) = b \<and>
           (is_terminator (node_op g i) \<longrightarrow> i + 1 = e)) \<and>
         (\<forall>i. \<not> (s \<le> i \<and> i < j) \<longrightarrow> m i = nb i) \<and> n = card (?T j)"
  have "?P e (nb', t)"
  proof (rule fold_res_upt [OF assms(3), where P = ?P])
    show "?P s (nb, 0)" by auto
  next
    fix j st st'
    assume j: "s \<le> j" "j < e" and P: "?P j st" and step: "claim_node g b block e st j = Ok st'"
    obtain m n where st: "st = (m, n)" by (cases st)
    have *: "m j = USIZE_MAX" "unat (nd_block_index (nodes g ! j)) = b"
       "is_terminator (node_op g j) \<longrightarrow> j + 1 = e"
       "st' = (m(j := b), n + (if is_terminator (node_op g j) then 1 else 0))"
      using step by (auto simp: st claim_node_eq_Ok [OF assms(1)])
    have mj: "m j = nb j" using P by (auto simp: st)
    have "?T (Suc j) = (if is_terminator (node_op g j) then insert j (?T j) else ?T j)"
      using j by (auto simp: less_Suc_eq)
    moreover have "finite (?T j)" by simp
    ultimately have "card (?T (Suc j)) = card (?T j) + (if is_terminator (node_op g j) then 1 else 0)"
      by auto
    with P * mj j show "?P (Suc j) st'" by (auto simp: st less_Suc_eq)
  qed (use assms(2) in auto)
  then show "\<And>i. s \<le> i \<Longrightarrow> i < e \<Longrightarrow>
           nb i = USIZE_MAX \<and> nb' i = b \<and> unat (nd_block_index (nodes g ! i)) = b \<and>
           (is_terminator (node_op g i) \<longrightarrow> i + 1 = e)"
    and "\<And>i. \<not> (s \<le> i \<and> i < e) \<Longrightarrow> nb' i = nb i"
    and "t = card (?T e)"
    by auto
qed

text \<open>One block: the new tables describe it and keep what they said of the others.\<close>

definition claimed_only :: "tig_graph \<Rightarrow> block_tables \<Rightarrow> usize \<Rightarrow> bool" where
  "claimed_only g tb k \<longleftrightarrow>
     (\<forall>i. bt_node_blocks tb i \<noteq> USIZE_MAX \<longrightarrow>
        (\<exists>b < k. bt_node_blocks tb i = b \<and> blk_start g b \<le> i \<and> i < blk_end g b))"

lemma one_element:
  assumes "card {i. s \<le> i \<and> i < e \<and> P i} = 1" and "\<And>i. s \<le> i \<Longrightarrow> i < e \<Longrightarrow> P i \<Longrightarrow> i + 1 = (e::nat)"
    and "s \<le> i" and "i < e"
  shows "P i \<longleftrightarrow> i = e - 1"
proof -
  from assms(1) obtain j where j: "{i. s \<le> i \<and> i < e \<and> P i} = {j}"
    by (rule card_1_singletonE)
  then have mem: "x \<in> {i. s \<le> i \<and> i < e \<and> P i} \<longleftrightarrow> x = j" for x
    by simp
  have "j + 1 = e" using mem [of j] assms(2) [of j] by simp
  moreover have "P i \<longleftrightarrow> i = j" using mem [of i] assms(3,4) by simp
  ultimately show ?thesis by auto
qed

lemma verify_block_range_step:
  assumes known: "known_codes g" and bounds: "graph_bounds g" and k: "k < length (blocks g)"
    and inv: "\<forall>b < k. block_wf g b \<and> tables_agree g tb b" "claimed_only g tb k"
    and ok: "verify_block_range g tb (k, blocks g ! k) = Ok tb'"
  shows "\<forall>b < Suc k. block_wf g b \<and> tables_agree g tb' b" and "claimed_only g tb' (Suc k)"
proof -
  let ?bl = "blocks g ! k" and ?s = "blk_start g k" and ?e = "blk_end g k"
  from ok bounds obtain nb t where
    id: "blk_block_id ?bl = u32_of k" and ne: "?s < ?e" and le: "?e \<le> length (nodes g)"
    and fold: "fold_res (claim_node g k ?bl ?e) (bt_node_blocks tb, 0) [?s..<?e] = Ok (nb, t)"
    and t: "t = 1" and tmn: "blk_terminator_node ?bl = u32_of (?e - 1)"
    and tb': "tb' = \<lparr>bt_starts = (bt_starts tb)(k := ?s), bt_ends = (bt_ends tb)(k := ?e),
                 bt_node_blocks = nb\<rparr>"
    by (auto simp: verify_block_range_def Let_def blk_start_def blk_end_def graph_bounds_def
        min_absorb1)
  note C = claim_nodes [OF known less_imp_le [OF ne] fold]
  have kmax: "k \<noteq> USIZE_MAX"
    using k bounds by (simp add: graph_bounds_def MAX_BLOCKS_def USIZE_MAX_def)
  have "unat (u32_of (?e - 1)) = ?e - 1"
    using le bounds by (intro unat_u32_of) (auto simp: graph_bounds_def MAX_GRAPH_NODES_def)
  moreover have "is_terminator (node_op g i) \<longleftrightarrow> i = ?e - 1" if "?s \<le> i" "i < ?e" for i
  proof (rule one_element [OF _ _ that])
    show "card {i. ?s \<le> i \<and> i < ?e \<and> is_terminator (node_op g i)} = 1"
      using C(3) t by simp
  qed (use C(1) in blast)
  moreover have "unat (nd_block_index (nodes g ! i)) = k" if "?s \<le> i" "i < ?e" for i
    using C(1) that by simp
  ultimately have wf: "block_wf g k"
    using id ne le tmn unfolding block_wf_def by simp
  have fresh: "tables_agree g tb' k"
    using C(1) by (auto simp: tables_agree_def tb')
  have old: "tables_agree g tb' b" if "b < k" for b
  proof -
    have "nb i = b" if i: "blk_start g b \<le> i" "i < blk_end g b" for i
    proof -
      have "bt_node_blocks tb i = b"
        using inv(1) \<open>b < k\<close> i by (auto simp: tables_agree_def)
      moreover have "b \<noteq> USIZE_MAX"
        using \<open>b < k\<close> k bounds by (simp add: graph_bounds_def MAX_BLOCKS_def USIZE_MAX_def)
      ultimately have "\<not> (?s \<le> i \<and> i < ?e)" using C(1) by auto
      with C(2) \<open>bt_node_blocks tb i = b\<close> show ?thesis by simp
    qed
    with inv(1) that show ?thesis by (auto simp: tables_agree_def tb')
  qed
  show "\<forall>b < Suc k. block_wf g b \<and> tables_agree g tb' b"
    using inv(1) wf fresh old by (auto simp: less_Suc_eq)
  show "claimed_only g tb' (Suc k)"
    unfolding claimed_only_def tb' block_tables.simps
  proof (intro allI impI)
    fix i
    assume i: "nb i \<noteq> USIZE_MAX"
    show "\<exists>b<Suc k. nb i = b \<and> blk_start g b \<le> i \<and> i < blk_end g b"
    proof (cases "?s \<le> i \<and> i < ?e")
      case True
      with C(1) show ?thesis by auto
    next
      case False
      with C(2) i inv(2) show ?thesis by (fastforce simp: claimed_only_def less_Suc_eq)
    qed
  qed
qed

lemma verify_block_ranges_wf:
  assumes "known_codes g" and "graph_bounds g" and "verify_block_ranges g = Ok tb"
  shows "blocks_wf g tb"
proof -
  let ?init = "\<lparr>bt_starts = (\<lambda>_. 0), bt_ends = (\<lambda>_. 0), bt_node_blocks = (\<lambda>_. USIZE_MAX)\<rparr>"
  from assms(3) have fold: "fold_res (verify_block_range g) ?init (enumerate 0 (blocks g)) = Ok tb"
    and all: "\<And>i. i < min (length (nodes g)) MAX_GRAPH_NODES \<Longrightarrow> bt_node_blocks tb i \<noteq> USIZE_MAX"
    by (auto simp: verify_block_ranges_def split: if_splits)
  let ?P = "\<lambda>k tb. (\<forall>b < k. block_wf g b \<and> tables_agree g tb b) \<and> claimed_only g tb k"
  have "?P (length (blocks g)) tb"
  proof (rule fold_res_upt [where P = ?P])
    show "fold_res (\<lambda>t i. verify_block_range g t (i, blocks g ! i)) ?init
        [0..<length (blocks g)] = Ok tb"
      using fold by (simp add: fold_res_enumerate)
    show "?P 0 ?init" by (simp add: claimed_only_def)
    fix k t t'
    assume "k < length (blocks g)" "?P k t" "verify_block_range g t (k, blocks g ! k) = Ok t'"
    then show "?P (Suc k) t'"
      using verify_block_range_step [OF assms(1,2)] by blast
  qed simp
  moreover have "bt_node_blocks tb i \<noteq> USIZE_MAX" if "i < length (nodes g)" for i
    using that all assms(2) by (simp add: graph_bounds_def)
  ultimately show ?thesis
    unfolding blocks_wf_def claimed_only_def by blast
qed

lemma settled_verify_block_ranges:
  assumes "known_codes g" and "graph_bounds g"
  shows "settled (verify_block_ranges g)"
proof -
  have block: "settled (verify_block_range g tb (k, bl))" if "k < length (blocks g)" for tb k bl
  proof -
    have "settled (fold_res (claim_node g b bl e) st is)" for b e st "is"
      by (induction "is" arbitrary: st) (auto intro!: settled_bindR settled_claim_node assms(1))
    moreover have "k < MAX_BLOCKS"
      using that assms(2) by (simp add: graph_bounds_def)
    ultimately show ?thesis
      unfolding verify_block_range_def Let_def prod.case
      by (intro settled_bindR) (simp_all add: split_beta settled_bindR)
  qed
  have "settled (fold_res (verify_block_range g) st (enumerate 0 (blocks g)))" for st
    unfolding fold_res_enumerate
    by (rule settled_fold_res_upt [where P = "\<lambda>_ _. True"]) (auto intro: block)
  then show ?thesis
    unfolding verify_block_ranges_def by (intro settled_bindR settled_for_each) (simp_all add: settled_bindR)
qed

section \<open>Control transfers\<close>

text \<open>The successors of a block, read off its last node.\<close>

definition succs :: "tig_graph \<Rightarrow> usize \<Rightarrow> usize list" where
  "succs g b =
     (let i = blk_end g b - 1; n = nodes g ! i in
      case node_op g i of
        Jump \<Rightarrow> [unat (nd_auxiliary0 n)]
      | Branch \<Rightarrow> [unat (nd_auxiliary0 n), unat (nd_auxiliary1 n)]
      | _ \<Rightarrow> [])"

definition control_wf :: "tig_graph \<Rightarrow> bool" where
  "control_wf g \<longleftrightarrow>
     (\<forall>b < length (blocks g). node_op g (blk_end g b - 1) \<in> {Jump, Branch, Return} \<and>
        (\<forall>t \<in> set (succs g b). t < length (blocks g)))"

lemma blocks_wfD:
  assumes "blocks_wf g tb" and "b < length (blocks g)"
  shows "block_wf g b" and "tables_agree g tb b"
  using assms by (auto simp: blocks_wf_def)

lemma block_wf_last:
  assumes "block_wf g b"
  shows "0 < blk_end g b" and "blk_end g b - 1 < length (nodes g)" and "blk_start g b \<le> blk_end g b - 1"
  using assms by (auto simp: block_wf_def)

lemma block_terminator_eq:
  assumes "known_codes g" and "block_wf g b" and "b < length (blocks g)"
  shows "block_terminator g b = Ok (nodes g ! (blk_end g b - 1), node_op g (blk_end g b - 1))"
proof -
  have "unat (blk_terminator_node (blocks g ! b)) = blk_end g b - 1"
    using assms(2) by (simp add: block_wf_def)
  then show ?thesis
    using assms(3) block_wf_last(2) [OF assms(2)] known_codesD(3) [OF assms(1)]
    by (simp add: block_terminator_def)
qed

lemma settled_validate_arity:
  assumes "known_codes g" and "unat target < length (blocks g)"
  shows "settled (validate_jump_arity g i n source target)"
    and "settled (validate_branch_arity g source target)"
proof -
  have "settled (expect_opcode m)" "settled (expect_type m)" if "list_get (nodes g) j = Some m" for m j
    using settled_expect_codes [OF assms(1)] that by (auto split: if_splits)
  then show "settled (validate_jump_arity g i n source target)"
    unfolding validate_jump_arity_def Let_def using assms(2)
    by (auto simp: settled_bindR_iff intro!: settled_for_each)
  show "settled (validate_branch_arity g source target)"
    using assms(2) by (auto simp: validate_branch_arity_def settled_bindR_iff)
qed

lemma settled_verify_control_flow:
  assumes known: "known_codes g" and bounds: "graph_bounds g" and wf: "blocks_wf g tb"
  shows "settled (verify_control_flow g tb)"
proof -
  have "settled (verify_block_control g tb b)" if b: "b < length (blocks g)" for b
  proof -
    note bw = blocks_wfD [OF wf b] and last = block_wf_last [OF blocks_wfD(1) [OF wf b]]
    have small: "b < MAX_BLOCKS" using b bounds by (simp add: graph_bounds_def)
    have "settled (for_each (\<lambda>i. bindR (expectR (list_get (nodes g) i)) (\<lambda>node.
       bindR (expect_opcode node) (\<lambda>opcode.
       ensure (\<not> is_terminator opcode) (MultipleTerminators bid)))) [blk_start g b..<blk_end g b - 1])"
      for bid
      using last known_codesD(3) [OF known]
      by (intro settled_for_each) (auto simp: settled_bindR_iff)
    with bw(2) show ?thesis
      unfolding verify_block_control_def
      using b small last known_codesD(3) [OF known last(2)]
      by (auto simp: tables_agree_def validate_target_def split: Opcode.splits
          intro!: settled_bindR settled_validate_arity [OF known])
  qed
  then show ?thesis
    unfolding verify_control_flow_def by (intro settled_for_each) simp
qed

lemma verify_control_flow_wf:
  assumes known: "known_codes g" and bounds: "graph_bounds g" and wf: "blocks_wf g tb"
    and ok: "verify_control_flow g tb = Ok u"
  shows "control_wf g"
proof -
  have "node_op g (blk_end g b - 1) \<in> {Jump, Branch, Return} \<and> (\<forall>t \<in> set (succs g b). t < length (blocks g))"
    if b: "b < length (blocks g)" for b
  proof -
    note bw = blocks_wfD [OF wf b] and last = block_wf_last [OF blocks_wfD(1) [OF wf b]]
    have small: "b < MAX_BLOCKS" using b bounds by (simp add: graph_bounds_def)
    from ok b have "verify_block_control g tb b = Ok ()"
      by (auto simp: verify_control_flow_def)
    then show ?thesis
      using b small last known_codesD(3) [OF known last(2)] bw(2)
      by (cases "node_op g (blk_end g b - 1)")
        (auto simp: verify_block_control_def tables_agree_def validate_target_def succs_def Let_def)
  qed
  then show ?thesis by (simp add: control_wf_def)
qed

end
