(* ===== verification/Tig_Dominators.thy ===== *)
theory Tig_Dominators
  imports Tig_Blocks
begin

text \<open>
  The control-flow graph of a package: paths from the entry block, reachability and dominance, and
  the proof that the verifier's worklist loop decides reachability and that its iteration over
  block masks ends with exactly the dominator sets of the graph.
\<close>

section \<open>Paths, reachability, dominance\<close>

definition entry_of :: "tig_graph \<Rightarrow> usize" where
  "entry_of g = unat (hdr_entry_block (header g))"

definition cfg_edge :: "tig_graph \<Rightarrow> usize \<Rightarrow> usize \<Rightarrow> bool" where
  "cfg_edge g b t \<longleftrightarrow> b < length (blocks g) \<and> t \<in> set (succs g b)"

inductive cfg_path :: "tig_graph \<Rightarrow> usize list \<Rightarrow> bool" for g where
  path_entry: "cfg_path g [entry_of g]"
| path_edge: "cfg_path g p \<Longrightarrow> cfg_edge g (last p) t \<Longrightarrow> cfg_path g (p @ [t])"

definition reachable_block :: "tig_graph \<Rightarrow> usize \<Rightarrow> bool" where
  "reachable_block g b \<longleftrightarrow> (\<exists>p. cfg_path g p \<and> last p = b)"

definition dominates :: "tig_graph \<Rightarrow> usize \<Rightarrow> usize \<Rightarrow> bool" where
  "dominates g d b \<longleftrightarrow> (\<forall>p. cfg_path g p \<and> last p = b \<longrightarrow> d \<in> set p)"

text \<open>The facts about a graph that the passes before the reachability pass leave.\<close>

definition cfg_ok :: "tig_graph \<Rightarrow> bool" where
  "cfg_ok g \<longleftrightarrow> known_codes g \<and> graph_bounds g \<and> control_wf g \<and>
     (\<forall>b < length (blocks g). block_wf g b)"

lemma cfg_okI:
  "known_codes g \<Longrightarrow> graph_bounds g \<Longrightarrow> blocks_wf g tb \<Longrightarrow> control_wf g \<Longrightarrow> cfg_ok g"
  by (simp add: cfg_ok_def blocks_wf_def)

lemma cfg_ok_small: "cfg_ok g \<Longrightarrow> b < length (blocks g) \<Longrightarrow> b < 128"
  by (simp add: cfg_ok_def graph_bounds_def MAX_BLOCKS_def)

lemma cfg_ok_succs:
  assumes "cfg_ok g" and "b < length (blocks g)" and "t \<in> set (succs g b)"
  shows "t < length (blocks g)" and "t < 128"
proof -
  show "t < length (blocks g)" using assms by (simp add: cfg_ok_def control_wf_def)
  then show "t < 128" by (rule cfg_ok_small [OF assms(1)])
qed

lemma cfg_path_not_Nil: "cfg_path g p \<Longrightarrow> p \<noteq> []"
  by (induction rule: cfg_path.induct) auto

lemma cfg_path_blocks:
  assumes "cfg_ok g" and "entry_of g < length (blocks g)" and "cfg_path g p"
  shows "set p \<subseteq> {..<length (blocks g)}"
  using assms(3) by induction (use assms(1,2) cfg_ok_succs in \<open>auto simp: cfg_edge_def\<close>)

lemma reachable_entry: "reachable_block g (entry_of g)"
  unfolding reachable_block_def using path_entry by fastforce

lemma reachable_edge: "reachable_block g b \<Longrightarrow> cfg_edge g b t \<Longrightarrow> reachable_block g t"
  unfolding reachable_block_def using path_edge by fastforce

lemma reachable_induct [consumes 1, case_names entry edge]:
  assumes "reachable_block g b" and "P (entry_of g)"
    and "\<And>b t. P b \<Longrightarrow> cfg_edge g b t \<Longrightarrow> P t"
  shows "P b"
proof -
  have "cfg_path g p \<Longrightarrow> P (last p)" for p
    by (induction rule: cfg_path.induct) (use assms(2,3) in auto)
  with assms(1) show ?thesis by (auto simp: reachable_block_def)
qed

lemma entry_index_eq:
  "entry_index g = (if entry_of g < length (blocks g) then Ok (entry_of g)
     else Err (InvalidControlTarget (hdr_entry_block (header g)) (hdr_entry_block (header g))))"
  by (simp add: entry_index_def entry_of_def Let_def)

lemma block_bit_eq: "block_bit b = (if b < 128 then Ok (2 ^ b) else Panic)"
  by (simp add: block_bit_def push_bit_eq_mult)

lemma bits_of_power [simp]: "b < 128 \<Longrightarrow> bits_of (2 ^ b :: u128) = {b}"
  using bits_of_push_bit_1 [where 'w = 128, of b] by (simp add: push_bit_eq_mult)

lemma mask_test: "b < 128 \<Longrightarrow> (w AND 2 ^ b = (0 :: u128)) \<longleftrightarrow> b \<notin> bits_of w"
proof -
  assume "b < 128"
  then have "bits_of (w AND 2 ^ b) = bits_of w \<inter> {b}" by simp
  then show ?thesis by (simp add: bits_of_eq_empty [symmetric] del: bits_of_eq_empty) 
qed

section \<open>Reachability\<close>

lemma trailing_zeros_bit:
  assumes "w \<noteq> 0"
  shows "trailing_zeros w \<in> bits_of w" and "trailing_zeros w < 128"
proof -
  let ?P = "\<lambda>i. \<not> bit w i" and ?k = "trailing_zeros w"
  from assms obtain i where i: "i \<in> bits_of w" by fastforce
  then have "i < 128" using bits_of_bounded [of w] by auto
  with i have "\<exists>x\<in>set [0..<128]. \<not> ?P x" by (auto simp: bits_of_iff)
  then have "takeWhile ?P [0..<128] \<noteq> [0..<128]" by (metis set_takeWhileD)
  then have "?k \<noteq> length [0..<128]"
    using takeWhile_eq_take [of ?P "[0..<128]"] by (auto simp: trailing_zeros_def)
  then have "?k < length [0..<128]"
    using length_takeWhile_le [of ?P "[0..<128]"] by (simp add: trailing_zeros_def)
  then show "?k < 128" by simp
  have "\<not> ?P ([0..<128] ! ?k)"
    using \<open>?k < length [0..<128]\<close> unfolding trailing_zeros_def by (rule nth_length_takeWhile)
  with \<open>?k < 128\<close> show "?k \<in> bits_of w" by (simp add: bits_of_iff)
qed

lemma reach_step_eq:
  assumes ok: "cfg_ok g" and "p \<noteq> 0" and sub: "bits_of p \<subseteq> {..<length (blocks g)}"
  defines "b \<equiv> trailing_zeros p"
  shows "b \<in> bits_of p" and
    "\<exists>r' p'. reach_step g (r, p) = Ok (r', p') \<and>
       (if b \<in> bits_of r then r' = r \<and> bits_of p' = bits_of p - {b}
        else bits_of r' = insert b (bits_of r) \<and> bits_of p' = bits_of p - {b} \<union> set (succs g b))"
proof -
  from trailing_zeros_bit [OF assms(2)] have b: "b \<in> bits_of p" "b < 128" by (simp_all add: b_def)
  then show "b \<in> bits_of p" by simp
  from b sub have bl: "b < length (blocks g)" by auto
  with ok have tmn: "block_terminator g b = Ok (nodes g ! (blk_end g b - 1), node_op g (blk_end g b - 1))"
    by (intro block_terminator_eq) (simp_all add: cfg_ok_def)
  have op: "node_op g (blk_end g b - 1) \<in> {Jump, Branch, Return}"
    using ok bl by (simp add: cfg_ok_def control_wf_def)
  have t: "t < 128" if "t \<in> set (succs g b)" for t
    using cfg_ok_succs [OF ok bl that] by simp
  show "\<exists>r' p'. reach_step g (r, p) = Ok (r', p') \<and>
       (if b \<in> bits_of r then r' = r \<and> bits_of p' = bits_of p - {b}
        else bits_of r' = insert b (bits_of r) \<and> bits_of p' = bits_of p - {b} \<union> set (succs g b))"
    using op b(2) tmn t
    by (auto simp: reach_step_def Let_def b_def [symmetric] block_bit_eq mask_test succs_def
        simp del: bits_of_and)
qed

text \<open>
  The loop invariant: what is marked is reachable, and the successors of a marked block are marked
  or pending.
\<close>

definition reach_inv :: "tig_graph \<Rightarrow> u128 \<times> u128 \<Rightarrow> bool" where
  "reach_inv g st \<longleftrightarrow>
     (case st of (r, p) \<Rightarrow>
       bits_of r \<union> bits_of p \<subseteq> {b. b < length (blocks g) \<and> reachable_block g b} \<and>
       entry_of g \<in> bits_of r \<union> bits_of p \<and>
       (\<forall>b \<in> bits_of r. set (succs g b) \<subseteq> bits_of r \<union> bits_of p))"

lemma reach_loop_step:
  assumes ok: "cfg_ok g" and inv: "reach_inv g st" and pend: "snd st \<noteq> 0"
  defines "m \<equiv> \<lambda>(r, p). 129 * (128 - card (bits_of (r :: u128))) + card (bits_of (p :: u128))"
  shows "\<exists>st'. reach_step g st = Ok st' \<and> reach_inv g st' \<and> m st' < m st"
proof -
  obtain r p where st: "st = (r, p)" by (cases st)
  have sub: "bits_of p \<subseteq> {..<length (blocks g)}" using inv by (auto simp: st reach_inv_def)
  let ?b = "trailing_zeros p"
  from pend have "p \<noteq> 0" by (simp add: st)
  note b = reach_step_eq(1) [OF ok this sub]
  from reach_step_eq(2) [OF ok \<open>p \<noteq> 0\<close> sub, where r = r] obtain r' p' where
    st': "reach_step g st = Ok (r', p')" and
    step: "if ?b \<in> bits_of r then r' = r \<and> bits_of p' = bits_of p - {?b}
        else bits_of r' = insert ?b (bits_of r) \<and> bits_of p' = bits_of p - {?b} \<union> set (succs g ?b)"
    by (auto simp: st)
  have "?b < length (blocks g)" "reachable_block g ?b"
    using b inv by (auto simp: st reach_inv_def)
  then have "t < length (blocks g) \<and> reachable_block g t" if "t \<in> set (succs g ?b)" for t
    using that cfg_ok_succs [OF ok] reachable_edge by (auto simp: cfg_edge_def)
  with step inv b have "reach_inv g (r', p')"
    unfolding st reach_inv_def prod.case by (auto split: if_splits)
  moreover have le: "card (bits_of w) \<le> 128" for w :: u128
    using card_mono [OF _ bits_of_bounded [of w]] by simp
  have "m (r', p') < m st"
  proof (cases "?b \<in> bits_of r")
    case True
    with step b show ?thesis
      using card_Diff1_less [of "bits_of p" ?b] by (simp add: st m_def)
  next
    case False
    with step have "card (bits_of r') = Suc (card (bits_of r))" by simp
    with le [of r'] have "128 - card (bits_of r) = Suc (128 - card (bits_of r'))" by linarith
    with le [of p'] show ?thesis by (simp add: st m_def)
  qed
  ultimately show ?thesis using st' by blast
qed

lemma reach_loop_total:
  assumes "cfg_ok g" and "entry_of g < length (blocks g)"
  shows "\<exists>r p. while_res (\<lambda>(reachable, pending). pending \<noteq> 0) (reach_step g) (0, 2 ^ entry_of g)
      = Ok (r, p) \<and> bits_of r = {b. reachable_block g b}"
proof -
  let ?pend = "\<lambda>(reachable, pending). pending \<noteq> (0 :: u128)"
  have "entry_of g < 128" using cfg_ok_small assms(1,2) by simp
  then have "reach_inv g (0, 2 ^ entry_of g)"
    using assms(2) reachable_entry by (auto simp: reach_inv_def)
  moreover have "\<exists>st'. reach_step g st = Ok st' \<and> reach_inv g st' \<and>
      (\<lambda>(r, p). 129 * (128 - card (bits_of r)) + card (bits_of p)) st' <
      (\<lambda>(r, p). 129 * (128 - card (bits_of r)) + card (bits_of p)) st"
    if "reach_inv g st" "?pend st" for st
    using that by (intro reach_loop_step [OF assms(1)]) auto
  ultimately obtain st where "while_res ?pend (reach_step g) (0, 2 ^ entry_of g) = Ok st"
    "reach_inv g st" "\<not> ?pend st"
    using while_res_total [where P = "reach_inv g" and guard = ?pend] by blast
  then obtain r where st: "while_res ?pend (reach_step g) (0, 2 ^ entry_of g) = Ok (r, 0)"
    and inv: "reach_inv g (r, 0)" by (cases st) auto
  from inv have sub: "bits_of r \<subseteq> {b. b < length (blocks g) \<and> reachable_block g b}"
    and entry: "entry_of g \<in> bits_of r"
    and closed: "\<And>b. b \<in> bits_of r \<Longrightarrow> set (succs g b) \<subseteq> bits_of r"
    by (auto simp: reach_inv_def)
  have "b \<in> bits_of r" if "reachable_block g b" for b
    using that by (induction rule: reachable_induct) (use entry closed in \<open>auto simp: cfg_edge_def\<close>)
  with sub st show ?thesis by auto
qed

text \<open>The pass accepts exactly the graphs all of whose blocks are reachable.\<close>

lemma verify_reachable_blocks_iff:
  assumes "cfg_ok g"
  shows "verify_reachable_blocks g = Ok () \<longleftrightarrow>
    entry_of g < length (blocks g) \<and> (\<forall>b < length (blocks g). reachable_block g b)"
    and "settled (verify_reachable_blocks g)"
proof -
  have "(verify_reachable_blocks g = Ok () \<longleftrightarrow> (\<forall>b < length (blocks g). reachable_block g b)) \<and>
    settled (verify_reachable_blocks g)" if e: "entry_of g < length (blocks g)"
  proof -
    obtain r p where loop: "while_res (\<lambda>(reachable, pending). pending \<noteq> 0) (reach_step g)
        (0, 2 ^ entry_of g) = Ok (r, p)" and r: "bits_of r = {b. reachable_block g b}"
      using reach_loop_total [OF assms e] by blast
    have small: "b < 128" if "b < length (blocks g)" for b using cfg_ok_small [OF assms that] .
    show ?thesis
      using small r e unfolding verify_reachable_blocks_def entry_index_eq
      by (auto simp: block_bit_eq loop mask_test bindR_eq_Ok settled_bindR_iff
          intro!: settled_for_each split: if_splits)
  qed
  then show "verify_reachable_blocks g = Ok () \<longleftrightarrow>
      entry_of g < length (blocks g) \<and> (\<forall>b < length (blocks g). reachable_block g b)"
    and "settled (verify_reachable_blocks g)"
    by (cases "entry_of g < length (blocks g)"; auto simp: verify_reachable_blocks_def entry_index_eq)+
qed

section \<open>Dominators\<close>

definition dominator_set :: "tig_graph \<Rightarrow> usize \<Rightarrow> usize set" where
  "dominator_set g b = {d. d < length (blocks g) \<and> dominates g d b}"

text \<open>The right-hand side of the data-flow equation of block \<open>b\<close>.\<close>

definition dom_rhs :: "tig_graph \<Rightarrow> u128 array \<Rightarrow> usize \<Rightarrow> usize set" where
  "dom_rhs g D b =
     insert b {d. d < length (blocks g) \<and> (\<forall>p. cfg_edge g p b \<longrightarrow> d \<in> bits_of (D p))}"

lemma dominates_edge:
  assumes "dominates g d b" and "d \<noteq> b" and "cfg_edge g p b"
  shows "dominates g d p"
  unfolding dominates_def
proof (intro allI impI, elim conjE)
  fix q
  assume q: "cfg_path g q" "last q = p"
  with assms(3) have "cfg_path g (q @ [b])" by (auto intro: path_edge)
  with assms(1) have "d \<in> set (q @ [b])" unfolding dominates_def by (metis last_snoc)
  with assms(2) show "d \<in> set q" by simp
qed

lemma block_predecessors_total:
  assumes "cfg_ok g"
  shows "\<exists>P. fold_res (block_predecessors g) (\<lambda>_. 0) [0..<length (blocks g)] = Ok P \<and>
    (\<forall>t. bits_of (P t) = {b. cfg_edge g b t})"
proof -
  let ?I = "\<lambda>k (P :: u128 array). \<forall>t. bits_of (P t) = {b. b < k \<and> t \<in> set (succs g b)}"
  have "\<exists>P. fold_res (block_predecessors g) (\<lambda>_. 0) [0..<length (blocks g)] = Ok P \<and> ?I (length (blocks g)) P"
  proof (rule fold_res_upt_total [where P = ?I])
    fix k P
    assume k: "k < length (blocks g)" and P: "?I k P"
    have tmn: "block_terminator g k = Ok (nodes g ! (blk_end g k - 1), node_op g (blk_end g k - 1))"
      using assms k by (intro block_terminator_eq) (simp_all add: cfg_ok_def)
    have op: "node_op g (blk_end g k - 1) \<in> {Jump, Branch, Return}"
      using assms k by (simp add: cfg_ok_def control_wf_def)
    have t: "t < MAX_BLOCKS" if "t \<in> set (succs g k)" for t
      using cfg_ok_succs(2) [OF assms k that] by (simp add: MAX_BLOCKS_def)
    have "k < 128" using cfg_ok_small [OF assms k] .
    with op tmn t show "\<exists>P'. block_predecessors g P k = Ok P' \<and> ?I (Suc k) P'"
      by (auto simp: block_predecessors_def add_predecessor_def block_bit_eq succs_def Let_def P
          less_Suc_eq)
  qed auto
  then show ?thesis by (simp add: cfg_edge_def)
qed

lemma all_blocks_mask_total:
  assumes "n \<le> 128"
  shows "\<exists>m. all_blocks_mask n = Ok m \<and> bits_of m = {..<n}"
proof (cases "n = 128")
  case True
  then show ?thesis by (auto simp: all_blocks_mask_def bits_of_def)
next
  case False
  then show ?thesis
    using assms bits_of_mask [of n, where 'w = 128]
    by (simp add: all_blocks_mask_def block_bit_eq mask_eq_exp_minus_1)
qed

lemma pred_intersection_total:
  assumes "n \<le> 128"
  shows "\<exists>i. pred_intersection D n a preds = Ok i \<and>
    bits_of i = bits_of a \<inter> {d. \<forall>p < n. p \<in> bits_of preds \<longrightarrow> d \<in> bits_of (D p)}"
proof -
  have "min n MAX_BLOCKS = n" using assms by (simp add: MAX_BLOCKS_def)
  moreover have "\<exists>i. fold_res (\<lambda>intersection pred. bindR (block_bit pred) (\<lambda>b.
       Ok (if preds AND b \<noteq> 0 then intersection AND D pred else intersection))) a [0..<n] = Ok i \<and>
    bits_of i = bits_of a \<inter> {d. \<forall>p < n. p \<in> bits_of preds \<longrightarrow> d \<in> bits_of (D p)}"
    by (rule fold_res_upt_total) (use assms in \<open>auto simp: block_bit_eq mask_test less_Suc_eq\<close>)
  ultimately show ?thesis by (simp add: pred_intersection_def)
qed

text \<open>
  The invariant of the iteration: the masks over-approximate the dominators and shrink towards
  them, because each is a superset of the right-hand side of its equation.
\<close>

definition dom_inv :: "tig_graph \<Rightarrow> u128 array \<Rightarrow> bool" where
  "dom_inv g D \<longleftrightarrow>
     bits_of (D (entry_of g)) = {entry_of g} \<and>
     (\<forall>b < length (blocks g). dominator_set g b \<subseteq> bits_of (D b) \<and>
        bits_of (D b) \<subseteq> {..<length (blocks g)} \<and> (b \<noteq> entry_of g \<longrightarrow> dom_rhs g D b \<subseteq> bits_of (D b)))"

definition dom_weight :: "tig_graph \<Rightarrow> u128 array \<Rightarrow> nat" where
  "dom_weight g D = (\<Sum>b < length (blocks g). card (bits_of (D b)))"

lemma dom_rhs_mono:
  assumes "\<And>p. bits_of (D' p) \<subseteq> bits_of (D p)"
  shows "dom_rhs g D' b \<subseteq> dom_rhs g D b"
  using assms by (auto simp: dom_rhs_def)

lemma dom_inv_update:
  assumes inv: "dom_inv g D" and b: "b < length (blocks g)" "b \<noteq> entry_of g"
    and w: "bits_of w = dom_rhs g D b" and changed: "D b \<noteq> w"
  shows "dom_inv g (D(b := w))" and "dom_weight g (D(b := w)) < dom_weight g D"
proof -
  let ?D = "D(b := w)"
  have sub: "bits_of w \<subseteq> bits_of (D b)" using inv b by (simp add: dom_inv_def w)
  then have le: "bits_of (?D p) \<subseteq> bits_of (D p)" for p by simp
  have "dominator_set g b \<subseteq> bits_of w"
  proof
    fix d
    assume d: "d \<in> dominator_set g b"
    have "d \<in> bits_of (D p)" if "cfg_edge g p b" "d \<noteq> b" for p
    proof -
      have "d \<in> dominator_set g p" using d that dominates_edge by (auto simp: dominator_set_def)
      moreover have "p < length (blocks g)" using that by (simp add: cfg_edge_def)
      ultimately show ?thesis using inv by (auto simp: dom_inv_def)
    qed
    with d show "d \<in> bits_of w" by (auto simp: w dom_rhs_def dominator_set_def)
  qed
  moreover have "dom_rhs g ?D c \<subseteq> bits_of (?D c)" if "c < length (blocks g)" "c \<noteq> entry_of g" for c
    proof -
    have "dom_rhs g ?D c \<subseteq> dom_rhs g D c" by (rule dom_rhs_mono) (rule le)
    moreover have "dom_rhs g D c \<subseteq> bits_of (D c)" using inv that by (simp add: dom_inv_def)
    ultimately show ?thesis using w by (cases "c = b") simp_all
  qed
  moreover have "bits_of w \<subseteq> {..<length (blocks g)}"
    using b by (auto simp: w dom_rhs_def)
  ultimately show "dom_inv g ?D" using inv b(2) by (auto simp: dom_inv_def)
  have "bits_of w \<noteq> bits_of (D b)" using changed by (auto simp: bits_of_eq_iff)
  with sub have "card (bits_of w) < card (bits_of (D b))" by (intro psubset_card_mono) auto
  with b(1) show "dom_weight g ?D < dom_weight g D"
    unfolding dom_weight_def by (intro sum_strict_mono_ex1) auto
qed


text \<open>One update, one pass, and the whole iteration.\<close>

lemma dominator_update_total:
  assumes ok: "cfg_ok g" and preds: "\<And>t. bits_of (P t) = {b. cfg_edge g b t}"
    and all: "bits_of a = {..<length (blocks g)}" and b: "b < length (blocks g)"
  shows "\<exists>w. bits_of w = dom_rhs g D b \<and>
    dominator_update P (length (blocks g)) a (entry_of g) (D, c) b =
      Ok (if b = entry_of g \<or> D b = w then (D, c) else (D(b := w), True))"
proof -
  have n: "length (blocks g) \<le> 128" using ok by (simp add: cfg_ok_def graph_bounds_def MAX_BLOCKS_def)
  obtain i where i: "pred_intersection D (length (blocks g)) a (P b) = Ok i" and
    bits: "bits_of i = bits_of a \<inter> {d. \<forall>p < length (blocks g). p \<in> bits_of (P b) \<longrightarrow> d \<in> bits_of (D p)}"
    using pred_intersection_total [OF n] by blast
  have "b < 128" using cfg_ok_small [OF ok b] .
  then have "bits_of (2 ^ b OR i) = dom_rhs g D b"
    by (auto simp: bits all preds dom_rhs_def cfg_edge_def)
  moreover have "dominator_update P (length (blocks g)) a (entry_of g) (D, c) b =
      Ok (if b = entry_of g \<or> D b = 2 ^ b OR i then (D, c) else (D(b := 2 ^ b OR i), True))"
    using \<open>b < 128\<close> by (simp add: dominator_update_def i block_bit_eq Let_def MAX_BLOCKS_def)
  ultimately show ?thesis by blast
qed

definition dom_fixed :: "tig_graph \<Rightarrow> u128 array \<Rightarrow> usize \<Rightarrow> bool" where
  "dom_fixed g D k \<longleftrightarrow> (\<forall>b < k. b \<noteq> entry_of g \<longrightarrow> bits_of (D b) = dom_rhs g D b)"

lemma dominator_pass_total:
  assumes ok: "cfg_ok g" and preds: "\<And>t. bits_of (P t) = {b. cfg_edge g b t}"
    and all: "bits_of a = {..<length (blocks g)}" and inv: "dom_inv g D0"
  shows "\<exists>D c. dominator_pass P (length (blocks g)) a (entry_of g) (D0, c0) = Ok (D, c) \<and> dom_inv g D \<and>
    (if c then dom_weight g D < dom_weight g D0 else D = D0 \<and> dom_fixed g D (length (blocks g)))"
proof -
  let ?I = "\<lambda>k (D, c). dom_inv g D \<and>
    (if c then dom_weight g D < dom_weight g D0 else D = D0 \<and> dom_fixed g D k)"
  have "\<exists>st. fold_res (dominator_update P (length (blocks g)) a (entry_of g)) (D0, False)
      [0..<length (blocks g)] = Ok st \<and> ?I (length (blocks g)) st"
  proof (rule fold_res_upt_total [where P = ?I])
    fix k st
    assume k: "k < length (blocks g)" and I: "?I k st"
    obtain D c where st: "st = (D, c)" by (cases st)
    obtain w where w: "bits_of w = dom_rhs g D k" and
      step: "dominator_update P (length (blocks g)) a (entry_of g) (D, c) k =
        Ok (if k = entry_of g \<or> D k = w then (D, c) else (D(k := w), True))"
      using dominator_update_total [OF ok preds all k] by blast
    show "\<exists>st'. dominator_update P (length (blocks g)) a (entry_of g) st k = Ok st' \<and> ?I (Suc k) st'"
    proof (cases "k = entry_of g \<or> D k = w")
      case True
      with I w show ?thesis
        by (auto simp: st step dom_fixed_def less_Suc_eq)
    next
      case False
      have inv': "dom_inv g D" and le: "dom_weight g D \<le> dom_weight g D0"
        using I by (auto simp: st split: if_splits)
      from False w have "dom_inv g (D(k := w))" "dom_weight g (D(k := w)) < dom_weight g D"
        by (auto intro: dom_inv_update [OF inv' k])
      with False le show ?thesis by (simp add: st step)
    qed
  qed (use inv in \<open>auto simp: dom_fixed_def\<close>)
  then show ?thesis by (auto simp: dominator_pass_def)
qed

lemma initial_dominators_total:
  assumes ok: "cfg_ok g" and all: "bits_of a = {..<length (blocks g)}"
    and entry: "entry_of g < length (blocks g)"
  shows "\<exists>D. initial_dominators (length (blocks g)) a (entry_of g) = Ok D \<and> dom_inv g D"
proof -
  let ?n = "length (blocks g)"
  have n: "min ?n MAX_BLOCKS = ?n" using ok by (simp add: cfg_ok_def graph_bounds_def)
  have "\<exists>D. fold_res (\<lambda>D b. if b = entry_of g then bindR (block_bit b) (\<lambda>w. Ok (D(b := w)))
       else Ok (D(b := a))) (\<lambda>_. 0) [0..<?n] = (Ok D :: (VerifyError, u128 array) result) \<and>
     (\<forall>b < ?n. D b = (if b = entry_of g then 2 ^ b else a))"
    by (rule fold_res_upt_total)
      (use cfg_ok_small [OF ok] in \<open>auto simp: block_bit_eq less_Suc_eq\<close>)
  then obtain D where D: "initial_dominators ?n a (entry_of g) = Ok D"
    and val: "\<And>b. b < ?n \<Longrightarrow> D b = (if b = entry_of g then 2 ^ b else a)"
    by (auto simp: initial_dominators_def n)
  have "dominator_set g (entry_of g) \<subseteq> {entry_of g}"
    using path_entry [of g] by (force simp: dominator_set_def dominates_def)
  then have "dom_inv g D"
    using val entry all cfg_ok_small [OF ok entry]
    by (auto simp: dom_inv_def dom_rhs_def dominator_set_def)
  with D show ?thesis by blast
qed

text \<open>A solution of the equations below the dominators' over-approximation is the dominator relation.\<close>

lemma dom_fixed_path:
  assumes "dom_fixed g D (length (blocks g))" and "dom_inv g D" and "cfg_ok g" and "cfg_path g p"
  shows "bits_of (D (last p)) \<subseteq> set p"
  using assms(4)
proof induction
  case path_entry
  then show ?case using assms(2) by (simp add: dom_inv_def)
next
  case (path_edge p t)
  have "t < length (blocks g)"
    using path_edge.hyps(2) cfg_ok_succs(1) [OF assms(3)] by (auto simp: cfg_edge_def)
  then have "bits_of (D t) \<subseteq> insert t (bits_of (D (last p)))"
    using assms(1,2) path_edge.hyps(2)
    by (cases "t = entry_of g") (auto simp: dom_fixed_def dom_inv_def dom_rhs_def)
  with path_edge.IH show ?case by auto
qed

lemma compute_dominators_total:
  assumes ok: "cfg_ok g" and entry: "entry_of g < length (blocks g)"
  shows "\<exists>D. compute_dominators g = Ok D \<and>
    (\<forall>b < length (blocks g). bits_of (D b) = dominator_set g b)"
proof -
  let ?n = "length (blocks g)" and ?e = "entry_of g"
  have "?n \<le> 128" using ok by (simp add: cfg_ok_def graph_bounds_def MAX_BLOCKS_def)
  then obtain a where a: "all_blocks_mask ?n = (Ok a :: (VerifyError, u128) result)" "bits_of a = {..<?n}"
    using all_blocks_mask_total by metis
  obtain P where P: "fold_res (block_predecessors g) (\<lambda>_. 0) [0..<?n] = Ok P"
    "\<And>t. bits_of (P t) = {b. cfg_edge g b t}"
    using block_predecessors_total [OF ok] by auto
  obtain D0 where D0: "initial_dominators ?n a ?e = Ok D0" "dom_inv g D0"
    using initial_dominators_total [OF ok a(2) entry] by auto
  let ?I = "\<lambda>(D, c). dom_inv g D \<and> (\<not> c \<longrightarrow> dom_fixed g D ?n)"
  have "\<exists>t. while_res snd (dominator_pass P ?n a ?e) (D0, True) = Ok t \<and> ?I t \<and> \<not> snd t"
  proof (rule while_res_total [where m = "\<lambda>(D, c). 2 * dom_weight g D + (if c then 1 else 0)"])
    show "?I (D0, True)" using D0(2) by simp
    fix st
    assume "?I st" "snd st"
    then obtain D where st: "st = (D, True)" "dom_inv g D" by (cases st) auto
    from dominator_pass_total [OF ok P(2) a(2) st(2), of True]
    show "\<exists>st'. dominator_pass P ?n a ?e st = Ok st' \<and> ?I st' \<and>
      (case st' of (D, c) \<Rightarrow> 2 * dom_weight g D + (if c then 1 else 0)) <
      (case st of (D, c) \<Rightarrow> 2 * dom_weight g D + (if c then 1 else 0))"
      by (fastforce simp: st(1) split: if_splits)
  qed
  then obtain D where D: "while_res snd (dominator_pass P ?n a ?e) (D0, True) = Ok (D, False)"
    "dom_inv g D" "dom_fixed g D ?n"
    by auto
  have "bits_of (D b) = dominator_set g b" if "b < ?n" for b
  proof
    show "bits_of (D b) \<subseteq> dominator_set g b"
      using D(2) that dom_fixed_path [OF D(3,2) ok]
      by (auto simp: dominator_set_def dominates_def dom_inv_def)
    show "dominator_set g b \<subseteq> bits_of (D b)" using D(2) that by (simp add: dom_inv_def)
  qed
  moreover have "compute_dominators g = Ok D"
    using entry by (simp add: compute_dominators_def Let_def entry_index_eq P(1) a(1) D0(1) D(1))
  ultimately show ?thesis by blast
qed

section \<open>Value availability\<close>

definition node_block :: "tig_graph \<Rightarrow> usize \<Rightarrow> usize" where
  "node_block g i = unat (nd_block_index (nodes g ! i))"

text \<open>Node \<open>v\<close> has been evaluated whenever control is at node \<open>i\<close>.\<close>

definition available :: "tig_graph \<Rightarrow> usize \<Rightarrow> usize \<Rightarrow> bool" where
  "available g i v \<longleftrightarrow> v < length (nodes g) \<and>
     (if node_block g v = node_block g i then v < i
      else dominates g (node_block g v) (node_block g i))"

definition inputs_available :: "tig_graph \<Rightarrow> bool" where
  "inputs_available g \<longleftrightarrow>
     (\<forall>i < length (nodes g). \<forall>v \<in> set (node_inputs (nodes g ! i)).
        v = NO_VALUE \<or> available g i (unat v))"

lemma node_block_bounds:
  assumes "blocks_wf g tb" and "i < length (nodes g)"
  shows "node_block g i < length (blocks g)" and "bt_node_blocks tb i = node_block g i"
    and "blk_start g (node_block g i) \<le> i" and "i < blk_end g (node_block g i)"
proof -
  obtain b where b: "b < length (blocks g)" "bt_node_blocks tb i = b" "blk_start g b \<le> i" "i < blk_end g b"
    using assms by (auto simp: blocks_wf_def)
  moreover have "block_wf g b" using assms(1) b(1) by (rule blocks_wfD)
  ultimately have "node_block g i = b" by (simp add: node_block_def block_wf_def)
  with b show "node_block g i < length (blocks g)" and "bt_node_blocks tb i = node_block g i"
    and "blk_start g (node_block g i) \<le> i" and "i < blk_end g (node_block g i)"
    by simp_all
qed

lemma verify_input_available_eq:
  assumes ok: "cfg_ok g" and wf: "blocks_wf g tb" and i: "i < length (nodes g)"
    and D: "\<And>b. b < length (blocks g) \<Longrightarrow> bits_of (D b) = dominator_set g b"
  shows "verify_input_available g (bt_node_blocks tb) D i (k, v) =
    ensure (v = NO_VALUE \<or> available g i (unat v)) (ValueNotAvailable (u32_of i) (u8_of k))"
proof (cases "v = NO_VALUE \<or> unat v \<ge> length (nodes g)")
  case True
  then show ?thesis by (auto simp: verify_input_available_def available_def Let_def)
next
  case False
  have small: "j < MAX_GRAPH_NODES" if "j < length (nodes g)" for j
    using that ok by (simp add: cfg_ok_def graph_bounds_def)
  have sb: "b < 128" "b < MAX_BLOCKS" "b \<noteq> USIZE_MAX" if "b < length (blocks g)" for b
    using cfg_ok_small [OF ok that] by (simp_all add: MAX_BLOCKS_def USIZE_MAX_def)
  note nb = node_block_bounds [OF wf i] node_block_bounds [OF wf, of "unat v"]
  show ?thesis
    using False i nb small [of i] small [of "unat v"] sb [of "node_block g i"]
      sb [of "node_block g (unat v)"] D [of "node_block g i"]
    by (cases "node_block g (unat v) = node_block g i") (simp_all add: verify_input_available_def available_def Let_def block_bit_eq mask_test
        dominator_set_def array_get_def)
qed

lemma verify_value_availability_eq:
  assumes "cfg_ok g" and "blocks_wf g tb" and "entry_of g < length (blocks g)"
  shows "verify_value_availability g (bt_node_blocks tb) = Ok () \<longleftrightarrow> inputs_available g"
    and "settled (verify_value_availability g (bt_node_blocks tb))"
proof -
  obtain D where "compute_dominators g = Ok D"
    and D: "\<And>b. b < length (blocks g) \<Longrightarrow> bits_of (D b) = dominator_set g b"
    using compute_dominators_total [OF assms(1,3)] by auto
  moreover have input: "verify_input_available g (bt_node_blocks tb) D i (k, v) =
      ensure (v = NO_VALUE \<or> available g i (unat v)) (ValueNotAvailable (u32_of i) (u8_of k))"
    if "i < length (nodes g)" for i k v
    by (rule verify_input_available_eq [OF assms(1,2) that D])
  ultimately show "verify_value_availability g (bt_node_blocks tb) = Ok () \<longleftrightarrow> inputs_available g"
    by (simp add: verify_value_availability_def for_each_enumerate_eq_Ok inputs_available_def
        all_set_conv_all_nth del: for_each_eq_Ok cong: conj_cong)
  have "settled (verify_input_available g (bt_node_blocks tb) D (fst x) y)"
    if "x \<in> set (enumerate 0 (nodes g))" for x y
    using that input [of "fst x" "fst y" "snd y"] by (simp add: in_set_enumerate_eq)
  with \<open>compute_dominators g = Ok D\<close> show "settled (verify_value_availability g (bt_node_blocks tb))"
    by (auto simp: verify_value_availability_def split_beta intro!: settled_for_each)
qed

end
