(* ===== verification/Tig_Semantics.thy ===== *)
theory Tig_Semantics
  imports Tig_Dominators
begin

text \<open>
  What the semantic pass of the verifier establishes: every input has the type its opcode's
  signature asks for and is computed before it is used, the host operations form one linear chain of
  effects, and every capability a host operation uses comes from an import that declares enough
  rights or from a host result. The last section puts the passes together.
\<close>

section \<open>The specification of the pass\<close>

definition input_at :: "tig_graph \<Rightarrow> usize \<Rightarrow> usize \<Rightarrow> u32" where
  "input_at g i k = node_inputs (nodes g ! i) ! k"

definition node_sig :: "tig_graph \<Rightarrow> usize \<Rightarrow> OpcodeSignature" where
  "node_sig g i = signature (node_op g i)"

definition typed_inputs :: "tig_graph \<Rightarrow> usize \<Rightarrow> bool" where
  "typed_inputs g i \<longleftrightarrow>
     (\<forall>k < 4. if k < length (sig_inputs (node_sig g i))
        then input_at g i k \<noteq> NO_VALUE \<and> unat (input_at g i k) < i
             \<and> node_ty g (unat (input_at g i k)) = sig_inputs (node_sig g i) ! k
        else input_at g i k = NO_VALUE)"

text \<open>A projection: it follows its producer, a host operation, with only projections between.\<close>

definition projection_ok :: "tig_graph \<Rightarrow> usize \<Rightarrow> bool" where
  "projection_ok g i \<longleftrightarrow>
     (let p = unat (input_at g i 0) in
      p < i \<and> sig_effectful (node_sig g p) \<and>
      (\<forall>j. p < j \<and> j < i \<longrightarrow> node_op g j = HostResult \<and> input_at g j 0 = input_at g i 0) \<and>
      host_result_field_type (node_op g p) (nd_auxiliary0 (nodes g ! i)) = Some (node_ty g i))"

definition import_param :: "tig_graph \<Rightarrow> usize \<Rightarrow> bool" where
  "import_param g i \<longleftrightarrow>
     node_block g i = entry_of g \<and> unat (nd_auxiliary0 (nodes g ! i)) < 2 ^ 16 \<and>
     (\<exists>imp. find_import g (ucast (nd_auxiliary0 (nodes g ! i))) = Some imp \<and>
        imp_expected_type imp = type_code Capability)"

definition cap_origin :: "tig_graph \<Rightarrow> usize \<Rightarrow> CapabilityOrigin" where
  "cap_origin g i =
     (if node_ty g i \<noteq> Capability then NoOrigin
      else if node_op g i = BlockParam then ImportOrigin (ucast (nd_auxiliary0 (nodes g ! i)))
      else if node_op g i = HostResult
        then HostResultOrigin RESOURCE_OBJECT (RIGHTS_READ OR RIGHTS_REVISE)
      else NoOrigin)"

text \<open>An origin that entitles to an operation on a resource kind with some rights.\<close>

fun origin_grants :: "tig_graph \<Rightarrow> CapabilityOrigin \<Rightarrow> u16 \<Rightarrow> u64 \<Rightarrow> bool" where
  "origin_grants g (ImportOrigin slot) kind rights =
     (case find_import g slot of
        None \<Rightarrow> False
      | Some imp \<Rightarrow> imp_expected_type imp = type_code Capability \<and> imp_resource_kind imp = kind
          \<and> imp_rights imp AND rights = rights)"
| "origin_grants g (HostResultOrigin k r) kind rights = (k = kind \<and> r AND rights = rights)"
| "origin_grants g NoOrigin kind rights = False"

definition authorised :: "tig_graph \<Rightarrow> usize \<Rightarrow> bool" where
  "authorised g i \<longleftrightarrow>
     origin_grants g (cap_origin g (unat (input_at g i 1)))
       (the (sig_required_resource_kind (node_sig g i))) (sig_required_rights (node_sig g i))"

definition node_sem :: "tig_graph \<Rightarrow> usize \<Rightarrow> bool" where
  "node_sem g i \<longleftrightarrow>
     (node_ty g i = Capability \<longrightarrow> node_op g i = BlockParam \<or> node_op g i = HostResult) \<and>
     (node_op g i \<noteq> HostResult \<and> node_op g i \<noteq> Jump \<longrightarrow>
        typed_inputs g i \<and> opcode_accepts_result (node_op g i) (node_ty g i) (sig_result (node_sig g i))) \<and>
     (node_op g i = HostResult \<longrightarrow> projection_ok g i) \<and>
     (node_op g i = BlockParam \<and> node_ty g i = Capability \<longrightarrow> import_param g i) \<and>
     (sig_effectful (node_sig g i) \<longrightarrow> authorised g i)"

text \<open>The nodes of the effect chain among the first \<open>k\<close>, and the chain condition.\<close>

definition effect_nodes :: "tig_graph \<Rightarrow> usize \<Rightarrow> usize list" where
  "effect_nodes g k = filter (\<lambda>i. node_op g i = EffectStart \<or> sig_effectful (node_sig g i)) [0..<k]"

definition effect_chain :: "tig_graph \<Rightarrow> usize list \<Rightarrow> bool" where
  "effect_chain g es \<longleftrightarrow>
     (es \<noteq> [] \<longrightarrow> node_op g (hd es) = EffectStart) \<and>
     successively (\<lambda>p i. sig_effectful (node_sig g i) \<and> unat (input_at g i 0) = p) es"

lemma effect_nodes_Suc:
  "effect_nodes g (Suc k) =
     effect_nodes g k @ (if node_op g k = EffectStart \<or> sig_effectful (node_sig g k) then [k] else [])"
  by (simp add: effect_nodes_def)

section \<open>The passes of one node\<close>

lemma input_at_simps:
  "input_at g i 0 = nd_input0 (nodes g ! i)" "input_at g i (Suc 0) = nd_input1 (nodes g ! i)"
  "input_at g i 2 = nd_input2 (nodes g ! i)" "input_at g i 3 = nd_input3 (nodes g ! i)"
  by (simp_all add: input_at_def node_inputs_def)

lemma length_node_inputs [simp]: "length (node_inputs n) = 4"
  by (simp add: node_inputs_def)

lemma input_at_mem: "k < 4 \<Longrightarrow> input_at g i k \<in> set (node_inputs (nodes g ! i))"
  by (simp add: input_at_def)

lemma verify_opcode_signature_eq_Ok:
  assumes "known_codes g" and "i < length (nodes g)"
  shows "verify_opcode_signature g i (nodes g ! i) rt = Ok u \<longleftrightarrow>
     i < MAX_GRAPH_NODES \<and> opcode_accepts_result (node_op g i) (rt i) (sig_result (node_sig g i)) \<and>
     (\<forall>k < 4. if k < length (sig_inputs (node_sig g i))
        then input_at g i k \<noteq> NO_VALUE \<and> unat (input_at g i k) < length (nodes g) \<and>
             unat (input_at g i k) < MAX_GRAPH_NODES \<and>
             rt (unat (input_at g i k)) = sig_inputs (node_sig g i) ! k
        else input_at g i k = NO_VALUE)" (is "?lhs \<longleftrightarrow> _ \<and> _ \<and> (\<forall>k < 4. ?P k)")
proof -
  let ?ins = "node_inputs (nodes g ! i)" and ?sig = "sig_inputs (node_sig g i)"
  have len: "length ?sig \<le> 4" by (simp add: node_sig_def signature_inputs_at_most_4)
  have zipped: "set (zip (enumerate 0 ?ins) ?sig) = {((k, ?ins ! k), ?sig ! k) | k. k < length ?sig}"
  proof -
    have "zip (enumerate 0 ?ins) ?sig = map (\<lambda>k. ((k, ?ins ! k), ?sig ! k)) [0..<length ?sig]"
      using len by (intro nth_equalityI) (simp_all add: nth_enumerate_eq)
    then show ?thesis by auto
  qed
  have dropped: "set (drop (length ?sig) (enumerate 0 ?ins)) = {(k, ?ins ! k) | k. length ?sig \<le> k \<and> k < 4}"
  proof -
    have "drop (length ?sig) (enumerate 0 ?ins) = map (\<lambda>k. (k, ?ins ! k)) [length ?sig..<4]"
      using len by (intro nth_equalityI) (simp_all add: nth_enumerate_eq)
    then show ?thesis by auto
  qed
  have split: "(\<forall>k < 4. ?P k) \<longleftrightarrow> (\<forall>k < length ?sig. ?P k) \<and> (\<forall>k. length ?sig \<le> k \<and> k < 4 \<longrightarrow> ?P k)"
    using len by (meson leD le_less_linear less_le_trans)
  show ?thesis
    unfolding split
    using known_codesD(3) [OF assms]
    by (auto simp: verify_opcode_signature_def Let_def zipped dropped node_sig_def [symmetric]
        input_at_def split: if_splits)
qed

lemma settled_verify_opcode_signature:
  assumes "known_codes g" and "graph_bounds g" and "i < length (nodes g)"
  shows "settled (verify_opcode_signature g i (nodes g ! i) rt)"
proof -
  have "j < MAX_GRAPH_NODES" if "j < length (nodes g)" for j
    using that assms(2) by (simp add: graph_bounds_def)
  then show ?thesis
    using known_codesD(3) [OF assms(1,3)] assms(3)
    unfolding verify_opcode_signature_def Let_def
    by (auto simp: settled_bindR_iff split_beta intro!: settled_for_each)
qed

text \<open>The result-type table while node \<open>k\<close> is checked holds the types of the nodes up to \<open>k\<close>.\<close>

definition types_upto :: "tig_graph \<Rightarrow> usize \<Rightarrow> PythType array" where
  "types_upto g k = (\<lambda>j. if j < k then node_ty g j else Unit)"

definition origins_upto :: "tig_graph \<Rightarrow> usize \<Rightarrow> CapabilityOrigin array" where
  "origins_upto g k = (\<lambda>j. if j < k then cap_origin g j else NoOrigin)"

lemma typed_inputsI:
  assumes "known_codes g" and "i < length (nodes g)" and avail: "inputs_available g"
    and ok: "verify_opcode_signature g i (nodes g ! i) (types_upto g (Suc i)) = Ok u"
  shows "typed_inputs g i"
    and "opcode_accepts_result (node_op g i) (node_ty g i) (sig_result (node_sig g i))"
proof -
  note S = ok [unfolded verify_opcode_signature_eq_Ok [OF assms(1,2)]]
  then show "opcode_accepts_result (node_op g i) (node_ty g i) (sig_result (node_sig g i))"
    by (simp add: types_upto_def)
  have "unat (input_at g i k) < i \<and> node_ty g (unat (input_at g i k)) = sig_inputs (node_sig g i) ! k"
    if k: "k < 4" "k < length (sig_inputs (node_sig g i))" for k
  proof -
    let ?v = "unat (input_at g i k)"
    have ty: "types_upto g (Suc i) ?v = sig_inputs (node_sig g i) ! k" and nv: "input_at g i k \<noteq> NO_VALUE"
      using S k by auto
    have "sig_inputs (node_sig g i) ! k \<noteq> Unit"
      using signature_inputs_not_Unit k(2) unfolding node_sig_def by (metis nth_mem)
    with ty have "?v < Suc i" and "node_ty g ?v = sig_inputs (node_sig g i) ! k"
      by (auto simp: types_upto_def split: if_splits)
    moreover have "available g i ?v"
      using avail assms(2) nv input_at_mem [OF k(1), of g i] by (auto simp: inputs_available_def)
    then have "?v \<noteq> i" by (auto simp: available_def)
    ultimately show ?thesis by simp
  qed
  with S show "typed_inputs g i" unfolding typed_inputs_def by auto
qed

lemma projection_run_iff:
  assumes "known_codes g" and "\<And>j. j \<in> set js \<Longrightarrow> j < length (nodes g)"
  shows "projection_run g v js \<longleftrightarrow> (\<forall>j \<in> set js. node_op g j = HostResult \<and> input_at g j 0 = v)"
  using assms(2) by (induction js) (auto simp: list_get_def known_codesD(1) [OF assms(1)] input_at_simps)

lemma verify_host_result_okD:
  assumes "known_codes g" and "i < length (nodes g)"
    and "verify_host_result g i (nodes g ! i) (node_ty g i) = Ok schema"
  shows "projection_ok g i"
    and "node_ty g i = Capability \<Longrightarrow>
      hrs_capability_origin schema = Some (HostResultOrigin RESOURCE_OBJECT (RIGHTS_READ OR RIGHTS_REVISE))"
proof -
  let ?v = "input_at g i 0" and ?p = "unat (input_at g i 0)"
  let ?field = "nd_auxiliary0 (nodes g ! i)"
  obtain m opc where run: "host_result_is_in_contiguous_projection_run g ?p i"
    and m: "list_get (nodes g) ?p = Some m" "opcode_try_from (nd_opcode m) = Some opc"
    and eff: "sig_effectful (signature opc)"
    and schema: "host_result_field_schema opc ?field = Some schema" "hrs_result_type schema = node_ty g i"
    using assms(3) unfolding verify_host_result_def Let_def input_at_simps by auto
  from run have p: "?p < i" and run': "projection_run g (u32_of ?p) [?p + 1..<i]"
    by (auto simp: host_result_is_in_contiguous_projection_run_def split: if_splits)
  have "opc = node_op g ?p"
    using m p assms(2) by (auto simp: list_get_def node_op_def)
  moreover have "u32_of ?p = ?v" by (simp add: u32_of_def)
  with run' have "projection_run g ?v [?p + 1..<i]" by simp
  then have "\<forall>j \<in> set [?p + 1..<i]. node_op g j = HostResult \<and> input_at g j 0 = ?v"
    by (rule projection_run_iff [OF assms(1), THEN iffD1, rotated]) (use assms(2) in simp)
  then have "\<forall>j. ?p < j \<and> j < i \<longrightarrow> node_op g j = HostResult \<and> input_at g j 0 = ?v"
    by (metis Suc_eq_plus1 Suc_le_eq atLeastLessThan_iff set_upt)
  moreover have "host_result_field_type opc ?field = Some (node_ty g i)"
    and origin: "hrs_capability_origin schema = (if node_ty g i = Capability
      then Some (HostResultOrigin RESOURCE_OBJECT (RIGHTS_READ OR RIGHTS_REVISE)) else None)"
    using schema by (auto simp: host_result_field_schema_def split: option.splits)
  ultimately show "projection_ok g i"
    unfolding projection_ok_def Let_def node_sig_def using p eff by blast
  show "hrs_capability_origin schema = Some (HostResultOrigin RESOURCE_OBJECT (RIGHTS_READ OR RIGHTS_REVISE))"
    if "node_ty g i = Capability"
    using that origin by simp
qed

lemma origins_upto_Suc: "origins_upto g (Suc k) = (origins_upto g k)(k := cap_origin g k)"
  by (auto simp: origins_upto_def less_Suc_eq)

lemma origins_upto_NoOrigin: "cap_origin g k = NoOrigin \<Longrightarrow> origins_upto g (Suc k) = origins_upto g k"
  by (auto simp: origins_upto_def less_Suc_eq)

lemma verify_import_block_param_okD:
  assumes "verify_import_block_param g i (nodes g ! i) = Ok slot"
  shows "import_param g i" and "slot = ucast (nd_auxiliary0 (nodes g ! i))"
proof -
  let ?aux = "nd_auxiliary0 (nodes g ! i)"
  from assms have blk: "ucast (nd_block_index (nodes g ! i)) = hdr_entry_block (header g)"
    and slot: "try_from_word ?aux = Some slot"
    and imp: "\<exists>imp. find_import g slot = Some imp \<and> imp_expected_type imp = type_code Capability"
    by (auto simp: verify_import_block_param_def)
  have "node_block g i = entry_of g"
    using arg_cong [OF blk, of unat] unat_bound [of "nd_block_index (nodes g ! i)"]
    by (simp add: node_block_def entry_of_def unsigned_ucast_eq take_bit_nat_eq_self)
  moreover from slot show eq: "slot = ucast ?aux"
    by (simp add: try_from_word_def split: if_splits)
  have "unat ?aux < 2 ^ 16"
    using slot by (auto simp: try_from_word_def split: if_splits)
  ultimately show "import_param g i" using imp eq by (simp add: import_param_def)
qed

definition plain_op :: "Opcode \<Rightarrow> bool" where
  "plain_op p \<longleftrightarrow> p \<noteq> BlockParam \<and> p \<noteq> HostResult \<and> p \<noteq> Jump"

lemma verify_node_signature_plain:
  "plain_op p \<Longrightarrow> verify_node_signature g i n p ty st =
     bindR (verify_opcode_signature g i n (ss_result_types st)) (\<lambda>_. Ok st)"
  by (cases p) (simp_all add: verify_node_signature_def plain_op_def)

text \<open>The signature part of \<open>node_sem\<close>, and the table of origins it leaves.\<close>

lemma verify_node_signature_okD:
  assumes known: "known_codes g" and i: "i < length (nodes g)" and avail: "inputs_available g"
    and ty: "node_ty g i = Capability \<longrightarrow> node_op g i = BlockParam \<or> node_op g i = HostResult"
    and st: "ss_result_types st = types_upto g (Suc i)" "ss_origins st = origins_upto g i"
    and ok: "verify_node_signature g i (nodes g ! i) (node_op g i) (node_ty g i) st = Ok st'"
  shows "st' = st\<lparr>ss_origins := origins_upto g (Suc i)\<rparr>"
    and "node_op g i \<noteq> HostResult \<Longrightarrow> node_op g i \<noteq> Jump \<Longrightarrow>
      typed_inputs g i \<and> opcode_accepts_result (node_op g i) (node_ty g i) (sig_result (node_sig g i))"
    and "node_op g i = HostResult \<Longrightarrow> projection_ok g i"
    and "node_op g i = BlockParam \<Longrightarrow> node_ty g i = Capability \<Longrightarrow> import_param g i"
proof -
  note T = typed_inputsI [OF known i avail]
  let ?all = "st' = st\<lparr>ss_origins := origins_upto g (Suc i)\<rparr> \<and>
    (node_op g i \<noteq> HostResult \<longrightarrow> node_op g i \<noteq> Jump \<longrightarrow>
      typed_inputs g i \<and> opcode_accepts_result (node_op g i) (node_ty g i) (sig_result (node_sig g i))) \<and>
    (node_op g i = HostResult \<longrightarrow> projection_ok g i) \<and>
    (node_op g i = BlockParam \<longrightarrow> node_ty g i = Capability \<longrightarrow> import_param g i)"
  have same: "st\<lparr>ss_origins := origins_upto g i\<rparr> = st" using st(2) by simp
  have ?all
  proof (cases "plain_op (node_op g i)")
    case True
    then have "cap_origin g i = NoOrigin" using ty by (auto simp: plain_op_def cap_origin_def)
    with True ok st same T show ?thesis
      by (auto simp: verify_node_signature_plain origins_upto_NoOrigin plain_op_def)
  next
    case False
    then consider "node_op g i = BlockParam" "node_ty g i = Capability"
      | "node_op g i = HostResult" "node_ty g i = Capability"
      | "node_op g i = BlockParam" "node_ty g i \<noteq> Capability"
      | "node_op g i = HostResult" "node_ty g i \<noteq> Capability" | "node_op g i = Jump"
      by (auto simp: plain_op_def)
    then show ?thesis
    proof cases
      case 1
      then show ?thesis
        using ok st T verify_import_block_param_okD [of g i]
        by (auto simp: verify_node_signature_def origins_upto_Suc cap_origin_def)
    next
      case 2
      then show ?thesis
        using ok st verify_host_result_okD [OF known i]
        by (auto simp: verify_node_signature_def origins_upto_Suc cap_origin_def)
    next
      case 3
      then have "origins_upto g (Suc i) = origins_upto g i"
        by (intro origins_upto_NoOrigin) (simp add: cap_origin_def)
      with 3 show ?thesis using ok st same T by (auto simp: verify_node_signature_def)
    next
      case 4
      then have "origins_upto g (Suc i) = origins_upto g i"
        by (intro origins_upto_NoOrigin) (simp add: cap_origin_def)
      with 4 show ?thesis
        using ok st same verify_host_result_okD [OF known i] by (auto simp: verify_node_signature_def)
    next
      case 5
      then have "origins_upto g (Suc i) = origins_upto g i"
        by (intro origins_upto_NoOrigin) (simp add: cap_origin_def)
      with 5 show ?thesis using ok st same by (auto simp: verify_node_signature_def)
    qed
  qed
  then show "st' = st\<lparr>ss_origins := origins_upto g (Suc i)\<rparr>"
    and "node_op g i \<noteq> HostResult \<Longrightarrow> node_op g i \<noteq> Jump \<Longrightarrow>
      typed_inputs g i \<and> opcode_accepts_result (node_op g i) (node_ty g i) (sig_result (node_sig g i))"
    and "node_op g i = HostResult \<Longrightarrow> projection_ok g i"
    and "node_op g i = BlockParam \<Longrightarrow> node_ty g i = Capability \<Longrightarrow> import_param g i"
    by blast+
qed

lemma verify_host_import_okD:
  assumes "sig_effectful (node_sig g i)" and "typed_inputs g i"
    and "verify_host_import g n (nodes g ! i) (node_op g i) (types_upto g (Suc i)) (origins_upto g (Suc i)) = Ok u"
  shows "authorised g i"
proof -
  obtain rest where sig: "sig_inputs (node_sig g i) = Effect # Capability # rest"
    and kind: "sig_required_resource_kind (node_sig g i) \<noteq> None"
    using effectful_shape assms(1) unfolding node_sig_def by metis
  have "unat (input_at g i 1) < i"
    using assms(2) sig unfolding typed_inputs_def by (auto dest: spec [of _ 1])
  then show ?thesis
    using assms(3) kind
    by (auto simp: verify_host_import_def Let_def authorised_def node_sig_def input_at_simps
        origins_upto_def less_Suc_eq split: option.splits CapabilityOrigin.splits)
qed

text \<open>The effect part: the chain grows by the node, if the node is one of the chain.\<close>

lemma verify_node_effect_okD:
  assumes i: "i < 2 ^ 32"
    and chain: "effect_chain g (effect_nodes g i)"
    and st: "ss_result_types st = types_upto g (Suc i)" "ss_origins st = origins_upto g (Suc i)"
      "ss_effect_start st = None \<longleftrightarrow> effect_nodes g i = []"
      "ss_current_effect st = (if effect_nodes g i = [] then NO_VALUE else u32_of (last (effect_nodes g i)))"
    and sig: "sig_effectful (node_sig g i) \<Longrightarrow> typed_inputs g i"
    and ok: "verify_node_effect g i (nodes g ! i) (node_op g i) (node_ty g i) st = Ok st'"
  shows "ss_result_types st' = types_upto g (Suc i)" and "ss_origins st' = origins_upto g (Suc i)"
    and "effect_chain g (effect_nodes g (Suc i))"
    and "ss_effect_start st' = None \<longleftrightarrow> effect_nodes g (Suc i) = []"
    and "ss_current_effect st' =
      (if effect_nodes g (Suc i) = [] then NO_VALUE else u32_of (last (effect_nodes g (Suc i))))"
    and "sig_effectful (node_sig g i) \<Longrightarrow> authorised g i"
proof -
  have small: "j < 2 ^ 32" if "j \<in> set (effect_nodes g i)" for j
    using that i by (auto simp: effect_nodes_def)
  consider (start) "node_op g i = EffectStart" | (host) "node_op g i \<noteq> EffectStart" "sig_effectful (node_sig g i)"
    | (other) "node_op g i \<noteq> EffectStart" "\<not> sig_effectful (node_sig g i)" by blast
  then have "ss_result_types st' = types_upto g (Suc i) \<and> ss_origins st' = origins_upto g (Suc i) \<and>
    effect_chain g (effect_nodes g (Suc i)) \<and>
    (ss_effect_start st' = None \<longleftrightarrow> effect_nodes g (Suc i) = []) \<and>
    ss_current_effect st' =
      (if effect_nodes g (Suc i) = [] then NO_VALUE else u32_of (last (effect_nodes g (Suc i)))) \<and>
    (sig_effectful (node_sig g i) \<longrightarrow> authorised g i)"
  proof cases
    case start
    then have "\<not> sig_effectful (node_sig g i)" by (simp add: node_sig_def sig_defs)
    moreover have "effect_nodes g i = []"
      using ok start st(3) by (auto simp: verify_node_effect_def)
    ultimately show ?thesis
      using ok start st by (auto simp: verify_node_effect_def effect_nodes_Suc effect_chain_def)
  next
    case host
    let ?v = "nd_input0 (nodes g ! i)"
    from ok host have v: "?v \<noteq> NO_VALUE" "?v = ss_current_effect st"
      and imp: "verify_host_import g (u32_of i) (nodes g ! i) (node_op g i) (types_upto g (Suc i))
        (origins_upto g (Suc i)) = Ok ()"
      and st': "\<exists>c. st' = st\<lparr>ss_consumers := c, ss_current_effect := u32_of i\<rparr>"
      by (auto simp: verify_node_effect_def node_sig_def Let_def st(1,2))
    have ne: "effect_nodes g i \<noteq> []" using v st(4) by auto
    then have "unat ?v = last (effect_nodes g i)"
      using v(2) st(4) small [of "last (effect_nodes g i)"] by (simp add: unat_u32_of)
    with ne chain host have "effect_chain g (effect_nodes g (Suc i))"
      by (auto simp: effect_chain_def effect_nodes_Suc successively_append_iff input_at_simps)
    moreover have "authorised g i" using verify_host_import_okD [OF host(2) sig [OF host(2)] imp] .
    ultimately show ?thesis using st' host ne st by (auto simp: effect_nodes_Suc)
  next
    case other
    then show ?thesis using ok st chain by (auto simp: verify_node_effect_def effect_nodes_Suc node_sig_def)
  qed
  then show "ss_result_types st' = types_upto g (Suc i)" and "ss_origins st' = origins_upto g (Suc i)"
    and "effect_chain g (effect_nodes g (Suc i))"
    and "ss_effect_start st' = None \<longleftrightarrow> effect_nodes g (Suc i) = []"
    and "ss_current_effect st' =
      (if effect_nodes g (Suc i) = [] then NO_VALUE else u32_of (last (effect_nodes g (Suc i))))"
    and "sig_effectful (node_sig g i) \<Longrightarrow> authorised g i"
    by blast+
qed

section \<open>The whole pass\<close>

definition sem_inv :: "tig_graph \<Rightarrow> usize \<Rightarrow> sem_state \<Rightarrow> bool" where
  "sem_inv g k st \<longleftrightarrow>
     ss_result_types st = types_upto g k \<and> ss_origins st = origins_upto g k \<and>
     (\<forall>j < k. node_sem g j) \<and> effect_chain g (effect_nodes g k) \<and>
     (ss_effect_start st = None \<longleftrightarrow> effect_nodes g k = []) \<and>
     ss_current_effect st = (if effect_nodes g k = [] then NO_VALUE else u32_of (last (effect_nodes g k)))"

lemma effectful_plain: "sig_effectful (signature p) \<Longrightarrow> p \<noteq> HostResult \<and> p \<noteq> Jump \<and> p \<noteq> EffectStart \<and> p \<noteq> BlockParam"
  by (cases p) (simp_all add: sig_defs)

lemma types_upto_Suc: "types_upto g (Suc k) = (types_upto g k)(k := node_ty g k)"
  by (auto simp: types_upto_def less_Suc_eq)

lemma verify_semantics_node_step:
  assumes known: "known_codes g" and bounds: "graph_bounds g" and avail: "inputs_available g"
    and i: "i < length (nodes g)" and inv: "sem_inv g i st"
  defines "st1 \<equiv> st\<lparr>ss_result_types := types_upto g (Suc i)\<rparr>"
  shows "verify_semantics_node g st (i, nodes g ! i) =
     bindR (ensure (\<not> (node_ty g i = Capability \<and> node_op g i \<noteq> BlockParam \<and> node_op g i \<noteq> HostResult))
              (CapabilityOriginInvalid (u32_of i))) (\<lambda>_.
     bindR (verify_node_signature g i (nodes g ! i) (node_op g i) (node_ty g i) st1) (\<lambda>st2.
     bindR (verify_node_effect g i (nodes g ! i) (node_op g i) (node_ty g i) st2) (\<lambda>st3.
     bindR (verify_capability_inputs i (nodes g ! i) (ss_result_types st3) (ss_origins st3)) (\<lambda>_.
     Ok st3))))"
proof -
  have "i < MAX_GRAPH_NODES" using i bounds by (simp add: graph_bounds_def)
  moreover have "(ss_result_types st)(i := node_ty g i) = types_upto g (Suc i)"
    using inv by (simp add: sem_inv_def types_upto_Suc)
  ultimately show ?thesis
    using known_codesD(3,4) [OF known i]
    by (simp add: verify_semantics_node_def array_set_def st1_def)
qed

lemma sem_inv_step:
  assumes known: "known_codes g" and bounds: "graph_bounds g" and avail: "inputs_available g"
    and i: "i < length (nodes g)" and inv: "sem_inv g i st"
    and ok: "verify_semantics_node g st (i, nodes g ! i) = Ok st'"
  shows "sem_inv g (Suc i) st'"
proof -
  let ?st1 = "st\<lparr>ss_result_types := types_upto g (Suc i)\<rparr>"
  from ok obtain st2 where
    ty: "node_ty g i = Capability \<longrightarrow> node_op g i = BlockParam \<or> node_op g i = HostResult"
    and sgn: "verify_node_signature g i (nodes g ! i) (node_op g i) (node_ty g i) ?st1 = Ok st2"
    and eff: "verify_node_effect g i (nodes g ! i) (node_op g i) (node_ty g i) st2 = Ok st'"
    unfolding verify_semantics_node_step [OF known bounds avail i inv] by auto
  note S = verify_node_signature_okD [OF known i avail ty _ _ sgn]
  have o: "ss_origins ?st1 = origins_upto g i" using inv by (simp add: sem_inv_def)
  have st2: "st2 = ?st1\<lparr>ss_origins := origins_upto g (Suc i)\<rparr>" by (rule S(1)) (simp_all add: o)
  have typed: "typed_inputs g i" if "sig_effectful (node_sig g i)"
    using S(2) o effectful_plain that unfolding node_sig_def by auto
  have "i < 2 ^ 32" using i bounds by (simp add: graph_bounds_def MAX_GRAPH_NODES_def)
  note E = verify_node_effect_okD [OF this _ _ _ _ _ typed eff]
  have pre: "effect_chain g (effect_nodes g i)" "ss_result_types st2 = types_upto g (Suc i)"
    "ss_origins st2 = origins_upto g (Suc i)" "ss_effect_start st2 = None \<longleftrightarrow> effect_nodes g i = []"
    "ss_current_effect st2 = (if effect_nodes g i = [] then NO_VALUE else u32_of (last (effect_nodes g i)))"
    using inv by (simp_all add: st2 sem_inv_def)
  have "node_sem g i"
    using ty S(2-4) E(6) [OF pre] o unfolding node_sem_def by simp
  with inv E(1-5) [OF pre] show ?thesis
    unfolding sem_inv_def by (simp add: less_Suc_eq)
qed

lemma settled_verify_semantics_node:
  assumes known: "known_codes g" and bounds: "graph_bounds g" and avail: "inputs_available g"
    and i: "i < length (nodes g)" and inv: "sem_inv g i st"
  shows "settled (verify_semantics_node g st (i, nodes g ! i))"
proof -
  let ?n = "nodes g ! i"
  have small: "j < MAX_GRAPH_NODES" if "j < length (nodes g)" for j
    using that bounds by (simp add: graph_bounds_def)
  have in_range: "unat v < MAX_GRAPH_NODES" if "v \<in> set (node_inputs ?n)" "v \<noteq> NO_VALUE" for v
    using avail i that small by (auto simp: inputs_available_def available_def)
  have sig: "settled (verify_node_signature g i ?n p ty st1)" for p ty st1
    using settled_verify_opcode_signature [OF known bounds i] small [OF i]
    by (cases p) (auto simp: verify_node_signature_def verify_import_block_param_def verify_host_result_def
        Let_def settled_bindR_iff)
  have caps: "settled (verify_capability_inputs i ?n rt os)" for rt os
    unfolding verify_capability_inputs_def using in_range
    by (intro settled_for_each) (auto simp: settled_bindR_iff)
  have eff: "settled (verify_node_effect g i ?n (node_op g i) (node_ty g i) st2)"
    if "verify_node_signature g i ?n (node_op g i) (node_ty g i) st1 = Ok st2" for st1 st2
  proof (cases "sig_effectful (node_sig g i)")
    case True
    then obtain rest where "sig_inputs (node_sig g i) = Effect # Capability # rest"
      using effectful_shape(3) unfolding node_sig_def by metis
    moreover have "plain_op (node_op g i)"
      using True effectful_plain by (auto simp: plain_op_def node_sig_def)
    then have "verify_opcode_signature g i ?n (ss_result_types st1) = Ok ()"
      using that by (auto simp: verify_node_signature_plain)
    ultimately have "input_at g i 0 \<noteq> NO_VALUE" "input_at g i 1 \<noteq> NO_VALUE"
      unfolding verify_opcode_signature_eq_Ok [OF known i] by (auto dest: spec [of _ 0] spec [of _ 1])
    then have "unat (nd_input0 ?n) < MAX_GRAPH_NODES" "unat (nd_input1 ?n) < MAX_GRAPH_NODES"
      by (auto intro!: in_range simp: input_at_simps node_inputs_def)
    then show ?thesis
      by (auto simp: verify_node_effect_def verify_host_import_def Let_def settled_bindR_iff
          split: option.split CapabilityOrigin.split)
  qed (auto simp: verify_node_effect_def node_sig_def settled_bindR_iff)
  show ?thesis
    unfolding verify_semantics_node_step [OF assms]
    using sig eff caps by (simp add: settled_bindR_iff)
qed

lemma sem_inv_initial: "sem_inv g 0 initial_sem_state"
  by (simp add: sem_inv_def initial_sem_state_def types_upto_def origins_upto_def effect_nodes_def
      effect_chain_def)

lemma settled_verify_semantics:
  assumes "known_codes g" and "graph_bounds g" and "inputs_available g"
  shows "settled (verify_semantics g)"
  unfolding verify_semantics_def fold_res_enumerate
  by (intro settled_bindR settled_fold_res_upt [where P = "sem_inv g"])
    (auto intro: sem_inv_initial sem_inv_step [OF assms] settled_verify_semantics_node [OF assms])

lemma verify_semantics_okD:
  assumes "known_codes g" and "graph_bounds g" and "inputs_available g" and "verify_semantics g = Ok u"
  shows "\<forall>i < length (nodes g). node_sem g i" and "effect_chain g (effect_nodes g (length (nodes g)))"
proof -
  from assms(4) obtain st where "fold_res (verify_semantics_node g) initial_sem_state (enumerate 0 (nodes g)) = Ok st"
    by (auto simp: verify_semantics_def)
  then have fold: "fold_res (\<lambda>t i. verify_semantics_node g t (i, nodes g ! i)) initial_sem_state
      [0..<length (nodes g)] = Ok st"
    by (simp add: fold_res_enumerate)
  have "sem_inv g (length (nodes g)) st"
    by (rule fold_res_upt [OF fold, where P = "sem_inv g"])
      (auto intro: sem_inv_initial sem_inv_step [OF assms(1-3)])
  then show "\<forall>i < length (nodes g). node_sem g i"
    and "effect_chain g (effect_nodes g (length (nodes g)))"
    by (simp_all add: sem_inv_def)
qed

section \<open>Ranges and canonical form\<close>

definition texts_ok :: "tig_graph \<Rightarrow> bool" where
  "texts_ok g \<longleftrightarrow>
     (\<forall>i < length (nodes g). node_op g i = ConstUtf8 \<longrightarrow>
        (\<exists>text. referenced_bytes (string_table g) (nd_auxiliary0 (nodes g ! i)) (nd_auxiliary1 (nodes g ! i))
           = Some text \<and> utf8_valid text)) \<and>
     (\<forall>i < length (nodes g). node_op g i = ConstBytes \<longrightarrow>
        referenced_bytes (constant_pool g) (nd_auxiliary0 (nodes g ! i)) (nd_auxiliary1 (nodes g ! i)) \<noteq> None)"

definition canonical_nodes :: "tig_graph \<Rightarrow> bool" where
  "canonical_nodes g \<longleftrightarrow>
     (\<forall>i < length (nodes g). node_fields_are_canonical (node_op g i) (nodes g ! i))"

definition imports_numbered :: "tig_graph \<Rightarrow> bool" where
  "imports_numbered g \<longleftrightarrow> (\<forall>s < length (g_imports g). unat (imp_import_slot (g_imports g ! s)) = s)"

lemma settled_last_passes:
  assumes "known_codes g"
  shows "settled (verify_referenced_ranges g)" and "settled (verify_canonical_encoding g)"
proof -
  note E = settled_expect_codes(1) [OF assms]
  show "settled (verify_referenced_ranges g)"
    unfolding verify_referenced_ranges_def
    by (intro settled_bindR settled_for_each)
      (auto simp: settled_bindR_iff E split: Opcode.split)
  have "settled (fold_res (\<lambda>expected_first_node block.
         bindR (ensure (\<not> (blk_flags block \<noteq> 0 \<or> blk_first_node block \<noteq> expected_first_node
                             \<or> blk_parameter_count block > 4)) NonCanonicalEncoding) (\<lambda>_.
         ok_or (checked_add_word expected_first_node (blk_node_count block)) NonCanonicalEncoding))
         e bs)" for e bs
    by (induction bs arbitrary: e) (auto simp: settled_bindR_iff)
  then show "settled (verify_canonical_encoding g)"
    unfolding verify_canonical_encoding_def
    by (intro settled_bindR settled_for_each) (auto simp: settled_bindR_iff E)
qed

lemma last_passes_okD:
  assumes "known_codes g"
  shows "verify_referenced_ranges g = Ok u \<Longrightarrow> texts_ok g"
    and "verify_canonical_encoding g = Ok u \<Longrightarrow> canonical_nodes g"
    and "verify_canonical_encoding g = Ok u \<Longrightarrow> imports_numbered g"
proof -
  note E = known_codesD(3) [OF assms]
  show "texts_ok g" if "verify_referenced_ranges g = Ok u"
    using that E by (fastforce simp: verify_referenced_ranges_def texts_ok_def all_set_conv_all_nth)
  show "canonical_nodes g" "imports_numbered g" if "verify_canonical_encoding g = Ok u"
    using that E
    by (simp_all add: verify_canonical_encoding_def canonical_nodes_def imports_numbered_def
        all_set_conv_all_nth bindR_eq_Ok nth_enumerate_eq)
qed

lemma find_import_numbered:
  assumes "imports_numbered g" and "find_import g s = Some imp"
  shows "unat s < length (g_imports g)" and "g_imports g ! unat s = imp"
proof -
  from assms(2) obtain k where "k < length (g_imports g)" "g_imports g ! k = imp" "imp_import_slot imp = s"
    unfolding find_import_def find_Some_iff by auto
  with assms(1) show "unat s < length (g_imports g)" and "g_imports g ! unat s = imp"
    unfolding imports_numbered_def by auto
qed

section \<open>Accepted packages\<close>

definition verified :: "tig_graph \<Rightarrow> bool" where
  "verified g \<longleftrightarrow> verify_package g = Ok g"

lemma verify_package_result: "verify_package g = Ok g' \<Longrightarrow> g' = g \<and> verified g"
  by (auto simp: verify_package_def verified_def)

lemma verifiedE:
  assumes "verified g"
  obtains tb where "cfg_ok g" and "blocks_wf g tb" and "entry_of g < length (blocks g)"
    and "\<forall>b < length (blocks g). reachable_block g b" and "inputs_available g"
    and "\<forall>i < length (nodes g). node_sem g i" and "effect_chain g (effect_nodes g (length (nodes g)))"
    and "texts_ok g" and "canonical_nodes g" and "imports_numbered g"
proof -
  from assms obtain tb where bounds: "graph_bounds g" and kt: "verify_known_types g = Ok ()"
    and ko: "verify_known_opcodes g = Ok ()" and br: "verify_block_ranges g = Ok tb"
    and cf: "verify_control_flow g tb = Ok ()" and re: "verify_reachable_blocks g = Ok ()"
    and va: "verify_value_availability g (bt_node_blocks tb) = Ok ()"
    and se: "verify_semantics g = Ok ()" and rr: "verify_referenced_ranges g = Ok ()"
    and ce: "verify_canonical_encoding g = Ok ()"
    unfolding verified_def verify_package_def graph_bounds_def by auto
  have known: "known_codes g" by (rule verify_known_codes [OF kt ko])
  have wf: "blocks_wf g tb" by (rule verify_block_ranges_wf [OF known bounds br])
  have ok: "cfg_ok g"
    by (rule cfg_okI [OF known bounds wf verify_control_flow_wf [OF known bounds wf cf]])
  have reach: "entry_of g < length (blocks g)" "\<forall>b < length (blocks g). reachable_block g b"
    using re verify_reachable_blocks_iff [OF ok] by auto
  have avail: "inputs_available g"
    using va verify_value_availability_eq [OF ok wf reach(1)] by simp
  show thesis
    by (rule that [OF ok wf reach avail verify_semantics_okD [OF known bounds avail se]
          last_passes_okD(1) [OF known rr] last_passes_okD(2,3) [OF known ce]])
qed

lemma settled_verify_package: "settled (verify_package g)"
proof (cases "graph_bounds g \<and> known_codes g")
  case True
  then have known: "known_codes g" and bounds: "graph_bounds g" by auto
  have "settled (verify_control_flow g tb)"
    "verify_control_flow g tb = Ok () \<Longrightarrow> settled (verify_reachable_blocks g)"
    "verify_control_flow g tb = Ok () \<Longrightarrow> verify_reachable_blocks g = Ok () \<Longrightarrow>
       settled (verify_value_availability g (bt_node_blocks tb))"
    "verify_control_flow g tb = Ok () \<Longrightarrow> verify_reachable_blocks g = Ok () \<Longrightarrow>
       verify_value_availability g (bt_node_blocks tb) = Ok () \<Longrightarrow> settled (verify_semantics g)"
    if "verify_block_ranges g = Ok tb" for tb
  proof -
    have wf: "blocks_wf g tb" by (rule verify_block_ranges_wf [OF known bounds that])
    show "settled (verify_control_flow g tb)" by (rule settled_verify_control_flow [OF known bounds wf])
    assume cf: "verify_control_flow g tb = Ok ()"
    have ok: "cfg_ok g"
      by (rule cfg_okI [OF known bounds wf verify_control_flow_wf [OF known bounds wf cf]])
    then show "settled (verify_reachable_blocks g)" by (rule verify_reachable_blocks_iff)
    assume "verify_reachable_blocks g = Ok ()"
    then have entry: "entry_of g < length (blocks g)" using verify_reachable_blocks_iff [OF ok] by simp
    then show "settled (verify_value_availability g (bt_node_blocks tb))"
      by (rule verify_value_availability_eq [OF ok wf])
    assume "verify_value_availability g (bt_node_blocks tb) = Ok ()"
    then have "inputs_available g" using verify_value_availability_eq [OF ok wf entry] by simp
    then show "settled (verify_semantics g)" by (rule settled_verify_semantics [OF known bounds])
  qed
  then show ?thesis
    unfolding verify_package_def
    by (intro settled_bindR)
      (auto intro: settled_verify_block_ranges [OF known bounds] settled_last_passes [OF known])
next
  case False
  moreover have "known_codes g" if "verify_known_types g = Ok ()" "verify_known_opcodes g = Ok ()"
    using that by (rule verify_known_codes)
  ultimately show ?thesis
    unfolding verify_package_def graph_bounds_def by (auto simp: settled_bindR_iff)
qed

lemma settled_verify_bytes: "settled (verify_bytes bs)"
proof -
  have "settled (package_graph pkg :: (VerifyError, tig_graph) result)" if "decode bs = Ok pkg" for pkg
    using package_graph_of_decoded [OF that, where 'e = VerifyError] by (metis settled_simps(1))
  then show ?thesis
    unfolding verify_bytes_def by (auto simp: settled_bindR_iff settled_verify_package)
qed

end
