(* ===== verification/Tig_Encode.thy ===== *)
theory Tig_Encode
  imports Tig_Semantics
begin

text \<open>
  The back end of the PythTIG compiler: the owned graph of \<open>tools/pythc/src/graph.rs\<close> and its
  encoder \<open>tools/pythc/src/encode.rs\<close>, which writes fields at computed offsets into a zeroed
  buffer. The lemmas give the flat form of the encoder's output and show that decoding it returns
  the graph that was encoded.
\<close>

section \<open>Diagnostics and the owned graph\<close>

record Span =
  span_start :: usize
  span_end :: usize

record Diagnostic =
  diag_code :: string
  diag_message :: string
  diag_span :: Span

definition span_default :: Span where
  "span_default = \<lparr>span_start = 0, span_end = 0\<rparr>"

definition verifier_rejected :: Diagnostic where
  "verifier_rejected = \<lparr>diag_code = ''G0001'',
     diag_message = ''shared verifier rejected compiler output'', diag_span = span_default\<rparr>"

record GraphImport =
  gi_name_offset :: u32
  gi_name_len :: u16
  gi_resource_kind :: u16
  gi_rights :: u64
  gi_expected_type :: PythType
  gi_import_slot :: u16

record GraphBlock =
  gb_block_id :: u32
  gb_first_node :: u32
  gb_node_count :: u32
  gb_parameter_count :: u16
  gb_terminator_node :: u32

record GraphNode =
  gn_opcode :: Opcode
  gn_result_type :: PythType
  gn_block_index :: u16
  gn_inputs :: "u32 \<times> u32 \<times> u32 \<times> u32"
  gn_auxiliary0 :: u32
  gn_auxiliary1 :: u32
  gn_immediate :: u64

record OwnedGraph =
  og_principal_id :: u64
  og_imports :: "GraphImport list"
  og_blocks :: "GraphBlock list"
  og_nodes :: "GraphNode list"
  og_constant_pool :: "u8 list"
  og_string_table :: "u8 list"
  og_loop_budgets :: "u64 list"

definition contains_opcode :: "OwnedGraph \<Rightarrow> Opcode \<Rightarrow> bool" where
  "contains_opcode graph opcode = list_ex (\<lambda>node. gn_opcode node = opcode) (og_nodes graph)"

definition effect_forks :: "OwnedGraph \<Rightarrow> usize" where
  "effect_forks graph =
     (let consumers = fold (\<lambda>node consumers.
            if sig_effectful (signature (gn_opcode node)) \<and> fst (gn_inputs node) \<noteq> NO_VALUE
            then let producer = unat (fst (gn_inputs node)) in
                 if producer < length consumers
                 then consumers[producer := consumers ! producer + 1] else consumers
            else consumers) (og_nodes graph) (replicate (length (og_nodes graph)) (0 :: nat)) in
      sum_list (map (\<lambda>count. count - 1) (filter (\<lambda>count. count > 1) consumers)))"

definition has_back_edge :: "OwnedGraph \<Rightarrow> bool" where
  "has_back_edge graph = list_ex (\<lambda>node.
     case gn_opcode node of
       Jump \<Rightarrow> gn_auxiliary0 node \<le> ucast (gn_block_index node)
     | Branch \<Rightarrow> gn_auxiliary0 node \<le> ucast (gn_block_index node) \<or>
                 gn_auxiliary1 node \<le> ucast (gn_block_index node)
     | _ \<Rightarrow> False) (og_nodes graph)"

section \<open>Writing fields\<close>

definition write_at :: "u8 list \<Rightarrow> usize \<Rightarrow> u8 list \<Rightarrow> ('e, u8 list) result" where
  "write_at bytes offset data =
     (if offset + length data \<le> length bytes
      then Ok (take offset bytes @ data @ drop (offset + length data) bytes) else Panic)"

definition write_u16 :: "u8 list \<Rightarrow> usize \<Rightarrow> u16 \<Rightarrow> ('e, u8 list) result" where
  "write_u16 bytes offset value = write_at bytes offset (to_le_bytes value)"

definition write_u32 :: "u8 list \<Rightarrow> usize \<Rightarrow> u32 \<Rightarrow> ('e, u8 list) result" where
  "write_u32 bytes offset value = write_at bytes offset (to_le_bytes value)"

definition write_u64 :: "u8 list \<Rightarrow> usize \<Rightarrow> u64 \<Rightarrow> ('e, u8 list) result" where
  "write_u64 bytes offset value = write_at bytes offset (to_le_bytes value)"

definition checked_u32 :: "usize \<Rightarrow> (Diagnostic, u32) result" where
  "checked_u32 value = (if value < 2 ^ 32 then Ok (of_nat value) else Err verifier_rejected)"

definition PACKAGE_ID :: u64 where "PACKAGE_ID = 0x5059544854494706"

definition write_counted :: "u8 list \<Rightarrow> usize \<Rightarrow> usize \<Rightarrow> (Diagnostic, u8 list) result" where
  "write_counted bytes offset value =
     bindR (checked_u32 value) (\<lambda>v. write_u32 bytes offset v)"

definition write_header ::
    "u8 list \<Rightarrow> OwnedGraph \<Rightarrow> usize \<Rightarrow> usize \<Rightarrow> usize \<Rightarrow> usize \<Rightarrow> usize \<Rightarrow> usize \<Rightarrow> usize \<Rightarrow> usize \<Rightarrow>
     usize \<Rightarrow> usize \<Rightarrow> usize \<Rightarrow> (Diagnostic, u8 list) result" where
  "write_header bytes graph block_count node_count import_count constant_pool_len string_table_len
     types_offset blocks_offset nodes_offset imports_offset constant_pool_offset
     string_table_offset =
     bindR (write_at bytes 0 PYTH_TIG_MAGIC) (\<lambda>bytes.
     bindR (write_u16 bytes 8 PYTH_TIG_MAJOR) (\<lambda>bytes.
     bindR (write_u16 bytes 10 PYTH_TIG_MINOR) (\<lambda>bytes.
     bindR (write_u64 bytes 16 PACKAGE_ID) (\<lambda>bytes.
     bindR (write_u64 bytes 24 (og_principal_id graph)) (\<lambda>bytes.
     bindR (write_u32 bytes 32 0) (\<lambda>bytes.
     bindR (write_u32 bytes 36 0) (\<lambda>bytes.
     bindR (write_counted bytes 40 block_count) (\<lambda>bytes.
     bindR (write_counted bytes 44 node_count) (\<lambda>bytes.
     bindR (write_counted bytes 48 import_count) (\<lambda>bytes.
     bindR (write_counted bytes 52 constant_pool_len) (\<lambda>bytes.
     bindR (write_counted bytes 56 string_table_len) (\<lambda>bytes.
     bindR (write_counted bytes 60 types_offset) (\<lambda>bytes.
     bindR (write_counted bytes 64 blocks_offset) (\<lambda>bytes.
     bindR (write_counted bytes 68 nodes_offset) (\<lambda>bytes.
     bindR (write_counted bytes 72 imports_offset) (\<lambda>bytes.
     bindR (write_counted bytes 76 constant_pool_offset) (\<lambda>bytes.
     write_counted bytes 80 string_table_offset)))))))))))))))))"

definition write_block :: "u8 list \<Rightarrow> usize \<Rightarrow> GraphBlock \<Rightarrow> ('e, u8 list) result" where
  "write_block bytes offset block =
     bindR (write_u32 bytes offset (gb_block_id block)) (\<lambda>bytes.
     bindR (write_u32 bytes (offset + 4) (gb_first_node block)) (\<lambda>bytes.
     bindR (write_u32 bytes (offset + 8) (gb_node_count block)) (\<lambda>bytes.
     bindR (write_u16 bytes (offset + 12) (gb_parameter_count block)) (\<lambda>bytes.
     bindR (write_u16 bytes (offset + 14) 0) (\<lambda>bytes.
     bindR (write_u32 bytes (offset + 16) (gb_terminator_node block)) (\<lambda>bytes.
     write_u32 bytes (offset + 20) 0))))))"

definition write_node :: "u8 list \<Rightarrow> usize \<Rightarrow> GraphNode \<Rightarrow> ('e, u8 list) result" where
  "write_node bytes offset node =
     (case gn_inputs node of (input0, input1, input2, input3) \<Rightarrow>
     bindR (write_u16 bytes offset (opcode_code (gn_opcode node))) (\<lambda>bytes.
     bindR (write_u16 bytes (offset + 2) (type_code (gn_result_type node))) (\<lambda>bytes.
     bindR (write_u16 bytes (offset + 4) 0) (\<lambda>bytes.
     bindR (write_u16 bytes (offset + 6) (gn_block_index node)) (\<lambda>bytes.
     bindR (write_u32 bytes (offset + 8) input0) (\<lambda>bytes.
     bindR (write_u32 bytes (offset + 12) input1) (\<lambda>bytes.
     bindR (write_u32 bytes (offset + 16) input2) (\<lambda>bytes.
     bindR (write_u32 bytes (offset + 20) input3) (\<lambda>bytes.
     bindR (write_u32 bytes (offset + 24) (gn_auxiliary0 node)) (\<lambda>bytes.
     bindR (write_u32 bytes (offset + 28) (gn_auxiliary1 node)) (\<lambda>bytes.
     write_u64 bytes (offset + 32) (gn_immediate node))))))))))))"

definition write_import :: "u8 list \<Rightarrow> usize \<Rightarrow> GraphImport \<Rightarrow> ('e, u8 list) result" where
  "write_import bytes offset import =
     bindR (write_u32 bytes offset (gi_name_offset import)) (\<lambda>bytes.
     bindR (write_u16 bytes (offset + 4) (gi_name_len import)) (\<lambda>bytes.
     bindR (write_u16 bytes (offset + 6) (gi_resource_kind import)) (\<lambda>bytes.
     bindR (write_u64 bytes (offset + 8) (gi_rights import)) (\<lambda>bytes.
     bindR (write_u16 bytes (offset + 16) (type_code (gi_expected_type import))) (\<lambda>bytes.
     bindR (write_u16 bytes (offset + 18) (gi_import_slot import)) (\<lambda>bytes.
     write_u32 bytes (offset + 20) 0))))))"

definition digest64 :: "u8 list \<Rightarrow> u64" where
  "digest64 bytes =
     fold (\<lambda>(index, byte) hash.
         (hash XOR ucast (if CHECKSUM_OFFSET \<le> index \<and> index < CHECKSUM_END then 0 else byte))
         * 0x100000001B3)
       (enumerate 0 bytes) 0xcbf29ce484222325"

definition refresh_checksum :: "u8 list \<Rightarrow> ('e, u8 list) result" where
  "refresh_checksum bytes =
     bindR (write_u64 bytes CHECKSUM_OFFSET 0) (\<lambda>bytes.
     write_u64 bytes CHECKSUM_OFFSET (digest64 bytes))"

section \<open>Encoding a graph\<close>

definition write_table ::
    "(u8 list \<Rightarrow> usize \<Rightarrow> 'r \<Rightarrow> ('e, u8 list) result) \<Rightarrow> usize \<Rightarrow> usize \<Rightarrow> 'r list \<Rightarrow> u8 list \<Rightarrow>
     ('e, u8 list) result" where
  "write_table write base record_size records bytes =
     fold_res (\<lambda>bytes (index, r). write bytes (base + index * record_size) r) bytes
       (enumerate 0 records)"

text \<open>
  The offsets are computed with unchecked \<open>usize\<close> arithmetic. Each is at most the package length,
  so overflow in any of them is overflow of the package length.
\<close>

definition encode_graph :: "OwnedGraph \<Rightarrow> (Diagnostic, u8 list) result" where
  "encode_graph graph =
     (let type_count = 0;
          block_count = length (og_blocks graph);
          node_count = length (og_nodes graph);
          import_count = length (og_imports graph);
          constant_pool_len = length (og_constant_pool graph);
          string_table_len = length (og_string_table graph);
          types_offset = PYTH_GRAPH_HEADER_SIZE;
          blocks_offset = types_offset + type_count * TYPE_RECORD_SIZE;
          nodes_offset = blocks_offset + block_count * BLOCK_RECORD_SIZE;
          imports_offset = nodes_offset + node_count * NODE_RECORD_SIZE;
          constant_pool_offset = imports_offset + import_count * CAPABILITY_IMPORT_RECORD_SIZE;
          string_table_offset = constant_pool_offset + constant_pool_len;
          package_len = string_table_offset + string_table_len in
     if package_len > USIZE_MAX then Panic else
     bindR (write_header (replicate package_len 0) graph block_count node_count import_count
              constant_pool_len string_table_len types_offset blocks_offset nodes_offset
              imports_offset constant_pool_offset string_table_offset) (\<lambda>bytes.
     bindR (write_table write_block blocks_offset BLOCK_RECORD_SIZE (og_blocks graph) bytes) (\<lambda>bytes.
     bindR (write_table write_node nodes_offset NODE_RECORD_SIZE (og_nodes graph) bytes) (\<lambda>bytes.
     bindR (write_table write_import imports_offset CAPABILITY_IMPORT_RECORD_SIZE
              (og_imports graph) bytes) (\<lambda>bytes.
     bindR (write_at bytes constant_pool_offset (og_constant_pool graph)) (\<lambda>bytes.
     bindR (write_at bytes string_table_offset (og_string_table graph)) (\<lambda>bytes.
     refresh_checksum bytes)))))))"

definition encode_verified_graph :: "OwnedGraph \<Rightarrow> (Diagnostic, u8 list) result" where
  "encode_verified_graph graph =
     bindR (encode_graph graph) (\<lambda>bytes.
     bindR (map_errR (\<lambda>_. verifier_rejected) (decode bytes)) (\<lambda>package.
     bindR (package_graph package) (\<lambda>view.
     bindR (map_errR (\<lambda>_. verifier_rejected) (verify_package view)) (\<lambda>_.
     Ok bytes))))"

section \<open>Buffers as sequences of fields\<close>

lemma write_at_mid:
  "off = length xs \<Longrightarrow> length zs = length d \<Longrightarrow> write_at (xs @ zs @ ys) off d = Ok (xs @ d @ ys)"
  by (simp add: write_at_def)

text \<open>Consecutive fields, and a buffer that consists of them.\<close>

fun write_fields :: "u8 list \<Rightarrow> usize \<Rightarrow> u8 list list \<Rightarrow> ('e, u8 list) result" where
  "write_fields bytes offset [] = Ok bytes"
| "write_fields bytes offset (d # ds) =
     bindR (write_at bytes offset d) (\<lambda>bytes. write_fields bytes (offset + length d) ds)"

definition cat_fields :: "u8 list list \<Rightarrow> u8 list" where
  "cat_fields ds = concat ds"

lemma length_cat_fields: "length (cat_fields ds) = sum_list (map length ds)"
  by (simp add: cat_fields_def length_concat)

lemma write_fields_flat:
  assumes "off = length xs" and "length zs = length (cat_fields ds)"
  shows "write_fields (xs @ zs @ ys) off ds = (Ok (xs @ cat_fields ds @ ys) :: ('e, u8 list) result)"
  using assms
proof (induction ds arbitrary: xs zs off)
  case (Cons d ds)
  have zs: "zs = take (length d) zs @ drop (length d) zs" by simp
  have "write_at (xs @ zs @ ys) off d =
      (Ok (xs @ d @ drop (length d) zs @ ys) :: ('e, u8 list) result)"
    using write_at_mid [of off xs "take (length d) zs" d "drop (length d) zs @ ys"] Cons.prems
    by (simp add: cat_fields_def flip: append_assoc)
  moreover have "write_fields ((xs @ d) @ drop (length d) zs @ ys) (off + length d) ds =
      (Ok ((xs @ d) @ cat_fields ds @ ys) :: ('e, u8 list) result)"
    using Cons.prems by (intro Cons.IH) (simp_all add: cat_fields_def)
  ultimately show ?case by (simp add: cat_fields_def)
qed (simp add: cat_fields_def)

lemma read_field:
  assumes "k < length cs" and "off = sum_list (map length (take k cs))" and "n = length (cs ! k)"
    and "length (cat_fields cs @ rest) \<le> USIZE_MAX"
  shows "read_bytes n (cat_fields cs @ rest) off = Ok (cs ! k)"
proof -
  have "cs = take k cs @ cs ! k # drop (Suc k) cs"
    using assms(1) by (rule id_take_nth_drop)
  then have "cat_fields cs = cat_fields (take k cs @ cs ! k # drop (Suc k) cs)" by simp
  then have split: "cat_fields cs @ rest = cat_fields (take k cs) @ cs ! k @ cat_fields (drop (Suc k) cs) @ rest"
    by (simp add: cat_fields_def)
  have "length (cat_fields (take k cs)) = off"
    by (simp add: length_cat_fields assms(2))
  then show ?thesis
    using assms(3,4) unfolding split by simp
qed

section \<open>The flat form of the records\<close>

definition block_bytes :: "GraphBlock \<Rightarrow> u8 list" where
  "block_bytes b = cat_fields [to_le_bytes (gb_block_id b), to_le_bytes (gb_first_node b),
     to_le_bytes (gb_node_count b), to_le_bytes (gb_parameter_count b), to_le_bytes (0 :: u16),
     to_le_bytes (gb_terminator_node b), to_le_bytes (0 :: u32)]"

definition node_bytes :: "GraphNode \<Rightarrow> u8 list" where
  "node_bytes n = (case gn_inputs n of (i0, i1, i2, i3) \<Rightarrow>
     cat_fields [to_le_bytes (opcode_code (gn_opcode n)), to_le_bytes (type_code (gn_result_type n)),
       to_le_bytes (0 :: u16), to_le_bytes (gn_block_index n), to_le_bytes i0, to_le_bytes i1,
       to_le_bytes i2, to_le_bytes i3, to_le_bytes (gn_auxiliary0 n),
       to_le_bytes (gn_auxiliary1 n), to_le_bytes (gn_immediate n)])"

definition import_bytes :: "GraphImport \<Rightarrow> u8 list" where
  "import_bytes i = cat_fields [to_le_bytes (gi_name_offset i), to_le_bytes (gi_name_len i),
     to_le_bytes (gi_resource_kind i), to_le_bytes (gi_rights i),
     to_le_bytes (type_code (gi_expected_type i)), to_le_bytes (gi_import_slot i),
     to_le_bytes (0 :: u32)]"

lemma length_record_bytes [simp]:
  "length (block_bytes b) = BLOCK_RECORD_SIZE" "length (node_bytes n) = NODE_RECORD_SIZE"
  "length (import_bytes i) = CAPABILITY_IMPORT_RECORD_SIZE"
  by (simp_all add: block_bytes_def node_bytes_def import_bytes_def tig_sizes length_cat_fields
      split: prod.split)

lemmas write_defs = write_u16_def write_u32_def write_u64_def

lemma bindR_assoc: "bindR (bindR r f) g = bindR r (\<lambda>x. bindR (f x) g)"
  by (cases r) simp_all

lemma bindR_Ok_right [simp]: "bindR r Ok = r"
  by (cases r) simp_all

lemma write_block_fields:
  "write_block bs off b = write_fields bs off
     [to_le_bytes (gb_block_id b), to_le_bytes (gb_first_node b),
     to_le_bytes (gb_node_count b), to_le_bytes (gb_parameter_count b), to_le_bytes (0 :: u16),
     to_le_bytes (gb_terminator_node b), to_le_bytes (0 :: u32)]"
  by (simp add: write_block_def write_defs add.commute [of off] del: add_2_eq_Suc add_2_eq_Suc')

lemma write_node_fields:
  "gn_inputs n = (i0, i1, i2, i3) \<Longrightarrow> write_node bs off n = write_fields bs off
     [to_le_bytes (opcode_code (gn_opcode n)), to_le_bytes (type_code (gn_result_type n)),
       to_le_bytes (0 :: u16), to_le_bytes (gn_block_index n), to_le_bytes i0, to_le_bytes i1,
       to_le_bytes i2, to_le_bytes i3, to_le_bytes (gn_auxiliary0 n),
       to_le_bytes (gn_auxiliary1 n), to_le_bytes (gn_immediate n)]"
  by (simp add: write_node_def write_defs add.commute [of off] del: add_2_eq_Suc add_2_eq_Suc')

lemma write_import_fields:
  "write_import bs off i = write_fields bs off
     [to_le_bytes (gi_name_offset i), to_le_bytes (gi_name_len i),
     to_le_bytes (gi_resource_kind i), to_le_bytes (gi_rights i),
     to_le_bytes (type_code (gi_expected_type i)), to_le_bytes (gi_import_slot i),
     to_le_bytes (0 :: u32)]"
  by (simp add: write_import_def write_defs add.commute [of off] del: add_2_eq_Suc add_2_eq_Suc')

text \<open>
  The contract between a record writer and its table: the writer fills exactly the bytes of one
  record, so the loop over the table lays the records side by side.
\<close>

locale record_writer =
  fixes put :: "u8 list \<Rightarrow> usize \<Rightarrow> 'r \<Rightarrow> (Diagnostic, u8 list) result"
    and encoded :: "'r \<Rightarrow> u8 list"
    and rsize :: usize
  assumes length_encoded: "length (encoded r) = rsize"
    and write_flat: "length zs = rsize \<Longrightarrow>
      put (xs @ zs @ ys) (length xs) r = Ok (xs @ encoded r @ ys)"
begin

lemma length_table: "length (concat (map encoded rs)) = length rs * rsize"
  by (induction rs) (simp_all add: length_encoded)

lemma write_table_from:
  assumes "length zs = length rs * rsize" and "length xs = base + n * rsize"
  shows "fold_res (\<lambda>bytes (index, r). put bytes (base + index * rsize) r) (xs @ zs @ ys)
           (enumerate n rs) = Ok (xs @ concat (map encoded rs) @ ys)"
  using assms
proof (induction rs arbitrary: n xs zs)
  case (Cons r rs)
  have "put (xs @ take rsize zs @ drop rsize zs @ ys) (length xs) r =
      Ok (xs @ encoded r @ drop rsize zs @ ys)"
    using Cons.prems(1) by (intro write_flat) simp
  then have "put (xs @ zs @ ys) (base + n * rsize) r = Ok (xs @ encoded r @ drop rsize zs @ ys)"
    using Cons.prems(2) by (simp flip: append_assoc)
  moreover have "fold_res (\<lambda>bytes (index, r). put bytes (base + index * rsize) r)
      ((xs @ encoded r) @ drop rsize zs @ ys) (enumerate (Suc n) rs) =
      Ok ((xs @ encoded r) @ concat (map encoded rs) @ ys)"
    using Cons.prems by (intro Cons.IH) (simp_all add: length_encoded)
  ultimately show ?case by simp
qed simp

lemma write_table_flat:
  assumes "length zs = length rs * rsize" and "base = length xs"
  shows "write_table put base rsize rs (xs @ zs @ ys) =
         Ok (xs @ concat (map encoded rs) @ ys)"
  using write_table_from [where n = 0, OF assms(1)] assms(2) by (simp add: write_table_def)

end

interpretation block_writer: record_writer write_block block_bytes BLOCK_RECORD_SIZE
  by unfold_locales
    (simp_all add: write_block_fields block_bytes_def write_fields_flat length_cat_fields tig_sizes
      del: write_fields.simps)

interpretation node_writer: record_writer write_node node_bytes NODE_RECORD_SIZE
proof
  fix xs zs ys :: "u8 list" and n
  assume "length zs = NODE_RECORD_SIZE"
  then show "write_node (xs @ zs @ ys) (length xs) n = Ok (xs @ node_bytes n @ ys)"
    by (cases "gn_inputs n")
      (simp add: write_node_fields node_bytes_def write_fields_flat length_cat_fields tig_sizes
        del: write_fields.simps)
qed simp

interpretation import_writer: record_writer write_import import_bytes CAPABILITY_IMPORT_RECORD_SIZE
  by unfold_locales
    (simp_all add: write_import_fields import_bytes_def write_fields_flat length_cat_fields tig_sizes
      del: write_fields.simps)

section \<open>The flat form of a package\<close>

definition blocks_at :: "OwnedGraph \<Rightarrow> nat" where
  "blocks_at G = PYTH_GRAPH_HEADER_SIZE"
definition nodes_at :: "OwnedGraph \<Rightarrow> nat" where
  "nodes_at G = blocks_at G + length (og_blocks G) * BLOCK_RECORD_SIZE"
definition imports_at :: "OwnedGraph \<Rightarrow> nat" where
  "imports_at G = nodes_at G + length (og_nodes G) * NODE_RECORD_SIZE"
definition pool_at :: "OwnedGraph \<Rightarrow> nat" where
  "pool_at G = imports_at G + length (og_imports G) * CAPABILITY_IMPORT_RECORD_SIZE"
definition strings_at :: "OwnedGraph \<Rightarrow> nat" where
  "strings_at G = pool_at G + length (og_constant_pool G)"
definition package_len :: "OwnedGraph \<Rightarrow> nat" where
  "package_len G = strings_at G + length (og_string_table G)"

lemmas layout_defs =
  blocks_at_def nodes_at_def imports_at_def pool_at_def strings_at_def package_len_def

abbreviation u32_field :: "nat \<Rightarrow> u8 list" where
  "u32_field n \<equiv> to_le_bytes (of_nat n :: u32)"

definition header_fields :: "OwnedGraph \<Rightarrow> u8 list list" where
  "header_fields G = [to_le_bytes PACKAGE_ID, to_le_bytes (og_principal_id G),
     to_le_bytes (0 :: u32), to_le_bytes (0 :: u32), u32_field (length (og_blocks G)),
     u32_field (length (og_nodes G)), u32_field (length (og_imports G)),
     u32_field (length (og_constant_pool G)), u32_field (length (og_string_table G)),
     u32_field PYTH_GRAPH_HEADER_SIZE, u32_field (blocks_at G), u32_field (nodes_at G),
     u32_field (imports_at G), u32_field (pool_at G), u32_field (strings_at G)]"

definition version_fields :: "u8 list list" where
  "version_fields = [PYTH_TIG_MAGIC, to_le_bytes PYTH_TIG_MAJOR, to_le_bytes PYTH_TIG_MINOR]"

definition header_bytes :: "OwnedGraph \<Rightarrow> u64 \<Rightarrow> u8 list" where
  "header_bytes G c = cat_fields (version_fields @ to_le_bytes (0 :: u32) # header_fields G @
     [to_le_bytes c, to_le_bytes (0 :: u32)])"

definition body_bytes :: "OwnedGraph \<Rightarrow> u8 list" where
  "body_bytes G = concat (map block_bytes (og_blocks G)) @ concat (map node_bytes (og_nodes G)) @
     concat (map import_bytes (og_imports G)) @ og_constant_pool G @ og_string_table G"

definition flat_bytes :: "OwnedGraph \<Rightarrow> u8 list" where
  "flat_bytes G =
     header_bytes G (package_checksum (header_bytes G 0 @ body_bytes G)) @ body_bytes G"

definition fits_u32 :: "OwnedGraph \<Rightarrow> bool" where
  "fits_u32 G \<longleftrightarrow> package_len G < 2 ^ 32"

lemma le_bytes_of_zero: "le_bytes_of k 0 = replicate k 0"
  by (induction k) simp_all

lemma to_le_bytes_zero: "to_le_bytes (0 :: 'w::len word) = replicate (LENGTH('w) div 8) 0"
  by (simp add: to_le_bytes_def le_bytes_of_zero)

lemma length_magic [simp]: "length PYTH_TIG_MAGIC = 8"
  by (simp add: PYTH_TIG_MAGIC_def)

lemma length_header_fields:
  "length (cat_fields version_fields) = 12" "length (cat_fields (header_fields G)) = 68"
  by (simp_all add: version_fields_def header_fields_def length_cat_fields)

lemma cat_fields_append: "cat_fields (xs @ ys) = cat_fields xs @ cat_fields ys"
  by (simp add: cat_fields_def)

lemma cat_fields_simps: "cat_fields [] = []" "cat_fields (x # xs) = x @ cat_fields xs"
  by (simp_all add: cat_fields_def)

lemma length_header_bytes [simp]: "length (header_bytes G c) = PYTH_GRAPH_HEADER_SIZE"
  by (simp add: header_bytes_def cat_fields_append cat_fields_simps length_header_fields tig_sizes)

lemma length_body_bytes: "PYTH_GRAPH_HEADER_SIZE + length (body_bytes G) = package_len G"
  by (simp only: body_bytes_def layout_defs length_append block_writer.length_table
      node_writer.length_table import_writer.length_table add.assoc)

lemma write_header_fields:
  assumes "fits_u32 G"
  shows "write_header bs G (length (og_blocks G)) (length (og_nodes G)) (length (og_imports G))
      (length (og_constant_pool G)) (length (og_string_table G)) PYTH_GRAPH_HEADER_SIZE (blocks_at G)
      (nodes_at G) (imports_at G) (pool_at G) (strings_at G) =
    bindR (write_fields bs 0 version_fields) (\<lambda>bs. write_fields bs 16 (header_fields G))"
proof -
  have c: "write_counted bs off n = write_at bs off (u32_field n)" if "n \<le> package_len G" for bs off n
    using that assms by (simp add: write_counted_def checked_u32_def fits_u32_def write_u32_def)
  have "length (og_blocks G) \<le> package_len G" "length (og_nodes G) \<le> package_len G"
    "length (og_imports G) \<le> package_len G" "length (og_constant_pool G) \<le> package_len G"
    "length (og_string_table G) \<le> package_len G" "PYTH_GRAPH_HEADER_SIZE \<le> package_len G"
    "blocks_at G \<le> package_len G" "nodes_at G \<le> package_len G" "imports_at G \<le> package_len G"
    "pool_at G \<le> package_len G" "strings_at G \<le> package_len G"
    by (simp_all add: layout_defs tig_sizes)
  then show ?thesis
    by (simp add: write_header_def c version_fields_def header_fields_def bindR_assoc write_u16_def
        write_u64_def write_u32_def)
qed

lemma digest64_eq: "digest64 bs = package_checksum bs"
  by (simp add: digest64_def package_checksum_def)

lemma fold_hash_masked:
  fixes h :: u64
  assumes "length c = length c'" and "84 \<le> n" and "n + length c \<le> 92"
  shows "fold (\<lambda>(index, byte) hash.
         (hash XOR ucast (if CHECKSUM_OFFSET \<le> index \<and> index < CHECKSUM_END then 0 else byte :: u8))
         * 0x100000001B3) (enumerate n c) h =
       fold (\<lambda>(index, byte) hash.
         (hash XOR ucast (if CHECKSUM_OFFSET \<le> index \<and> index < CHECKSUM_END then 0 else byte :: u8))
         * 0x100000001B3) (enumerate n c') h"
  using assms
  by (induction c c' arbitrary: n h rule: list_induct2)
    (simp_all add: CHECKSUM_OFFSET_def CHECKSUM_END_def)

lemma package_checksum_masked:
  assumes "length xs = 84" and "length c = 8" and "length c' = 8"
  shows "package_checksum (xs @ c @ ys) = package_checksum (xs @ c' @ ys)"
  using fold_hash_masked [of c c' 84] assms
  by (simp add: package_checksum_def enumerate_append_eq)

lemma header_bytes_zero:
  "header_bytes G 0 = cat_fields version_fields @ replicate 4 0 @ cat_fields (header_fields G) @
     replicate 12 0"
  by (simp add: header_bytes_def cat_fields_append cat_fields_simps to_le_bytes_zero
      flip: replicate_add)

lemma write_header_flat:
  assumes "fits_u32 G" and "length zs = PYTH_GRAPH_HEADER_SIZE" and "zs = replicate 96 0"
  shows "bindR (write_fields (zs @ ys) 0 version_fields) (\<lambda>bs. write_fields bs 16 (header_fields G)) =
    (Ok (header_bytes G 0 @ ys) :: (Diagnostic, u8 list) result)"
proof -
  have zs: "zs = replicate 12 0 @ replicate 4 0 @ replicate 68 0 @ replicate 12 0"
    by (simp add: assms(3) flip: replicate_add)
  have "write_fields (zs @ ys) 0 version_fields =
      (Ok ([] @ cat_fields version_fields @ replicate 4 0 @ replicate 68 0 @ replicate 12 0 @ ys) ::
        (Diagnostic, u8 list) result)"
    using write_fields_flat [of 0 "[]" "replicate 12 0" version_fields]
    by (simp add: zs length_header_fields)
  moreover have "write_fields ((cat_fields version_fields @ replicate 4 0) @ replicate 68 0 @
        replicate 12 0 @ ys) 16 (header_fields G) =
      (Ok ((cat_fields version_fields @ replicate 4 0) @ cat_fields (header_fields G) @
        replicate 12 0 @ ys) :: (Diagnostic, u8 list) result)"
    by (rule write_fields_flat) (simp_all add: length_header_fields)
  ultimately show ?thesis by (simp add: header_bytes_zero)
qed

lemma refresh_checksum_flat:
  "refresh_checksum (header_bytes G 0 @ ys) =
     (Ok (header_bytes G (package_checksum (header_bytes G 0 @ ys)) @ ys) ::
       (Diagnostic, u8 list) result)"
proof -
  let ?pre = "cat_fields (version_fields @ to_le_bytes (0 :: u32) # header_fields G)"
  have hdr: "header_bytes G c @ ys = ?pre @ to_le_bytes c @ to_le_bytes (0 :: u32) @ ys" for c ys
    by (simp add: header_bytes_def cat_fields_append cat_fields_simps)
  have len: "length ?pre = CHECKSUM_OFFSET"
    by (simp add: cat_fields_append cat_fields_simps length_header_fields CHECKSUM_OFFSET_def)
  have "write_u64 (header_bytes G 0 @ ys) CHECKSUM_OFFSET c =
      (Ok (header_bytes G c @ ys) :: (Diagnostic, u8 list) result)" for c
    unfolding hdr write_u64_def using len by (intro write_at_mid) simp_all
  then show ?thesis by (simp add: refresh_checksum_def digest64_eq)
qed

lemma encode_graph_flat:
  assumes "fits_u32 G"
  shows "encode_graph G = Ok (flat_bytes G)"
proof -
  let ?z = "\<lambda>n. replicate n (0 :: u8)"
  let ?nb = "length (og_blocks G) * BLOCK_RECORD_SIZE"
  let ?nn = "length (og_nodes G) * NODE_RECORD_SIZE"
  let ?ni = "length (og_imports G) * CAPABILITY_IMPORT_RECORD_SIZE"
  let ?nc = "length (og_constant_pool G)"
  let ?ns = "length (og_string_table G)"
  let ?h = "header_bytes G 0"
  let ?b = "concat (map block_bytes (og_blocks G))"
  let ?n = "concat (map node_bytes (og_nodes G))"
  let ?i = "concat (map import_bytes (og_imports G))"
  have zeros: "?z (package_len G) = ?z 96 @ ?z ?nb @ ?z ?nn @ ?z ?ni @ ?z ?nc @ ?z ?ns"
    by (simp add: layout_defs tig_sizes flip: replicate_add)
  have offs: "blocks_at G = length ?h" "nodes_at G = length (?h @ ?b)"
    "imports_at G = length (?h @ ?b @ ?n)" "pool_at G = length (?h @ ?b @ ?n @ ?i)"
    "strings_at G = length (?h @ ?b @ ?n @ ?i @ og_constant_pool G)"
    by (simp_all only: layout_defs length_append block_writer.length_table
        node_writer.length_table import_writer.length_table length_header_bytes add.assoc)
  have H: "bindR (write_fields (?z (package_len G)) 0 version_fields)
      (\<lambda>bs. write_fields bs 16 (header_fields G)) =
      (Ok (?h @ ?z ?nb @ ?z ?nn @ ?z ?ni @ ?z ?nc @ ?z ?ns) :: (Diagnostic, u8 list) result)"
    unfolding zeros by (rule write_header_flat [OF assms]) (simp_all add: tig_sizes)
  have B: "write_table write_block (blocks_at G) BLOCK_RECORD_SIZE (og_blocks G)
      (?h @ ?z ?nb @ ?z ?nn @ ?z ?ni @ ?z ?nc @ ?z ?ns) =
      (Ok (?h @ ?b @ ?z ?nn @ ?z ?ni @ ?z ?nc @ ?z ?ns) :: (Diagnostic, u8 list) result)"
    by (rule block_writer.write_table_flat) (simp_all add: offs)
  have N: "write_table write_node (nodes_at G) NODE_RECORD_SIZE (og_nodes G)
      (?h @ ?b @ ?z ?nn @ ?z ?ni @ ?z ?nc @ ?z ?ns) =
      (Ok (?h @ ?b @ ?n @ ?z ?ni @ ?z ?nc @ ?z ?ns) :: (Diagnostic, u8 list) result)"
    using node_writer.write_table_flat [where xs = "?h @ ?b" and zs = "?z ?nn"] offs(2) by simp
  have I: "write_table write_import (imports_at G) CAPABILITY_IMPORT_RECORD_SIZE (og_imports G)
      (?h @ ?b @ ?n @ ?z ?ni @ ?z ?nc @ ?z ?ns) =
      (Ok (?h @ ?b @ ?n @ ?i @ ?z ?nc @ ?z ?ns) :: (Diagnostic, u8 list) result)"
    using import_writer.write_table_flat [where xs = "?h @ ?b @ ?n" and zs = "?z ?ni"] offs(3)
    by simp
  have C: "write_at (?h @ ?b @ ?n @ ?i @ ?z ?nc @ ?z ?ns) (pool_at G) (og_constant_pool G) =
      (Ok (?h @ ?b @ ?n @ ?i @ og_constant_pool G @ ?z ?ns) :: (Diagnostic, u8 list) result)"
    using write_at_mid [OF offs(4), of "?z ?nc" "og_constant_pool G"] by simp
  have S: "write_at (?h @ ?b @ ?n @ ?i @ og_constant_pool G @ ?z ?ns) (strings_at G)
      (og_string_table G) = (Ok (?h @ body_bytes G) :: (Diagnostic, u8 list) result)"
    using write_at_mid [OF offs(5), of "?z ?ns" "og_string_table G" "[]"] by (simp add: body_bytes_def)
  have "encode_graph G = bindR (bindR (write_fields (?z (package_len G)) 0 version_fields)
      (\<lambda>bs. write_fields bs 16 (header_fields G))) (\<lambda>bytes.
     bindR (write_table write_block (blocks_at G) BLOCK_RECORD_SIZE (og_blocks G) bytes) (\<lambda>bytes.
     bindR (write_table write_node (nodes_at G) NODE_RECORD_SIZE (og_nodes G) bytes) (\<lambda>bytes.
     bindR (write_table write_import (imports_at G) CAPABILITY_IMPORT_RECORD_SIZE
              (og_imports G) bytes) (\<lambda>bytes.
     bindR (write_at bytes (pool_at G) (og_constant_pool G)) (\<lambda>bytes.
     bindR (write_at bytes (strings_at G) (og_string_table G)) refresh_checksum)))))"
    unfolding write_header_fields [OF assms, symmetric] using assms
    by (simp add: encode_graph_def Let_def layout_defs fits_u32_def USIZE_MAX_def)
  then show ?thesis
    by (simp only: H B N I C S bindR.simps refresh_checksum_flat flat_bytes_def)
qed

section \<open>Reading the records back\<close>

definition block_record :: "GraphBlock \<Rightarrow> BlockRecord" where
  "block_record b = \<lparr>blk_block_id = gb_block_id b, blk_first_node = gb_first_node b,
     blk_node_count = gb_node_count b, blk_parameter_count = gb_parameter_count b, blk_flags = 0,
     blk_terminator_node = gb_terminator_node b, blk_reserved = 0\<rparr>"

definition node_record :: "GraphNode \<Rightarrow> NodeRecord" where
  "node_record n = (case gn_inputs n of (i0, i1, i2, i3) \<Rightarrow>
     \<lparr>nd_opcode = opcode_code (gn_opcode n), nd_result_type = type_code (gn_result_type n),
      nd_flags = 0, nd_block_index = gn_block_index n, nd_input0 = i0, nd_input1 = i1,
      nd_input2 = i2, nd_input3 = i3, nd_auxiliary0 = gn_auxiliary0 n,
      nd_auxiliary1 = gn_auxiliary1 n, nd_immediate = gn_immediate n\<rparr>)"

definition import_record :: "GraphImport \<Rightarrow> CapabilityImportRecord" where
  "import_record i = \<lparr>imp_name_offset = gi_name_offset i, imp_name_len = gi_name_len i,
     imp_resource_kind = gi_resource_kind i, imp_rights = gi_rights i,
     imp_expected_type = type_code (gi_expected_type i), imp_import_slot = gi_import_slot i,
     imp_reserved = 0\<rparr>"

lemmas read_record_field = read_field [where rest = "[]", unfolded append_Nil2]

lemma decode_block_bytes: "decode_block_record (block_bytes b) 0 = Ok (block_record b)"
  unfolding decode_block_record_def block_bytes_def read_u16_def read_u32_def
  by (simp add: read_record_field [of 0] read_record_field [of 1] read_record_field [of 2]
      read_record_field [of 3] read_record_field [of 4] read_record_field [of 5]
      read_record_field [of 6] length_cat_fields USIZE_MAX_def block_record_def
      del: read_bytes_eq_Ok bindR_eq_Ok)

lemma decode_import_bytes: "decode_capability_import_record (import_bytes i) 0 = Ok (import_record i)"
  unfolding decode_capability_import_record_def import_bytes_def read_u16_def read_u32_def read_u64_def
  by (simp add: read_record_field [of 0] read_record_field [of 1] read_record_field [of 2]
      read_record_field [of 3] read_record_field [of 4] read_record_field [of 5]
      read_record_field [of 6] length_cat_fields USIZE_MAX_def import_record_def
      del: read_bytes_eq_Ok bindR_eq_Ok)

lemma decode_node_bytes: "decode_node_record (node_bytes n) 0 = Ok (node_record n)"
proof -
  obtain i0 i1 i2 i3 where "gn_inputs n = (i0, i1, i2, i3)" by (rule prod_cases4)
  then show ?thesis
    unfolding decode_node_record_def node_bytes_def read_u16_def read_u32_def read_u64_def
    by (simp add: read_record_field [of 0] read_record_field [of 1] read_record_field [of 2]
        read_record_field [of 3] read_record_field [of 4] read_record_field [of 5]
        read_record_field [of 6] read_record_field [of 7] read_record_field [of 8]
        read_record_field [of 9] read_record_field [of 10]
        length_cat_fields USIZE_MAX_def node_record_def
        del: read_bytes_eq_Ok bindR_eq_Ok)
qed

text \<open>A table that was written record by record is read back as the same records.\<close>

locale record_codec =
  table: record_table get rsize + writer: record_writer put encoded rsize
  for get :: "u8 list \<Rightarrow> usize \<Rightarrow> 'd option" and rsize :: usize
    and put :: "u8 list \<Rightarrow> usize \<Rightarrow> 'r \<Rightarrow> (Diagnostic, u8 list) result"
    and encoded :: "'r \<Rightarrow> u8 list" +
  fixes decoded :: "'r \<Rightarrow> 'd"
  assumes get_encoded: "length (xs @ encoded r @ ys) \<le> USIZE_MAX \<Longrightarrow> length xs = i * rsize \<Longrightarrow>
    get (xs @ encoded r @ ys) i = Some (decoded r)"
begin

lemma get_table:
  assumes "length (concat (map encoded rs)) \<le> USIZE_MAX" and "i < length rs"
  shows "get (concat (map encoded rs)) i = Some (decoded (rs ! i))"
proof -
  have "rs = take i rs @ rs ! i # drop (Suc i) rs"
    using assms(2) by (rule id_take_nth_drop)
  then have "concat (map encoded rs) =
      concat (map encoded (take i rs @ rs ! i # drop (Suc i) rs))"
    by simp
  then have split: "concat (map encoded rs) = concat (map encoded (take i rs)) @ encoded (rs ! i) @
      concat (map encoded (drop (Suc i) rs))"
    by simp
  show ?thesis
    using assms unfolding split by (intro get_encoded) (simp_all add: writer.length_table)
qed

lemma iter_table:
  assumes "length (concat (map encoded rs)) \<le> USIZE_MAX"
  shows "iter_records (get (concat (map encoded rs)))
           (Suc (length (concat (map encoded rs)) div rsize)) 0 = map decoded rs"
proof -
  have n: "length (concat (map encoded rs)) div rsize = length rs"
    using table.size_pos by (simp add: writer.length_table)
  have "map (\<lambda>i. the (get (concat (map encoded rs)) i)) [0..<length rs] = map decoded rs"
    using get_table [OF assms] by (intro nth_equalityI) simp_all
  then show ?thesis using table.iter_eq [OF assms] by (simp add: n)
qed

end

lemma record_bytes_mid:
  assumes "length (xs @ r @ ys) \<le> USIZE_MAX" and "length xs = i * rsize" and "length r = rsize"
  shows "record_bytes (xs @ r @ ys) i rsize = Some r"
  using assms by (simp add: record_bytes_def checked_mul_usize_def checked_add_usize_def slice_get_def)

interpretation block_codec: record_codec block_get BLOCK_RECORD_SIZE write_block block_bytes block_record
  by unfold_locales (simp add: block_get_def record_bytes_mid decode_block_bytes)

interpretation node_codec: record_codec node_get NODE_RECORD_SIZE write_node node_bytes node_record
  by unfold_locales (simp add: node_get_def record_bytes_mid decode_node_bytes)

interpretation import_codec: record_codec import_get CAPABILITY_IMPORT_RECORD_SIZE write_import
    import_bytes import_record
  by unfold_locales (simp add: import_get_def record_bytes_mid decode_import_bytes)

section \<open>Decoding an encoded graph\<close>

definition graph_header :: "OwnedGraph \<Rightarrow> u64 \<Rightarrow> PythGraphHeader" where
  "graph_header G c = \<lparr>hdr_magic = PYTH_TIG_MAGIC, hdr_major = PYTH_TIG_MAJOR,
     hdr_minor = PYTH_TIG_MINOR, hdr_flags = 0, hdr_package_id = PACKAGE_ID,
     hdr_principal_id = og_principal_id G, hdr_entry_block = 0, hdr_type_count = 0,
     hdr_block_count = of_nat (length (og_blocks G)), hdr_node_count = of_nat (length (og_nodes G)),
     hdr_import_count = of_nat (length (og_imports G)),
     hdr_constant_pool_len = of_nat (length (og_constant_pool G)),
     hdr_string_table_len = of_nat (length (og_string_table G)),
     hdr_types_offset = of_nat PYTH_GRAPH_HEADER_SIZE, hdr_blocks_offset = of_nat (blocks_at G),
     hdr_nodes_offset = of_nat (nodes_at G), hdr_imports_offset = of_nat (imports_at G),
     hdr_constant_pool_offset = of_nat (pool_at G),
     hdr_string_table_offset = of_nat (strings_at G), hdr_checksum = c, hdr_reserved = 0\<rparr>"

definition graph_view :: "OwnedGraph \<Rightarrow> u64 \<Rightarrow> tig_graph" where
  "graph_view G c = \<lparr>header = graph_header G c, types = [],
     blocks = map block_record (og_blocks G), nodes = map node_record (og_nodes G),
     g_imports = map import_record (og_imports G), constant_pool = og_constant_pool G,
     string_table = og_string_table G\<rparr>"

definition owned_limits :: "OwnedGraph \<Rightarrow> bool" where
  "owned_limits G \<longleftrightarrow>
     length (og_blocks G) \<le> MAX_BLOCKS \<and> length (og_nodes G) \<le> MAX_GRAPH_NODES \<and>
     length (og_imports G) \<le> MAX_CAPABILITY_IMPORTS \<and>
     length (og_constant_pool G) \<le> MAX_CONSTANT_POOL_BYTES \<and>
     length (og_string_table G) \<le> MAX_STRING_TABLE_BYTES"

lemma read_header_flat:
  assumes "length (header_bytes G c @ rest) \<le> USIZE_MAX"
  shows "read_header (header_bytes G c @ rest) = Ok (graph_header G c)"
proof -
  note rf = read_field [of _ "version_fields @ to_le_bytes (0 :: u32) # header_fields G @
      [to_le_bytes c, to_le_bytes (0 :: u32)]", OF _ _ _ assms [unfolded header_bytes_def],
      folded header_bytes_def]
  show ?thesis
    unfolding read_header_def read_u16_def read_u32_def read_u64_def read_magic_def
    by (simp add: rf [of 0] rf [of 1] rf [of 2] rf [of 3] rf [of 4] rf [of 5] rf [of 6]
        rf [of 7] rf [of 8] rf [of 9] rf [of 10] rf [of 11] rf [of 12] rf [of 13] rf [of 14]
        rf [of 15] rf [of 16] rf [of 17] rf [of 18] rf [of 19] rf [of 20]
        version_fields_def header_fields_def CHECKSUM_OFFSET_def CHECKSUM_END_def graph_header_def
        del: read_bytes_eq_Ok bindR_eq_Ok)
qed

lemma owned_limits_len:
  assumes "owned_limits G"
  shows "package_len G \<le> MAX_PACKAGE_BYTES" and "fits_u32 G"
    and "n \<le> package_len G \<Longrightarrow> unat (of_nat n :: u32) = n"
proof -
  show len: "package_len G \<le> MAX_PACKAGE_BYTES"
    using assms by (simp add: owned_limits_def tig_limits tig_sizes layout_defs)
  then show "fits_u32 G" by (simp add: fits_u32_def MAX_PACKAGE_BYTES_def)
  show "unat (of_nat n :: u32) = n" if "n \<le> package_len G"
    using that len by (simp add: MAX_PACKAGE_BYTES_def unat_of_nat)
qed

lemma unat_layout:
  assumes "owned_limits G"
  shows "unat (hdr_type_count (graph_header G c)) = 0"
    and "unat (hdr_block_count (graph_header G c)) = length (og_blocks G)"
    and "unat (hdr_node_count (graph_header G c)) = length (og_nodes G)"
    and "unat (hdr_import_count (graph_header G c)) = length (og_imports G)"
    and "unat (hdr_constant_pool_len (graph_header G c)) = length (og_constant_pool G)"
    and "unat (hdr_string_table_len (graph_header G c)) = length (og_string_table G)"
    and "unat (hdr_types_offset (graph_header G c)) = PYTH_GRAPH_HEADER_SIZE"
    and "unat (hdr_blocks_offset (graph_header G c)) = blocks_at G"
    and "unat (hdr_nodes_offset (graph_header G c)) = nodes_at G"
    and "unat (hdr_imports_offset (graph_header G c)) = imports_at G"
    and "unat (hdr_constant_pool_offset (graph_header G c)) = pool_at G"
    and "unat (hdr_string_table_offset (graph_header G c)) = strings_at G"
proof -
  have "length (og_blocks G) \<le> package_len G" "length (og_nodes G) \<le> package_len G"
    "length (og_imports G) \<le> package_len G" "length (og_constant_pool G) \<le> package_len G"
    "length (og_string_table G) \<le> package_len G" "PYTH_GRAPH_HEADER_SIZE \<le> package_len G"
    "blocks_at G \<le> package_len G" "nodes_at G \<le> package_len G" "imports_at G \<le> package_len G"
    "pool_at G \<le> package_len G" "strings_at G \<le> package_len G"
    by (simp_all add: layout_defs tig_sizes)
  note le = this [THEN owned_limits_len(3) [OF assms]]
  show "unat (hdr_type_count (graph_header G c)) = 0"
    "unat (hdr_block_count (graph_header G c)) = length (og_blocks G)"
    "unat (hdr_node_count (graph_header G c)) = length (og_nodes G)"
    "unat (hdr_import_count (graph_header G c)) = length (og_imports G)"
    "unat (hdr_constant_pool_len (graph_header G c)) = length (og_constant_pool G)"
    "unat (hdr_string_table_len (graph_header G c)) = length (og_string_table G)"
    "unat (hdr_types_offset (graph_header G c)) = PYTH_GRAPH_HEADER_SIZE"
    "unat (hdr_blocks_offset (graph_header G c)) = blocks_at G"
    "unat (hdr_nodes_offset (graph_header G c)) = nodes_at G"
    "unat (hdr_imports_offset (graph_header G c)) = imports_at G"
    "unat (hdr_constant_pool_offset (graph_header G c)) = pool_at G"
    "unat (hdr_string_table_offset (graph_header G c)) = strings_at G"
    unfolding graph_header_def PythGraphHeader.simps le by (rule unat_0 refl)+
qed

lemma length_flat: "length (header_bytes G c @ body_bytes G) = package_len G"
  using length_body_bytes [of G] by simp

lemma record_reserved_flat:
  assumes table: "bs = xs @ concat (map enc rs) @ ys" and base: "length xs = fst rng"
    and len: "\<And>r. length (enc r) = rsize"
    and zero: "\<And>r. take 4 (drop off (enc r)) = to_le_bytes (0 :: u32)"
    and fit: "off + 4 \<le> rsize" and bound: "length bs \<le> USIZE_MAX"
  shows "validate_record_reserved bs rng (length rs) rsize off = Ok ()"
proof -
  have field: "read_u32 bs (fst rng + i * rsize + off) = Ok 0"
    if "i < length rs" for i
  proof -
    have "rs = take i rs @ rs ! i # drop (Suc i) rs"
      using that by (rule id_take_nth_drop)
    then have "concat (map enc rs) = concat (map enc (take i rs @ rs ! i # drop (Suc i) rs))"
      by simp
    then have split: "bs = (xs @ concat (map enc (take i rs))) @ enc (rs ! i) @
        concat (map enc (drop (Suc i) rs)) @ ys"
      using table by simp
    have pre: "length (xs @ concat (map enc (take i rs))) = fst rng + i * rsize"
      using that by (simp add: base length_concat len comp_def sum_list_triv)
    have "drop (fst rng + i * rsize + off) bs =
        drop off (enc (rs ! i)) @ concat (map enc (drop (Suc i) rs)) @ ys"
      using arg_cong [OF split, of "drop (fst rng + i * rsize + off)"] pre fit
      by (simp add: len drop_eq_Nil2)
    moreover have "fst rng + i * rsize + off + 4 \<le> length bs"
      using arg_cong [OF split, of length] pre fit by (simp add: len)
    ultimately show "read_u32 bs (fst rng + i * rsize + off) = Ok 0"
      using bound fit zero [of "rs ! i"] len [of "rs ! i"] by (simp add: read_word_eq_Ok)
  qed
  show ?thesis
    unfolding validate_record_reserved_def for_each_eq_Ok
  proof
    fix i assume "i \<in> set [0..<length rs]"
    then have f: "read_u32 bs (fst rng + i * rsize + off) = Ok 0" by (simp add: field)
    then have "fst rng + i * rsize + off \<le> USIZE_MAX" by (simp add: read_word_eq_Ok)
    then show "bindR (ok_or (checked_mul_usize i rsize) LengthLimit) (\<lambda>record_delta.
       bindR (ok_or (checked_add_usize (fst rng) record_delta) OffsetOverflow) (\<lambda>record_start.
       bindR (ok_or (checked_add_usize record_start off) OffsetOverflow) (\<lambda>reserved_offset.
       bindR (read_u32 bs reserved_offset) (\<lambda>reserved.
       ensure (reserved = 0) NonZeroReserved)))) = Ok ()"
      using f by (simp add: checked_mul_usize_def checked_add_usize_def)
  qed
qed

lemma reserved_field_zero:
  "take 4 (drop 20 (block_bytes b)) = to_le_bytes (0 :: u32)"
  "take 4 (drop 20 (import_bytes i)) = to_le_bytes (0 :: u32)"
  by (simp_all add: block_bytes_def import_bytes_def cat_fields_simps)

lemma validate_header_flat:
  assumes "owned_limits G"
  shows "validate_header (graph_header G c) = Ok ()"
proof -
  have "hdr_magic (graph_header G c) = PYTH_TIG_MAGIC" "hdr_major (graph_header G c) = PYTH_TIG_MAJOR"
    "hdr_minor (graph_header G c) = PYTH_TIG_MINOR" "hdr_flags (graph_header G c) = 0"
    "hdr_reserved (graph_header G c) = 0"
    by (simp_all add: graph_header_def)
  then show ?thesis
    using assms
    by (simp add: validate_header_def validate_count_def validate_len_def unat_layout owned_limits_def)
qed

lemma layout_bounds:
  "blocks_at G + length (og_blocks G) * BLOCK_RECORD_SIZE \<le> package_len G"
  "nodes_at G + length (og_nodes G) * NODE_RECORD_SIZE \<le> package_len G"
  "imports_at G + length (og_imports G) * CAPABILITY_IMPORT_RECORD_SIZE \<le> package_len G"
  "pool_at G + length (og_constant_pool G) \<le> package_len G"
  "strings_at G + length (og_string_table G) \<le> package_len G"
  "PYTH_GRAPH_HEADER_SIZE \<le> package_len G"
  by (simp_all add: layout_defs)

lemma layout_aligned:
  "RECORD_SECTION_ALIGNMENT dvd PYTH_GRAPH_HEADER_SIZE" "RECORD_SECTION_ALIGNMENT dvd blocks_at G"
  "RECORD_SECTION_ALIGNMENT dvd nodes_at G" "RECORD_SECTION_ALIGNMENT dvd imports_at G"
proof -
  have d: "RECORD_SECTION_ALIGNMENT dvd PYTH_GRAPH_HEADER_SIZE"
    "RECORD_SECTION_ALIGNMENT dvd BLOCK_RECORD_SIZE" "RECORD_SECTION_ALIGNMENT dvd NODE_RECORD_SIZE"
    by (simp_all add: tig_sizes RECORD_SECTION_ALIGNMENT_def)
  then show "RECORD_SECTION_ALIGNMENT dvd PYTH_GRAPH_HEADER_SIZE"
    "RECORD_SECTION_ALIGNMENT dvd blocks_at G" "RECORD_SECTION_ALIGNMENT dvd nodes_at G"
    "RECORD_SECTION_ALIGNMENT dvd imports_at G"
    unfolding layout_defs by (simp_all add: dvd_add dvd_mult)
qed

lemma validate_sections_flat:
  assumes "owned_limits G"
  shows "validate_sections (header_bytes G c @ body_bytes G) (graph_header G c) = Ok ()"
proof -
  let ?bs = "header_bytes G c @ body_bytes G"
  let ?b = "concat (map block_bytes (og_blocks G))"
  let ?n = "concat (map node_bytes (og_nodes G))"
  let ?i = "concat (map import_bytes (og_imports G))"
  let ?rest = "og_constant_pool G @ og_string_table G"
  have len: "length ?bs = package_len G" by (rule length_flat)
  have small: "package_len G \<le> USIZE_MAX"
    using owned_limits_len(1) [OF assms] by (simp add: MAX_PACKAGE_BYTES_def USIZE_MAX_def)
  have B: "validate_record_reserved ?bs (blocks_at G, e) (length (og_blocks G)) BLOCK_RECORD_SIZE 20 =
      Ok ()" for e
    using len small
    by (intro record_reserved_flat [where enc = block_bytes and xs = "header_bytes G c"
          and ys = "?n @ ?i @ ?rest"])
      (simp_all add: body_bytes_def blocks_at_def reserved_field_zero tig_sizes)
  have "length (header_bytes G c @ ?b @ ?n) = imports_at G"
    by (simp only: length_append length_header_bytes block_writer.length_table
        node_writer.length_table layout_defs add.assoc)
  then have I: "validate_record_reserved ?bs (imports_at G, e) (length (og_imports G))
      CAPABILITY_IMPORT_RECORD_SIZE 20 = Ok ()" for e
    using len small
    by (intro record_reserved_flat [where enc = import_bytes and xs = "header_bytes G c @ ?b @ ?n"
          and ys = ?rest])
      (simp_all add: body_bytes_def reserved_field_zero tig_sizes)
  have "validate_section_layout (package_len G)
      [(PYTH_GRAPH_HEADER_SIZE, PYTH_GRAPH_HEADER_SIZE),
       (blocks_at G, blocks_at G + length (og_blocks G) * BLOCK_RECORD_SIZE),
       (nodes_at G, nodes_at G + length (og_nodes G) * NODE_RECORD_SIZE),
       (imports_at G, imports_at G + length (og_imports G) * CAPABILITY_IMPORT_RECORD_SIZE),
       (pool_at G, pool_at G + length (og_constant_pool G)),
       (strings_at G, strings_at G + length (og_string_table G))] = Ok ()"
    by (simp add: validate_section_layout_6 layout_defs)
  moreover have fit: "n \<le> USIZE_MAX \<and> off + n \<le> USIZE_MAX" if "off + n \<le> package_len G" for off n
    using that small by simp
  ultimately show ?thesis
    using layout_bounds [of G] layout_bounds(1-5) [THEN fit] layout_bounds(6) [of G, THEN le_trans, OF small]
      layout_aligned
    by (simp add: validate_sections_def Let_def unat_layout [OF assms] len B I
        validate_record_section_def validate_byte_section_def del: length_append)
qed

lemma flat_checksum:
  "package_checksum (header_bytes G c @ ys) = package_checksum (header_bytes G c' @ ys)"
proof -
  let ?pre = "cat_fields (version_fields @ to_le_bytes (0 :: u32) # header_fields G)"
  have hdr: "header_bytes G c @ ys = ?pre @ to_le_bytes c @ to_le_bytes (0 :: u32) @ ys" for c ys
    by (simp add: header_bytes_def cat_fields_append cat_fields_simps)
  show ?thesis
    unfolding hdr
    by (rule package_checksum_masked)
      (simp_all add: cat_fields_append cat_fields_simps length_header_fields)
qed

definition graph_checksum :: "OwnedGraph \<Rightarrow> u64" where
  "graph_checksum G = package_checksum (header_bytes G 0 @ body_bytes G)"

lemma decode_flat:
  assumes "owned_limits G"
  shows "decode (flat_bytes G) =
    Ok \<lparr>pkg_bytes = flat_bytes G, pkg_header = graph_header G (graph_checksum G)\<rparr>"
proof -
  let ?c = "graph_checksum G"
  have flat: "flat_bytes G = header_bytes G ?c @ body_bytes G"
    by (simp add: flat_bytes_def graph_checksum_def)
  have small: "package_len G \<le> USIZE_MAX"
    using owned_limits_len(1) [OF assms] by (simp add: MAX_PACKAGE_BYTES_def USIZE_MAX_def)
  have "package_checksum (flat_bytes G) = ?c"
    unfolding flat unfolding graph_checksum_def by (rule flat_checksum)
  moreover have "hdr_checksum (graph_header G ?c) = ?c" by (simp add: graph_header_def)
  ultimately show ?thesis
    using owned_limits_len(1) [OF assms] layout_bounds(6) [of G] small
      read_header_flat [of G ?c "body_bytes G"] validate_header_flat [OF assms, of ?c]
      validate_sections_flat [OF assms, of ?c]
    unfolding decode_def flat by (simp add: length_flat del: length_append)
qed

lemma section_mid:
  "off = length xs \<Longrightarrow> n = length ys \<Longrightarrow> take n (drop off (xs @ ys @ zs)) = ys"
  by simp

lemma package_graph_flat:
  assumes "owned_limits G"
  shows "package_graph \<lparr>pkg_bytes = flat_bytes G, pkg_header = graph_header G (graph_checksum G)\<rparr> =
    (Ok (graph_view G (graph_checksum G)) :: ('e, tig_graph) result)"
proof -
  let ?c = "graph_checksum G"
  let ?h = "header_bytes G ?c"
  let ?b = "concat (map block_bytes (og_blocks G))"
  let ?n = "concat (map node_bytes (og_nodes G))"
  let ?i = "concat (map import_bytes (og_imports G))"
  have flat: "flat_bytes G = ?h @ ?b @ ?n @ ?i @ og_constant_pool G @ og_string_table G"
    by (simp add: flat_bytes_def graph_checksum_def body_bytes_def)
  have len: "length (flat_bytes G) = package_len G"
    unfolding flat_bytes_def by (rule length_flat)
  have small: "package_len G \<le> USIZE_MAX"
    using owned_limits_len(1) [OF assms] by (simp add: MAX_PACKAGE_BYTES_def USIZE_MAX_def)
  have offs: "blocks_at G = length ?h" "nodes_at G = length (?h @ ?b)"
    "imports_at G = length (?h @ ?b @ ?n)" "pool_at G = length (?h @ ?b @ ?n @ ?i)"
    "strings_at G = length (?h @ ?b @ ?n @ ?i @ og_constant_pool G)"
    by (simp_all only: layout_defs length_append block_writer.length_table
        node_writer.length_table import_writer.length_table length_header_bytes add.assoc)
  have "take (length ?b) (drop (blocks_at G) (?h @ ?b @ ?n @ ?i @ og_constant_pool G @
      og_string_table G)) = ?b"
    "take (length ?n) (drop (nodes_at G) ((?h @ ?b) @ ?n @ ?i @ og_constant_pool G @
      og_string_table G)) = ?n"
    "take (length ?i) (drop (imports_at G) ((?h @ ?b @ ?n) @ ?i @ og_constant_pool G @
      og_string_table G)) = ?i"
    "take (length (og_constant_pool G)) (drop (pool_at G) ((?h @ ?b @ ?n @ ?i) @
      og_constant_pool G @ og_string_table G)) = og_constant_pool G"
    "take (length (og_string_table G)) (drop (strings_at G) ((?h @ ?b @ ?n @ ?i @
      og_constant_pool G) @ og_string_table G @ [])) = og_string_table G"
    by (rule section_mid [OF offs(1) refl] section_mid [OF offs(2) refl]
        section_mid [OF offs(3) refl] section_mid [OF offs(4) refl] section_mid [OF offs(5) refl])+
  note sec = this [unfolded append_assoc append_Nil2, folded flat,
      unfolded block_writer.length_table node_writer.length_table import_writer.length_table]
  have tab: "length ?b \<le> USIZE_MAX" "length ?n \<le> USIZE_MAX" "length ?i \<le> USIZE_MAX"
    using layout_bounds(1-3) [of G] small
    by (simp_all add: block_writer.length_table node_writer.length_table import_writer.length_table)
  have "block_records ?b = map block_record (og_blocks G)"
    "node_records ?n = map node_record (og_nodes G)"
    "import_records ?i = map import_record (og_imports G)"
    using tab unfolding block_records_def node_records_def import_records_def
    by (simp_all only: block_codec.iter_table node_codec.iter_table import_codec.iter_table)
  moreover have "type_records [] = []"
    using table_lengths(1) [of "[]"] by simp
  ultimately show ?thesis
    using layout_bounds [of G] small len
    by (simp add: package_graph_def Let_def record_section_eq_Ok byte_section_eq_Ok
        unat_layout [OF assms] sec graph_view_def)
qed

lemma verify_bytes_flat:
  "owned_limits G \<Longrightarrow> verify_bytes (flat_bytes G) = verify_package (graph_view G (graph_checksum G))"
  by (simp add: verify_bytes_def decode_flat package_graph_flat)

text \<open>The encoder on every graph whose size the address space can hold: it never panics.\<close>

definition keeps_len :: "nat \<Rightarrow> (Diagnostic, u8 list) result \<Rightarrow> bool" where
  "keeps_len n r \<longleftrightarrow> (case r of Ok bs \<Rightarrow> length bs = n | Err e \<Rightarrow> e = verifier_rejected | _ \<Rightarrow> False)"

lemma keeps_len_bind:
  "keeps_len n r \<Longrightarrow> (\<And>bs. length bs = n \<Longrightarrow> keeps_len n (f bs)) \<Longrightarrow> keeps_len n (bindR r f)"
  by (cases r) (auto simp: keeps_len_def)

lemma keeps_len_write:
  "length bs = n \<Longrightarrow> off + length d \<le> n \<Longrightarrow> keeps_len n (write_at bs off d)"
  by (auto simp: keeps_len_def write_at_def)

lemma keeps_len_words:
  "length bs = n \<Longrightarrow> off + 2 \<le> n \<Longrightarrow> keeps_len n (write_u16 bs off w)"
  "length bs = n \<Longrightarrow> off + 4 \<le> n \<Longrightarrow> keeps_len n (write_u32 bs off v)"
  "length bs = n \<Longrightarrow> off + 8 \<le> n \<Longrightarrow> keeps_len n (write_u64 bs off u)"
  "length bs = n \<Longrightarrow> off + 4 \<le> n \<Longrightarrow> keeps_len n (write_counted bs off m)"
  by (auto simp: write_defs keeps_len_write write_counted_def checked_u32_def keeps_len_def
      write_at_def)


definition writer_ok :: "nat \<Rightarrow> (u8 list \<Rightarrow> (Diagnostic, u8 list) result) \<Rightarrow> bool" where
  "writer_ok n f \<longleftrightarrow> (\<forall>bs. length bs = n \<longrightarrow> keeps_len n (f bs))"

lemma writer_ok_bind:
  "writer_ok n f \<Longrightarrow> writer_ok n g \<Longrightarrow> writer_ok n (\<lambda>bs. bindR (f bs) g)"
  by (auto simp: writer_ok_def intro: keeps_len_bind)

lemma writer_ok_write:
  "off + length d \<le> n \<Longrightarrow> writer_ok n (\<lambda>bs. write_at bs off d)"
  "off + 2 \<le> n \<Longrightarrow> writer_ok n (\<lambda>bs. write_u16 bs off w)"
  "off + 4 \<le> n \<Longrightarrow> writer_ok n (\<lambda>bs. write_u32 bs off v)"
  "off + 8 \<le> n \<Longrightarrow> writer_ok n (\<lambda>bs. write_u64 bs off u)"
  "off + 4 \<le> n \<Longrightarrow> writer_ok n (\<lambda>bs. write_counted bs off m)"
  by (auto simp: writer_ok_def keeps_len_write keeps_len_words)

lemma writer_ok_header: 
  "96 \<le> n \<Longrightarrow> writer_ok n (\<lambda>bs. write_header bs G a b c d e f g h i j k)"
  unfolding write_header_def
  by (intro writer_ok_bind writer_ok_write) simp_all
lemma refresh_checksum_ok: "92 \<le> n \<Longrightarrow> writer_ok n refresh_checksum"
  unfolding refresh_checksum_def writer_ok_def
  by (auto intro!: keeps_len_bind keeps_len_words simp: CHECKSUM_OFFSET_def)

context record_writer
begin

lemma put_keeps_len:
  assumes "length bs = n" and "off + rsize \<le> n"
  shows "keeps_len n (put bs off r)"
proof -
  have "bs = take off bs @ take rsize (drop off bs) @ drop (off + rsize) bs"
    by (metis append_take_drop_id drop_drop add.commute)
  moreover have "put (take off bs @ take rsize (drop off bs) @ drop (off + rsize) bs)
      (length (take off bs)) r = Ok (take off bs @ encoded r @ drop (off + rsize) bs)"
    using assms by (intro write_flat) simp
  ultimately have "put bs off r = Ok (take off bs @ encoded r @ drop (off + rsize) bs)"
    using assms by simp
  then show ?thesis using assms by (simp add: keeps_len_def length_encoded)
qed

lemma fold_keeps_len:
  assumes "length bs = n" and "base + (k + length rs) * rsize \<le> n"
  shows "keeps_len n (fold_res (\<lambda>bytes (index, r). put bytes (base + index * rsize) r) bs
           (enumerate k rs))"
  using assms
proof (induction rs arbitrary: bs k)
  case (Cons r rs)
  have "keeps_len n (put bs (base + k * rsize) r)"
    using Cons.prems by (intro put_keeps_len) (simp_all add: algebra_simps)
  moreover have "keeps_len n (fold_res (\<lambda>bytes (index, r). put bytes (base + index * rsize) r) bs'
      (enumerate (Suc k) rs))" if "length bs' = n" for bs'
    using Cons.prems that by (intro Cons.IH) simp_all
  ultimately show ?case by (simp add: keeps_len_bind)
qed (simp add: keeps_len_def)

lemma table_ok: "base + length rs * rsize \<le> n \<Longrightarrow> writer_ok n (write_table put base rsize rs)"
  using fold_keeps_len [where k = 0] by (simp add: writer_ok_def write_table_def)

end

lemma encode_graph_ok:
  assumes "package_len G \<le> USIZE_MAX"
  shows "keeps_len (package_len G) (encode_graph G)"
proof -
  let ?n = "package_len G"
  have "writer_ok ?n (\<lambda>bytes.
     bindR (write_header bytes G (length (og_blocks G)) (length (og_nodes G))
      (length (og_imports G)) (length (og_constant_pool G)) (length (og_string_table G))
      PYTH_GRAPH_HEADER_SIZE (blocks_at G) (nodes_at G) (imports_at G) (pool_at G) (strings_at G)) (\<lambda>bytes.
     bindR (write_table write_block (blocks_at G) BLOCK_RECORD_SIZE (og_blocks G) bytes) (\<lambda>bytes.
     bindR (write_table write_node (nodes_at G) NODE_RECORD_SIZE (og_nodes G) bytes) (\<lambda>bytes.
     bindR (write_table write_import (imports_at G) CAPABILITY_IMPORT_RECORD_SIZE
              (og_imports G) bytes) (\<lambda>bytes.
     bindR (write_at bytes (pool_at G) (og_constant_pool G)) (\<lambda>bytes.
     bindR (write_at bytes (strings_at G) (og_string_table G)) refresh_checksum))))))"
    using layout_bounds [of G]
    by (intro writer_ok_bind writer_ok_header writer_ok_write block_writer.table_ok
        node_writer.table_ok import_writer.table_ok refresh_checksum_ok) (simp_all add: tig_sizes)
  then show ?thesis
    using assms by (simp add: writer_ok_def encode_graph_def Let_def layout_defs)
qed

section \<open>The verified encoder\<close>

lemma encode_verified_graph_flat:
  assumes "owned_limits G"
  shows "encode_verified_graph G =
    (case verify_package (graph_view G (graph_checksum G)) of
       Ok _ \<Rightarrow> Ok (flat_bytes G) | _ \<Rightarrow> Err verifier_rejected)"
proof -
  let ?g = "graph_view G (graph_checksum G)"
  have "settled (verify_bytes (flat_bytes G))" by (rule settled_verify_bytes)
  then have "settled (verify_package ?g)" by (simp add: verify_bytes_flat assms)
  then show ?thesis
    using assms
    by (cases "verify_package ?g")
      (simp_all add: encode_verified_graph_def encode_graph_flat owned_limits_len decode_flat
        package_graph_flat)
qed

lemma decoded_limits:
  assumes "encode_graph G = Ok bytes" and "decode bytes = Ok pkg" and "package_len G \<le> USIZE_MAX"
  shows "owned_limits G"
proof -
  have "length bytes = package_len G"
    using encode_graph_ok [OF assms(3)] assms(1) by (simp add: keeps_len_def)
  with decode_eq_OkD(2) [OF assms(2)] have len: "package_len G \<le> MAX_PACKAGE_BYTES" by simp
  then have fit: "fits_u32 G" by (simp add: fits_u32_def MAX_PACKAGE_BYTES_def)
  then have "bytes = header_bytes G (graph_checksum G) @ body_bytes G"
    using encode_graph_flat assms(1) by (simp add: flat_bytes_def graph_checksum_def)
  then have hdr: "pkg_header pkg = graph_header G (graph_checksum G)"
    using read_header_flat decode_eq_OkD(5) [OF assms(2)] assms(3) length_flat by simp
  have w: "unat (of_nat n :: u32) = n" if "n \<le> package_len G" for n
    using that len by (simp add: MAX_PACKAGE_BYTES_def unat_of_nat)
  have "length (og_blocks G) \<le> package_len G" "length (og_nodes G) \<le> package_len G"
    "length (og_imports G) \<le> package_len G" "length (og_constant_pool G) \<le> package_len G"
    "length (og_string_table G) \<le> package_len G"
    by (simp_all add: layout_defs tig_sizes)
  note this [THEN w]
  then show ?thesis
    using decode_eq_OkD(3) [OF assms(2)]
    unfolding hdr by (simp add: within_limits_def graph_header_def owned_limits_def)
qed

lemma encode_verified_graph_cases:
  assumes "package_len G \<le> USIZE_MAX"
  shows "encode_verified_graph G =
    (if owned_limits G \<and> verified (graph_view G (graph_checksum G))
     then Ok (flat_bytes G) else Err verifier_rejected)"
proof (cases "owned_limits G")
  case True
  have "settled (verify_bytes (flat_bytes G))" by (rule settled_verify_bytes)
  then have "settled (verify_package (graph_view G (graph_checksum G)))"
    by (simp add: verify_bytes_flat True)
  then show ?thesis
    using True verify_package_result
    by (auto simp: encode_verified_graph_flat verified_def split: result.split)
next
  case False
  show ?thesis
  proof (cases "encode_graph G")
    case (Ok bytes)
    have "decode bytes \<noteq> Ok pkg" for pkg
      using decoded_limits [OF Ok _ assms] False by blast
    then obtain e where "decode bytes = Err e"
      using settled_decode [of bytes] by (cases "decode bytes") auto
    then show ?thesis using False Ok by (simp add: encode_verified_graph_def)
  qed (use encode_graph_ok [OF assms] False in
      \<open>simp_all add: encode_verified_graph_def keeps_len_def\<close>)
qed

end
