(* ===== verification/Tig_Interp.thy ===== *)
theory Tig_Interp
  imports Tig_Semantics
begin

text \<open>
  The interpreter of admitted packages (\<open>user/pyth-runtime/src/interpreter.rs\<close>). Its host is a
  parameter: a record of functions on a host state, one per method of the \<open>Host\<close> trait. A step of the
  interpreter maps its state and the host's to a result and the new states; the states are also
  returned with an error, because the exit record and the host keep what happened before it.
\<close>

section \<open>Values, host results, errors\<close>

type_synonym PackedCapability = u64

datatype Value =
    VUnit
  | VBool bool
  | VU64 u64
  | VI64 "64 word"
  | VSlice u32 u32 bool
  | VObjectId u64
  | VRevisionId u64
  | VTaskId u64
  | VProposalId u64
  | VCapability PackedCapability
  | VEffect u64
  | VErrorCode u16
  | VHostUtf8 u32 u16

definition MAX_PYTH_GRAPH_IMPORTS :: usize where "MAX_PYTH_GRAPH_IMPORTS = 32"
definition MAX_HOST_RESULT_BYTES :: usize where "MAX_HOST_RESULT_BYTES = 64"
definition GRAPH_EXIT_OK :: u16 where "GRAPH_EXIT_OK = 0"
definition GRAPH_EXIT_RUNTIME_ERROR :: u16 where "GRAPH_EXIT_RUNTIME_ERROR = 1"
definition GRAPH_EXIT_BUDGET_EXHAUSTED :: u16 where "GRAPH_EXIT_BUDGET_EXHAUSTED = 2"
definition GRAPH_RESULT_UNIT :: u16 where "GRAPH_RESULT_UNIT = 0"

lemmas exit_defs = GRAPH_EXIT_OK_def GRAPH_EXIT_RUNTIME_ERROR_def GRAPH_EXIT_BUDGET_EXHAUSTED_def
  GRAPH_RESULT_UNIT_def

text \<open>\<open>hr_bytes\<close> has 64 elements and \<open>hr_reserved1\<close> has 16.\<close>

record HostCallResult =
  hr_status :: u16
  hr_bytes_len :: u16
  hr_reserved0 :: u32
  hr_object_id :: u64
  hr_revision :: u64
  hr_capability :: PackedCapability
  hr_bytes :: "u8 array"
  hr_reserved1 :: "u8 array"

record GraphExitRecord =
  ex_status :: u16
  ex_error_code :: u16
  ex_last_node :: u32
  ex_executed_nodes :: u64
  ex_result_type :: u16
  ex_reserved0 :: u16
  ex_reserved1 :: u32
  ex_result_raw :: u64

datatype HostError = Denied | Failed

datatype RuntimeError =
    BudgetExhausted
  | InvalidBlock
  | InvalidNode
  | InvalidInput
  | InvalidValue
  | InvalidString
  | MissingImport
  | UnsupportedOpcode
  | HostErr HostError

fun error_code :: "RuntimeError \<Rightarrow> u16" where
  "error_code BudgetExhausted = 1"
| "error_code InvalidBlock = 2"
| "error_code InvalidNode = 3"
| "error_code InvalidInput = 4"
| "error_code InvalidValue = 5"
| "error_code InvalidString = 6"
| "error_code MissingImport = 7"
| "error_code UnsupportedOpcode = 8"
| "error_code (HostErr Denied) = 9"
| "error_code (HostErr Failed) = 10"

section \<open>The host and the state\<close>

record 'h Host =
  system_log :: "'h \<Rightarrow> PackedCapability \<Rightarrow> u8 list \<Rightarrow> (HostError + unit) \<times> 'h"
  object_create :: "'h \<Rightarrow> PackedCapability \<Rightarrow> u8 list \<Rightarrow> (HostError + HostCallResult) \<times> 'h"
  object_query :: "'h \<Rightarrow> PackedCapability \<Rightarrow> u8 list \<Rightarrow> (HostError + HostCallResult) \<times> 'h"
  object_inspect :: "'h \<Rightarrow> PackedCapability \<Rightarrow> u64 \<Rightarrow> (HostError + HostCallResult) \<times> 'h"
  object_revise :: "'h \<Rightarrow> PackedCapability \<Rightarrow> u64 \<Rightarrow> u8 list \<Rightarrow> (HostError + HostCallResult) \<times> 'h"
  object_history :: "'h \<Rightarrow> PackedCapability \<Rightarrow> u64 \<Rightarrow> (HostError + HostCallResult) \<times> 'h"
  task_context :: "'h \<Rightarrow> PackedCapability \<Rightarrow> (HostError + HostCallResult) \<times> 'h"
  task_propose :: "'h \<Rightarrow> PackedCapability \<Rightarrow> u64 \<Rightarrow> u64 \<Rightarrow> (HostError + unit) \<times> 'h"
  command_read :: "'h \<Rightarrow> PackedCapability \<Rightarrow> (HostError + HostCallResult) \<times> 'h"
  command_result_emit :: "'h \<Rightarrow> PackedCapability \<Rightarrow> u16 \<Rightarrow> u8 list \<Rightarrow> (HostError + unit) \<times> 'h"

record Interpreter =
  it_imports :: "PackedCapability array"
  it_values :: "Value option array"
  it_host_results :: "HostCallResult option array"
  it_budget :: u64
  it_executed_nodes :: u64
  it_last_node :: u32

definition interpreter_new :: "PackedCapability array \<Rightarrow> u64 \<Rightarrow> Interpreter" where
  "interpreter_new caps budget =
     \<lparr>it_imports = caps, it_values = (\<lambda>_. None), it_host_results = (\<lambda>_. None), it_budget = budget,
      it_executed_nodes = 0, it_last_node = NO_VALUE\<rparr>"

type_synonym ('h, 'a) exec = "Interpreter \<times> 'h \<Rightarrow> (RuntimeError, 'a) result \<times> Interpreter \<times> 'h"

text \<open>Sequencing with early return on an error, lifting, and access to the state.\<close>

definition bindE :: "('h, 'a) exec \<Rightarrow> ('a \<Rightarrow> ('h, 'b) exec) \<Rightarrow> ('h, 'b) exec" where
  "bindE m f s =
     (case m s of
        (Ok x, s') \<Rightarrow> f x s'
      | (Err e, s') \<Rightarrow> (Err e, s')
      | (Panic, s') \<Rightarrow> (Panic, s')
      | (Diverge, s') \<Rightarrow> (Diverge, s'))"

definition liftE :: "(RuntimeError, 'a) result \<Rightarrow> ('h, 'a) exec" where
  "liftE r s = (r, s)"

definition readE :: "(Interpreter \<Rightarrow> (RuntimeError, 'a) result) \<Rightarrow> ('h, 'a) exec" where
  "readE f s = (f (fst s), s)"

definition modifyE :: "(Interpreter \<Rightarrow> Interpreter) \<Rightarrow> ('h, unit) exec" where
  "modifyE f s = (Ok (), f (fst s), snd s)"

text \<open>A call of the host, with \<open>map_err(RuntimeError::Host)\<close>.\<close>

definition callE :: "('h \<Rightarrow> (HostError + 'a) \<times> 'h) \<Rightarrow> ('h, 'a) exec" where
  "callE f s =
     (case f (snd s) of
        (Inl e, h) \<Rightarrow> (Err (HostErr e), fst s, h)
      | (Inr x, h) \<Rightarrow> (Ok x, fst s, h))"

section \<open>Values of nodes\<close>

definition store_value :: "usize \<Rightarrow> Value \<Rightarrow> ('h, unit) exec" where
  "store_value node_index v =
     bindE (liftE (ensure (node_index < MAX_RUNTIME_VALUES) InvalidValue)) (\<lambda>_.
     modifyE (\<lambda>it. it\<lparr>it_values := (it_values it)(node_index := Some v)\<rparr>))"

definition load_value :: "u32 \<Rightarrow> Interpreter \<Rightarrow> (RuntimeError, Value) result" where
  "load_value node_index it =
     ok_or (if unat node_index < MAX_RUNTIME_VALUES then it_values it (unat node_index) else None)
       InvalidInput"

definition expect_effect :: "u32 \<Rightarrow> Interpreter \<Rightarrow> (RuntimeError, u64) result" where
  "expect_effect n it =
     bindR (load_value n it) (\<lambda>v. case v of VEffect e \<Rightarrow> Ok e | _ \<Rightarrow> Err InvalidValue)"

definition expect_capability :: "u32 \<Rightarrow> Interpreter \<Rightarrow> (RuntimeError, PackedCapability) result" where
  "expect_capability n it =
     bindR (load_value n it) (\<lambda>v. case v of VCapability c \<Rightarrow> Ok c | _ \<Rightarrow> Err InvalidValue)"

definition expect_object_id :: "u32 \<Rightarrow> Interpreter \<Rightarrow> (RuntimeError, u64) result" where
  "expect_object_id n it =
     bindR (load_value n it) (\<lambda>v. case v of VObjectId x \<Rightarrow> Ok x | _ \<Rightarrow> Err InvalidValue)"

definition expect_task_id :: "u32 \<Rightarrow> Interpreter \<Rightarrow> (RuntimeError, u64) result" where
  "expect_task_id n it =
     bindR (load_value n it) (\<lambda>v. case v of VTaskId x \<Rightarrow> Ok x | _ \<Rightarrow> Err InvalidValue)"

definition expect_u64 :: "u32 \<Rightarrow> Interpreter \<Rightarrow> (RuntimeError, u64) result" where
  "expect_u64 n it =
     bindR (load_value n it) (\<lambda>v. case v of VU64 x \<Rightarrow> Ok x | _ \<Rightarrow> Err InvalidValue)"

definition expect_error_code :: "u32 \<Rightarrow> Interpreter \<Rightarrow> (RuntimeError, u16) result" where
  "expect_error_code n it =
     bindR (load_value n it) (\<lambda>v. case v of VErrorCode x \<Rightarrow> Ok x | _ \<Rightarrow> Err InvalidValue)"

definition expect_bool :: "u32 \<Rightarrow> Interpreter \<Rightarrow> (RuntimeError, bool) result" where
  "expect_bool n it =
     bindR (load_value n it) (\<lambda>v. case v of VBool x \<Rightarrow> Ok x | _ \<Rightarrow> Err InvalidValue)"

text \<open>\<open>result.bytes[..len]\<close>, which panics beyond the 64 bytes.\<close>

definition host_bytes :: "HostCallResult \<Rightarrow> usize \<Rightarrow> (RuntimeError, u8 list) result" where
  "host_bytes result len =
     (if len \<le> MAX_HOST_RESULT_BYTES then Ok (map (hr_bytes result) [0..<len]) else Panic)"

definition expect_utf8_bytes :: "tig_graph \<Rightarrow> u32 \<Rightarrow> Interpreter \<Rightarrow> (RuntimeError, u8 list) result" where
  "expect_utf8_bytes g n it =
     bindR (load_value n it) (\<lambda>v.
     case v of
       VSlice offset len utf8 \<Rightarrow>
         if utf8 then
           bindR (ok_or (try_from_word len) InvalidString) (\<lambda>len.
           map_errR (\<lambda>_. InvalidString) (string_at g offset len))
         else Err InvalidValue
     | VHostUtf8 producer_node len \<Rightarrow>
         let producer_index = unat producer_node in
         bindR (ok_or (if producer_index < MAX_RUNTIME_VALUES then it_host_results it producer_index
                       else None) InvalidValue) (\<lambda>result.
         bindR (ensure (\<not> unat len > MAX_HOST_RESULT_BYTES) InvalidString) (\<lambda>_.
         bindR (host_bytes result (unat len)) (\<lambda>bytes.
         bindR (ensure (utf8_valid bytes) InvalidString) (\<lambda>_.
         Ok bytes))))
     | _ \<Rightarrow> Err InvalidValue)"

definition expect_bytes :: "tig_graph \<Rightarrow> u32 \<Rightarrow> Interpreter \<Rightarrow> (RuntimeError, u8 list) result" where
  "expect_bytes g n it =
     bindR (load_value n it) (\<lambda>v.
     case v of
       VSlice offset len utf8 \<Rightarrow>
         if \<not> utf8 then
           bindR (ok_or (checked_add_usize (unat offset) (unat len)) InvalidString) (\<lambda>end'.
           ok_or (slice_get (constant_pool g) (unat offset) end') InvalidString)
         else Err InvalidValue
     | _ \<Rightarrow> Err InvalidValue)"

section \<open>Validation of host results\<close>

definition reserved1_zero :: "HostCallResult \<Rightarrow> bool" where
  "reserved1_zero result = list_all (\<lambda>i. hr_reserved1 result i = 0) [0..<16]"

definition validate_host_call_result :: "HostCallResult \<Rightarrow> (RuntimeError, unit) result" where
  "validate_host_call_result result =
     ensure (\<not> (hr_reserved0 result \<noteq> 0 \<or> \<not> reserved1_zero result
                 \<or> unat (hr_bytes_len result) > MAX_HOST_RESULT_BYTES)) InvalidValue"

definition validate_task_context_result :: "HostCallResult \<Rightarrow> (RuntimeError, unit) result" where
  "validate_task_context_result result =
     bindR (ensure (\<not> (\<not> reserved1_zero result
                         \<or> unat (hr_bytes_len result) > MAX_HOST_RESULT_BYTES)) InvalidValue) (\<lambda>_.
     bindR (host_bytes result (unat (hr_bytes_len result))) (\<lambda>bytes.
     ensure (utf8_valid bytes) InvalidString))"

definition command_kind_is_known :: "u16 \<Rightarrow> bool" where
  "command_kind_is_known kind = (1 \<le> kind \<and> kind \<le> 12)"

definition validate_command_read_result :: "HostCallResult \<Rightarrow> (RuntimeError, unit) result" where
  "validate_command_read_result result =
     bindR (ok_or (try_from_word (hr_reserved0 result)) InvalidValue) (\<lambda>command_kind.
     bindR (ensure (\<not> (\<not> reserved1_zero result
                         \<or> unat (hr_bytes_len result) > MAX_HOST_RESULT_BYTES
                         \<or> \<not> command_kind_is_known command_kind)) InvalidValue) (\<lambda>_.
     bindR (host_bytes result (unat (hr_bytes_len result))) (\<lambda>bytes.
     ensure (utf8_valid bytes) InvalidString)))"

definition put_host_result :: "usize \<Rightarrow> HostCallResult \<Rightarrow> ('h, unit) exec" where
  "put_host_result node_index result =
     bindE (liftE (ensure (node_index < MAX_RUNTIME_VALUES) InvalidValue)) (\<lambda>_.
     bindE (modifyE (\<lambda>it. it\<lparr>it_host_results := (it_host_results it)(node_index := Some result)\<rparr>)) (\<lambda>_.
     store_value node_index (VEffect (of_nat node_index))))"

definition store_host_result :: "usize \<Rightarrow> HostCallResult \<Rightarrow> ('h, unit) exec" where
  "store_host_result node_index result =
     bindE (liftE (validate_host_call_result result)) (\<lambda>_.
     put_host_result node_index result)"

section \<open>Constants, comparisons and projections\<close>

definition result_type_of :: "NodeRecord \<Rightarrow> (RuntimeError, PythType) result" where
  "result_type_of node = ok_or (type_try_from (nd_result_type node)) InvalidValue"

definition execute_block_param :: "usize \<Rightarrow> NodeRecord \<Rightarrow> ('h, unit) exec" where
  "execute_block_param node_index node =
     bindE (liftE (result_type_of node)) (\<lambda>result_type.
     bindE (liftE (ensure (result_type = Capability) UnsupportedOpcode)) (\<lambda>_.
     let import_slot = unat (nd_auxiliary0 node) in
     bindE (readE (\<lambda>it. ok_or (if import_slot < MAX_PYTH_GRAPH_IMPORTS
                                then Some (it_imports it import_slot) else None) MissingImport)) (\<lambda>capability.
     bindE (liftE (ensure (capability \<noteq> 0) MissingImport)) (\<lambda>_.
     store_value node_index (VCapability capability)))))"

definition execute_const_bool :: "usize \<Rightarrow> NodeRecord \<Rightarrow> ('h, unit) exec" where
  "execute_const_bool node_index node =
     bindE (liftE (result_type_of node)) (\<lambda>result_type.
     bindE (liftE (ensure (result_type = Bool) UnsupportedOpcode)) (\<lambda>_.
     if nd_immediate node = 0 then store_value node_index (VBool False)
     else if nd_immediate node = 1 then store_value node_index (VBool True)
     else liftE (Err InvalidValue)))"

definition execute_const_u64 :: "usize \<Rightarrow> NodeRecord \<Rightarrow> ('h, unit) exec" where
  "execute_const_u64 node_index node =
     bindE (liftE (result_type_of node)) (\<lambda>result_type.
     case result_type of
       U64 \<Rightarrow> store_value node_index (VU64 (nd_immediate node))
     | ObjectId \<Rightarrow> store_value node_index (VObjectId (nd_immediate node))
     | RevisionId \<Rightarrow> store_value node_index (VRevisionId (nd_immediate node))
     | TaskId \<Rightarrow> store_value node_index (VTaskId (nd_immediate node))
     | ProposalId \<Rightarrow> store_value node_index (VProposalId (nd_immediate node))
     | ErrorCode \<Rightarrow>
         bindE (liftE (ok_or (try_from_word (nd_immediate node)) InvalidValue)) (\<lambda>code.
         store_value node_index (VErrorCode code))
     | _ \<Rightarrow> liftE (Err UnsupportedOpcode))"

definition execute_less_than_u64 :: "usize \<Rightarrow> NodeRecord \<Rightarrow> ('h, unit) exec" where
  "execute_less_than_u64 node_index node =
     bindE (liftE (result_type_of node)) (\<lambda>result_type.
     bindE (liftE (ensure (result_type = Bool) UnsupportedOpcode)) (\<lambda>_.
     bindE (readE (expect_u64 (nd_input0 node))) (\<lambda>lhs.
     bindE (readE (expect_u64 (nd_input1 node))) (\<lambda>rhs.
     store_value node_index (VBool (lhs < rhs))))))"

definition execute_eq :: "usize \<Rightarrow> NodeRecord \<Rightarrow> ('h, unit) exec" where
  "execute_eq node_index node =
     bindE (liftE (result_type_of node)) (\<lambda>result_type.
     bindE (liftE (ensure (result_type = Bool) UnsupportedOpcode)) (\<lambda>_.
     bindE (readE (expect_u64 (nd_input0 node))) (\<lambda>lhs.
     bindE (readE (expect_u64 (nd_input1 node))) (\<lambda>rhs.
     store_value node_index (VBool (lhs = rhs))))))"

definition execute_const_utf8 :: "tig_graph \<Rightarrow> usize \<Rightarrow> NodeRecord \<Rightarrow> ('h, unit) exec" where
  "execute_const_utf8 g node_index node =
     bindE (liftE (ok_or (try_from_word (nd_auxiliary1 node)) InvalidString)) (\<lambda>len.
     bindE (liftE (map_errR (\<lambda>_. InvalidString) (string_at g (nd_auxiliary0 node) len))) (\<lambda>_.
     store_value node_index (VSlice (nd_auxiliary0 node) (nd_auxiliary1 node) True)))"

definition execute_const_bytes :: "tig_graph \<Rightarrow> usize \<Rightarrow> NodeRecord \<Rightarrow> ('h, unit) exec" where
  "execute_const_bytes g node_index node =
     (let offset = unat (nd_auxiliary0 node); len = unat (nd_auxiliary1 node) in
     bindE (liftE (ok_or (checked_add_usize offset len) InvalidString)) (\<lambda>end'.
     bindE (liftE (ok_or (slice_get (constant_pool g) offset end') InvalidString)) (\<lambda>_.
     store_value node_index (VSlice (nd_auxiliary0 node) (nd_auxiliary1 node) False))))"

definition host_utf8_value :: "u32 \<Rightarrow> HostCallResult \<Rightarrow> (RuntimeError, Value) result" where
  "host_utf8_value producer_node result =
     (let len = unat (hr_bytes_len result) in
     if len > MAX_HOST_RESULT_BYTES then Err InvalidString
     else
       bindR (host_bytes result len) (\<lambda>bytes.
       if \<not> utf8_valid bytes then Err InvalidString
       else Ok (VHostUtf8 producer_node (hr_bytes_len result))))"

definition task_context_host_result_value ::
    "u32 \<Rightarrow> u32 \<Rightarrow> HostCallResult \<Rightarrow> (RuntimeError, Value) result" where
  "task_context_host_result_value producer_node field result =
     (if field = TASK_CONTEXT_RESULT_ACTIVE_TASK_ID then Ok (VTaskId (hr_object_id result))
      else if field = TASK_CONTEXT_RESULT_CANDIDATE_TASK_ID then Ok (VTaskId (hr_revision result))
      else if field = TASK_CONTEXT_RESULT_CONFIDENCE_SCORE then Ok (VU64 (hr_capability result))
      else if field = TASK_CONTEXT_RESULT_PROPOSAL_KIND then Ok (VU64 (ucast (hr_reserved0 result)))
      else if field = TASK_CONTEXT_RESULT_REASON_UTF8 then host_utf8_value producer_node result
      else Err InvalidValue)"

definition command_host_result_value ::
    "u32 \<Rightarrow> u32 \<Rightarrow> HostCallResult \<Rightarrow> (RuntimeError, Value) result" where
  "command_host_result_value producer_node field result =
     (if field = COMMAND_FIELD_KIND then Ok (VU64 (ucast (hr_reserved0 result)))
      else if field = COMMAND_FIELD_OBJECT_ID then Ok (VObjectId (hr_object_id result))
      else if field = COMMAND_FIELD_TASK_ID then Ok (VTaskId (hr_revision result))
      else if field = COMMAND_FIELD_PROPOSAL_ID then Ok (VProposalId (hr_capability result))
      else if field = COMMAND_FIELD_TEXT_UTF8 then host_utf8_value producer_node result
      else Err InvalidValue)"

definition object_host_result_value ::
    "u32 \<Rightarrow> u32 \<Rightarrow> HostCallResult \<Rightarrow> (RuntimeError, Value) result" where
  "object_host_result_value producer_node field result =
     (if field = HOST_RESULT_STATUS then Ok (VErrorCode (hr_status result))
      else if field = HOST_RESULT_OBJECT_ID then Ok (VObjectId (hr_object_id result))
      else if field = HOST_RESULT_REVISION then Ok (VRevisionId (hr_revision result))
      else if field = HOST_RESULT_CAPABILITY then
        (if hr_capability result = 0 then Err InvalidValue else Ok (VCapability (hr_capability result)))
      else if field = HOST_RESULT_UTF8 then host_utf8_value producer_node result
      else Err InvalidValue)"

definition execute_host_result :: "tig_graph \<Rightarrow> usize \<Rightarrow> NodeRecord \<Rightarrow> ('h, unit) exec" where
  "execute_host_result g node_index node =
     (let producer_index = unat (nd_input0 node) in
     bindE (liftE (ok_or (list_get (nodes g) producer_index) InvalidInput)) (\<lambda>producer.
     bindE (liftE (ok_or (opcode_try_from (nd_opcode producer)) UnsupportedOpcode)) (\<lambda>producer_opcode.
     bindE (readE (\<lambda>it. ok_or (if producer_index < MAX_RUNTIME_VALUES
                                then it_host_results it producer_index else None) InvalidValue)) (\<lambda>result.
     bindE (liftE
       (if producer_opcode = TaskContextRead
        then task_context_host_result_value (nd_input0 node) (nd_auxiliary0 node) result
        else if producer_opcode = CommandRead
        then command_host_result_value (nd_input0 node) (nd_auxiliary0 node) result
        else object_host_result_value (nd_input0 node) (nd_auxiliary0 node) result)) (\<lambda>v.
     store_value node_index v)))))"

section \<open>Host operations\<close>

definition execute_system_log :: "tig_graph \<Rightarrow> 'h Host \<Rightarrow> usize \<Rightarrow> NodeRecord \<Rightarrow> ('h, unit) exec" where
  "execute_system_log g H node_index node =
     bindE (readE (expect_effect (nd_input0 node))) (\<lambda>_.
     bindE (readE (expect_capability (nd_input1 node))) (\<lambda>capability.
     bindE (readE (expect_utf8_bytes g (nd_input2 node))) (\<lambda>text.
     bindE (callE (\<lambda>h. system_log H h capability text)) (\<lambda>_.
     store_value node_index (VEffect (of_nat node_index))))))"

definition execute_object_create :: "tig_graph \<Rightarrow> 'h Host \<Rightarrow> usize \<Rightarrow> NodeRecord \<Rightarrow> ('h, unit) exec" where
  "execute_object_create g H node_index node =
     bindE (readE (expect_effect (nd_input0 node))) (\<lambda>_.
     bindE (readE (expect_capability (nd_input1 node))) (\<lambda>capability.
     bindE (readE (expect_utf8_bytes g (nd_input2 node))) (\<lambda>kind.
     bindE (callE (\<lambda>h. object_create H h capability kind)) (\<lambda>result.
     store_host_result node_index result))))"

definition execute_object_query :: "tig_graph \<Rightarrow> 'h Host \<Rightarrow> usize \<Rightarrow> NodeRecord \<Rightarrow> ('h, unit) exec" where
  "execute_object_query g H node_index node =
     bindE (readE (expect_effect (nd_input0 node))) (\<lambda>_.
     bindE (readE (expect_capability (nd_input1 node))) (\<lambda>capability.
     bindE (readE (expect_utf8_bytes g (nd_input2 node))) (\<lambda>kind.
     bindE (callE (\<lambda>h. object_query H h capability kind)) (\<lambda>result.
     store_host_result node_index result))))"

definition execute_object_inspect :: "'h Host \<Rightarrow> usize \<Rightarrow> NodeRecord \<Rightarrow> ('h, unit) exec" where
  "execute_object_inspect H node_index node =
     bindE (readE (expect_effect (nd_input0 node))) (\<lambda>_.
     bindE (readE (expect_capability (nd_input1 node))) (\<lambda>capability.
     bindE (readE (expect_object_id (nd_input2 node))) (\<lambda>object_id.
     bindE (callE (\<lambda>h. object_inspect H h capability object_id)) (\<lambda>result.
     store_host_result node_index result))))"

definition execute_object_revise :: "tig_graph \<Rightarrow> 'h Host \<Rightarrow> usize \<Rightarrow> NodeRecord \<Rightarrow> ('h, unit) exec" where
  "execute_object_revise g H node_index node =
     bindE (readE (expect_effect (nd_input0 node))) (\<lambda>_.
     bindE (readE (expect_capability (nd_input1 node))) (\<lambda>capability.
     bindE (readE (expect_object_id (nd_input2 node))) (\<lambda>object_id.
     bindE (readE (expect_bytes g (nd_input3 node))) (\<lambda>text.
     bindE (callE (\<lambda>h. object_revise H h capability object_id text)) (\<lambda>result.
     store_host_result node_index result)))))"

definition execute_object_history :: "'h Host \<Rightarrow> usize \<Rightarrow> NodeRecord \<Rightarrow> ('h, unit) exec" where
  "execute_object_history H node_index node =
     bindE (readE (expect_effect (nd_input0 node))) (\<lambda>_.
     bindE (readE (expect_capability (nd_input1 node))) (\<lambda>capability.
     bindE (readE (expect_object_id (nd_input2 node))) (\<lambda>object_id.
     bindE (callE (\<lambda>h. object_history H h capability object_id)) (\<lambda>result.
     store_host_result node_index result))))"

definition execute_task_context :: "'h Host \<Rightarrow> usize \<Rightarrow> NodeRecord \<Rightarrow> ('h, unit) exec" where
  "execute_task_context H node_index node =
     bindE (readE (expect_effect (nd_input0 node))) (\<lambda>_.
     bindE (readE (expect_capability (nd_input1 node))) (\<lambda>capability.
     bindE (callE (\<lambda>h. task_context H h capability)) (\<lambda>result.
     bindE (liftE (validate_task_context_result result)) (\<lambda>_.
     put_host_result node_index result))))"

definition execute_task_proposal_emit :: "'h Host \<Rightarrow> usize \<Rightarrow> NodeRecord \<Rightarrow> ('h, unit) exec" where
  "execute_task_proposal_emit H node_index node =
     bindE (readE (expect_effect (nd_input0 node))) (\<lambda>_.
     bindE (readE (expect_capability (nd_input1 node))) (\<lambda>capability.
     bindE (readE (expect_task_id (nd_input2 node))) (\<lambda>candidate_task_id.
     bindE (readE (expect_u64 (nd_input3 node))) (\<lambda>score.
     bindE (callE (\<lambda>h. task_propose H h capability candidate_task_id score)) (\<lambda>_.
     store_value node_index (VEffect (of_nat node_index)))))))"

definition execute_command_read :: "'h Host \<Rightarrow> usize \<Rightarrow> NodeRecord \<Rightarrow> ('h, unit) exec" where
  "execute_command_read H node_index node =
     bindE (readE (expect_effect (nd_input0 node))) (\<lambda>_.
     bindE (readE (expect_capability (nd_input1 node))) (\<lambda>capability.
     bindE (callE (\<lambda>h. command_read H h capability)) (\<lambda>result.
     bindE (liftE (validate_command_read_result result)) (\<lambda>_.
     put_host_result node_index result))))"

definition execute_command_result_emit ::
    "tig_graph \<Rightarrow> 'h Host \<Rightarrow> usize \<Rightarrow> NodeRecord \<Rightarrow> ('h, unit) exec" where
  "execute_command_result_emit g H node_index node =
     bindE (readE (expect_effect (nd_input0 node))) (\<lambda>_.
     bindE (readE (expect_capability (nd_input1 node))) (\<lambda>capability.
     bindE (readE (expect_error_code (nd_input2 node))) (\<lambda>status.
     bindE (readE (expect_utf8_bytes g (nd_input3 node))) (\<lambda>text.
     bindE (callE (\<lambda>h. command_result_emit H h capability status text)) (\<lambda>_.
     store_value node_index (VEffect (of_nat node_index)))))))"

section \<open>Nodes, blocks and the main loop\<close>

definition execute_opcode :: "tig_graph \<Rightarrow> 'h Host \<Rightarrow> Opcode \<Rightarrow> usize \<Rightarrow> NodeRecord \<Rightarrow> ('h, unit) exec" where
  "execute_opcode g H opcode node_index node =
     (case opcode of
        BlockParam \<Rightarrow> execute_block_param node_index node
      | EffectStart \<Rightarrow> store_value node_index (VEffect (of_nat node_index))
      | ConstBool \<Rightarrow> execute_const_bool node_index node
      | ConstU64 \<Rightarrow> execute_const_u64 node_index node
      | Eq \<Rightarrow> execute_eq node_index node
      | LessThanU64 \<Rightarrow> execute_less_than_u64 node_index node
      | ConstBytes \<Rightarrow> execute_const_bytes g node_index node
      | ConstUtf8 \<Rightarrow> execute_const_utf8 g node_index node
      | HostResult \<Rightarrow> execute_host_result g node_index node
      | SystemLog \<Rightarrow> execute_system_log g H node_index node
      | ObjectCreate \<Rightarrow> execute_object_create g H node_index node
      | ObjectQuery \<Rightarrow> execute_object_query g H node_index node
      | ObjectInspect \<Rightarrow> execute_object_inspect H node_index node
      | ObjectRevise \<Rightarrow> execute_object_revise g H node_index node
      | ObjectHistory \<Rightarrow> execute_object_history H node_index node
      | TaskContextRead \<Rightarrow> execute_task_context H node_index node
      | TaskProposalEmit \<Rightarrow> execute_task_proposal_emit H node_index node
      | CommandRead \<Rightarrow> execute_command_read H node_index node
      | CommandResultEmit \<Rightarrow> execute_command_result_emit g H node_index node
      | Jump \<Rightarrow> liftE (Ok ())
      | Branch \<Rightarrow> liftE (Ok ())
      | Return \<Rightarrow> liftE (Ok ())
      | _ \<Rightarrow> liftE (Err UnsupportedOpcode))"

definition try_u32 :: "usize \<Rightarrow> u32 option" where
  "try_u32 n = (if n < 2 ^ 32 then Some (of_nat n) else None)"

definition charge_node :: "usize \<Rightarrow> ('h, unit) exec" where
  "charge_node node_index s =
     (if it_budget (fst s) = 0 then
        (Err BudgetExhausted,
         (fst s)\<lparr>it_last_node := (case try_u32 node_index of Some n \<Rightarrow> n | None \<Rightarrow> NO_VALUE)\<rparr>, snd s)
      else
        bindE (modifyE (\<lambda>it. it\<lparr>it_budget := it_budget it - 1\<rparr>)) (\<lambda>_.
        bindE (readE (\<lambda>it. ok_or (checked_add_word (it_executed_nodes it) 1) InvalidValue)) (\<lambda>executed.
        bindE (modifyE (\<lambda>it. it\<lparr>it_executed_nodes := executed\<rparr>)) (\<lambda>_.
        bindE (liftE (ok_or (try_u32 node_index) InvalidNode)) (\<lambda>n.
        modifyE (\<lambda>it. it\<lparr>it_last_node := n\<rparr>))))) s)"

definition dispatch_node :: "tig_graph \<Rightarrow> 'h Host \<Rightarrow> usize \<Rightarrow> ('h, unit) exec" where
  "dispatch_node g H node_index =
     bindE (charge_node node_index) (\<lambda>_.
     bindE (liftE (ok_or (list_get (nodes g) node_index) InvalidNode)) (\<lambda>node.
     bindE (liftE (ok_or (opcode_try_from (nd_opcode node)) UnsupportedOpcode)) (\<lambda>opcode.
     execute_opcode g H opcode node_index node)))"

datatype BlockOutcome = ReturnOutcome | JumpOutcome usize

definition jump_to :: "tig_graph \<Rightarrow> u32 \<Rightarrow> (RuntimeError, BlockOutcome) result" where
  "jump_to g target =
     bindR (ensure (list_get (blocks g) (unat target) \<noteq> None) InvalidBlock) (\<lambda>_.
     Ok (JumpOutcome (unat target)))"

text \<open>The loop over the nodes of a block; falling off its end is an error.\<close>

fun execute_nodes :: "tig_graph \<Rightarrow> 'h Host \<Rightarrow> usize list \<Rightarrow> ('h, BlockOutcome) exec" where
  "execute_nodes g H [] = liftE (Err InvalidBlock)"
| "execute_nodes g H (node_index # rest) =
     bindE (dispatch_node g H node_index) (\<lambda>_.
     bindE (liftE (ok_or (list_get (nodes g) node_index) InvalidNode)) (\<lambda>node.
     bindE (liftE (ok_or (opcode_try_from (nd_opcode node)) UnsupportedOpcode)) (\<lambda>opcode.
     if opcode = Return then liftE (Ok ReturnOutcome)
     else if opcode = Jump then liftE (jump_to g (nd_auxiliary0 node))
     else if opcode = Branch then
       bindE (readE (expect_bool (nd_input0 node))) (\<lambda>taken.
       liftE (jump_to g (if taken then nd_auxiliary0 node else nd_auxiliary1 node)))
     else execute_nodes g H rest)))"

definition execute_block :: "tig_graph \<Rightarrow> 'h Host \<Rightarrow> usize \<Rightarrow> ('h, BlockOutcome) exec" where
  "execute_block g H block_index =
     bindE (liftE (ok_or (list_get (blocks g) block_index) InvalidBlock)) (\<lambda>block.
     let first = unat (blk_first_node block); count = unat (blk_node_count block) in
     bindE (liftE (ok_or (checked_add_usize first count) InvalidBlock)) (\<lambda>end'.
     execute_nodes g H [first..<end']))"

section \<open>What a step leaves alone\<close>

named_theorems keeps_intros

text \<open>The budget, the counters and the imports are not changed.\<close>

definition same_account :: "Interpreter \<Rightarrow> Interpreter \<Rightarrow> bool" where
  "same_account it it' \<longleftrightarrow>
     it_budget it' = it_budget it \<and> it_executed_nodes it' = it_executed_nodes it \<and>
     it_last_node it' = it_last_node it \<and> it_imports it' = it_imports it"

definition keeps :: "('h, 'a) exec \<Rightarrow> bool" where
  "keeps m \<longleftrightarrow> (\<forall>s. same_account (fst s) (fst (snd (m s))))"

lemma same_account_refl [simp]: "same_account it it"
  by (simp add: same_account_def)

lemma same_account_trans: "same_account a b \<Longrightarrow> same_account b c \<Longrightarrow> same_account a c"
  by (simp add: same_account_def)

lemma keepsD: "keeps m \<Longrightarrow> m s = (r, s') \<Longrightarrow> same_account (fst s) (fst s')"
  unfolding keeps_def by (metis fst_conv snd_conv)

lemma keeps_bindE [keeps_intros]:
  assumes "keeps m" and "\<And>x. keeps (f x)"
  shows "keeps (bindE m f)"
  unfolding keeps_def
proof
  fix s
  have m: "same_account (fst s) (fst (snd (m s)))" and f: "same_account (fst t) (fst (snd (f x t)))" for x t
    using assms unfolding keeps_def by blast+
  show "same_account (fst s) (fst (snd (bindE m f s)))"
  proof -
    obtain r s' where "m s = (r, s')" by (rule prod.exhaust)
    with m f [of s'] show ?thesis by (cases r) (auto simp: bindE_def intro: same_account_trans)
  qed
qed

lemma keeps_basic [keeps_intros]:
  "keeps (liftE r)" "keeps (readE f)" "keeps (callE c)"
  by (auto simp: keeps_def liftE_def readE_def callE_def split: prod.split sum.split)

lemma keeps_modifyE [keeps_intros]: "(\<And>it. same_account it (f it)) \<Longrightarrow> keeps (modifyE f)"
  by (simp add: keeps_def modifyE_def)

lemma keeps_store [keeps_intros]:
  "keeps (store_value i v)" "keeps (put_host_result i r)" "keeps (store_host_result i r)"
  unfolding store_value_def put_host_result_def store_host_result_def
  by (auto intro!: keeps_intros simp: same_account_def)

lemmas execute_defs =
  execute_block_param_def execute_const_bool_def execute_const_u64_def execute_less_than_u64_def
  execute_eq_def execute_const_utf8_def execute_const_bytes_def execute_host_result_def
  execute_system_log_def execute_object_create_def execute_object_query_def
  execute_object_inspect_def execute_object_revise_def execute_object_history_def
  execute_task_context_def execute_task_proposal_emit_def execute_command_read_def
  execute_command_result_emit_def

lemma keeps_execute_opcode: "keeps (execute_opcode g H p i n)"
  by (cases p) (auto simp: execute_opcode_def execute_defs Let_def split: PythType.split
      intro!: keeps_intros)

section \<open>The budget\<close>

text \<open>Executed nodes and remaining budget add up to the initial budget.\<close>

definition accounts :: "nat \<Rightarrow> Interpreter \<Rightarrow> bool" where
  "accounts B it \<longleftrightarrow> B < 2 ^ 64 \<and> unat (it_executed_nodes it) + unat (it_budget it) = B"

lemma accounts_new: "accounts (unat budget) (interpreter_new caps budget)"
  using unat_bound [of budget] by (simp add: accounts_def interpreter_new_def)

lemma accounts_same: "same_account it it' \<Longrightarrow> accounts B it' = accounts B it"
  by (simp add: accounts_def same_account_def)

lemma unat_minus_1: "(w :: 'w::len word) \<noteq> 0 \<Longrightarrow> unat (w - 1) = unat w - 1"
  by (simp add: unat_minus_one)

lemma charge_node_broke:
  assumes "it_budget it = 0"
  shows "\<exists>n. charge_node i (it, h) = (Err BudgetExhausted, it\<lparr>it_last_node := n\<rparr>, h)"
  using assms by (simp add: charge_node_def) blast

lemma charge_node_pays:
  assumes "accounts B it" and "it_budget it \<noteq> 0" and "i < 2 ^ 32"
  defines "it' \<equiv> it\<lparr>it_budget := it_budget it - 1, it_executed_nodes := it_executed_nodes it + 1,
     it_last_node := of_nat i\<rparr>"
  shows "charge_node i (it, h) = (Ok (), it', h)" and "accounts B it'"
    and "unat (it_budget it') < unat (it_budget it)"
proof -
  have pos: "unat (it_budget it) > 0" using assms(2) by (simp add: unat_gt_0)
  then have "unat (it_executed_nodes it) + unat (1 :: u64) < 2 ^ LENGTH(64)"
    using assms(1) by (simp add: accounts_def)
  then have add: "checked_add_word (it_executed_nodes it) 1 = Some (it_executed_nodes it + 1)"
    by (simp add: checked_add_word_def)
  with assms(2,3) show "charge_node i (it, h) = (Ok (), it', h)"
    by (simp add: charge_node_def bindE_def modifyE_def readE_def liftE_def try_u32_def it'_def)
  show "accounts B it'" and "unat (it_budget it') < unat (it_budget it)"
    using assms(1,2) pos checked_add_word_unat(1) [OF add] unat_minus_1 [OF assms(2)]
    by (auto simp: accounts_def it'_def)
qed

text \<open>Whatever a node does, it does not raise the budget, and it lowers it if it succeeds.\<close>

lemma charge_node_budget:
  assumes "charge_node i s = (r, s')"
  shows "unat (it_budget (fst s')) \<le> unat (it_budget (fst s))"
    and "r = Ok u \<Longrightarrow> unat (it_budget (fst s')) < unat (it_budget (fst s))"
proof -
  have "unat (it_budget (fst s)) > 0 \<and> unat (it_budget (fst s) - 1) = unat (it_budget (fst s)) - 1"
    if "it_budget (fst s) \<noteq> 0"
    using that unat_minus_1 [OF that] by (simp add: unat_gt_0)
  then show "unat (it_budget (fst s')) \<le> unat (it_budget (fst s))"
    and "r = Ok u \<Longrightarrow> unat (it_budget (fst s')) < unat (it_budget (fst s))"
    using assms
    by (auto simp: charge_node_def bindE_def modifyE_def readE_def liftE_def ok_or_def
        split: if_splits option.splits)
qed

lemma dispatch_node_budget:
  assumes "dispatch_node g H i s = (r, s')"
  shows "unat (it_budget (fst s')) \<le> unat (it_budget (fst s))"
    and "r = Ok u \<Longrightarrow> unat (it_budget (fst s')) < unat (it_budget (fst s))"
proof -
  let ?rest = "bindE (liftE (ok_or (list_get (nodes g) i) InvalidNode)) (\<lambda>node.
     bindE (liftE (ok_or (opcode_try_from (nd_opcode node)) UnsupportedOpcode)) (\<lambda>opcode.
     execute_opcode g H opcode i node))"
  obtain q t where charge: "charge_node i s = (q, t)" by (cases "charge_node i s")
  note C = charge_node_budget [OF charge]
  have "keeps ?rest" by (intro keeps_intros keeps_execute_opcode)
  from keepsD [OF this, of t r s']
  have same: "it_budget (fst s') = it_budget (fst t)" if "?rest t = (r, s')"
    using that by (simp add: same_account_def)
  show "unat (it_budget (fst s')) \<le> unat (it_budget (fst s))"
    using assms C(1) same charge by (cases q) (auto simp: dispatch_node_def bindE_def [of "charge_node i"])
  show "unat (it_budget (fst s')) < unat (it_budget (fst s))" if "r = Ok u"
    using assms C(2) same charge that
    by (cases q) (auto simp: dispatch_node_def bindE_def [of "charge_node i"])
qed

lemma execute_nodes_budget:
  "execute_nodes g H is s = (Ok x, s') \<Longrightarrow> unat (it_budget (fst s')) < unat (it_budget (fst s))"
proof (induction "is" arbitrary: s)
  case Nil
  then show ?case by (simp add: liftE_def)
next
  case (Cons i "is")
  obtain r t where d: "dispatch_node g H i s = (r, t)" by (cases "dispatch_node g H i s")
  have le: "unat (it_budget (fst t)) < unat (it_budget (fst s))" if "r = Ok ()"
    using dispatch_node_budget(2) [OF d that] .
  show ?case
    using Cons.prems d le
    by (cases r) (auto simp: bindE_def liftE_def readE_def split: result.splits if_splits prod.splits
        dest!: Cons.IH)
qed

lemma execute_block_budget:
  "execute_block g H b s = (Ok x, s') \<Longrightarrow> unat (it_budget (fst s')) < unat (it_budget (fst s))"
  by (auto simp: execute_block_def bindE_def liftE_def Let_def split: result.splits dest: execute_nodes_budget)

function execute_from :: "tig_graph \<Rightarrow> 'h Host \<Rightarrow> usize \<Rightarrow> ('h, unit) exec" where
  "execute_from g H block_index s =
     (case execute_block g H block_index s of
        (Ok ReturnOutcome, s') \<Rightarrow> (Ok (), s')
      | (Ok (JumpOutcome target), s') \<Rightarrow> execute_from g H target s'
      | (Err e, s') \<Rightarrow> (Err e, s')
      | (Panic, s') \<Rightarrow> (Panic, s')
      | (Diverge, s') \<Rightarrow> (Diverge, s'))"
  by pat_completeness auto

termination
  by (relation "measure (\<lambda>(g, H, b, s). unat (it_budget (fst s)))")
    (auto dest!: execute_block_budget [OF sym])

declare execute_from.simps [simp del]

definition execute_inner :: "tig_graph \<Rightarrow> 'h Host \<Rightarrow> ('h, unit) exec" where
  "execute_inner g H = execute_from g H (unat (hdr_entry_block (header g)))"

definition exit_record :: "u16 \<Rightarrow> u16 \<Rightarrow> Interpreter \<Rightarrow> GraphExitRecord" where
  "exit_record status code it =
     \<lparr>ex_status = status, ex_error_code = code, ex_last_node = it_last_node it,
      ex_executed_nodes = it_executed_nodes it, ex_result_type = GRAPH_RESULT_UNIT,
      ex_reserved0 = 0, ex_reserved1 = 0, ex_result_raw = 0\<rparr>"

definition exit_ok :: "Interpreter \<Rightarrow> GraphExitRecord" where
  "exit_ok = exit_record GRAPH_EXIT_OK 0"

definition exit_budget_exhausted :: "Interpreter \<Rightarrow> GraphExitRecord" where
  "exit_budget_exhausted = exit_record GRAPH_EXIT_BUDGET_EXHAUSTED (error_code BudgetExhausted)"

definition exit_runtime_error :: "RuntimeError \<Rightarrow> Interpreter \<Rightarrow> GraphExitRecord" where
  "exit_runtime_error e = exit_record GRAPH_EXIT_RUNTIME_ERROR (error_code e)"

text \<open>The exit record and the final host state; a panic of the runtime has no exit record.\<close>

definition execute ::
    "tig_graph \<Rightarrow> 'h Host \<Rightarrow> Interpreter \<Rightarrow> 'h \<Rightarrow> (RuntimeError, GraphExitRecord) result \<times> 'h" where
  "execute g H it h =
     (case execute_inner g H (it, h) of
        (Ok _, it', h') \<Rightarrow> (Ok (exit_ok it'), h')
      | (Err BudgetExhausted, it', h') \<Rightarrow> (Ok (exit_budget_exhausted it'), h')
      | (Err e, it', h') \<Rightarrow> (Ok (exit_runtime_error e it'), h')
      | (Panic, it', h') \<Rightarrow> (Panic, h')
      | (Diverge, it', h') \<Rightarrow> (Diverge, h'))"

end
