(* ===== verification/Tig_Soundness.thy ===== *)
theory Tig_Soundness
  imports Tig_Interp
begin

text \<open>
  What admission by the verifier gives the interpreter. The host is constrained only through the
  contract \<open>host_contract\<close>: a predicate on host states that calls with authorised capabilities keep.
  The execution invariant says that every node evaluated on the current control-flow path has a value
  of its type; capability values stem from the imports or from the host.
\<close>

section \<open>Host calls as data\<close>

datatype HostCall =
    SystemLogCall PackedCapability "u8 list"
  | ObjectCreateCall PackedCapability "u8 list"
  | ObjectQueryCall PackedCapability "u8 list"
  | ObjectInspectCall PackedCapability u64
  | ObjectReviseCall PackedCapability u64 "u8 list"
  | ObjectHistoryCall PackedCapability u64
  | TaskContextCall PackedCapability
  | TaskProposeCall PackedCapability u64 u64
  | CommandReadCall PackedCapability
  | CommandResultEmitCall PackedCapability u16 "u8 list"

fun call_op :: "HostCall \<Rightarrow> Opcode" where
  "call_op (SystemLogCall _ _) = SystemLog"
| "call_op (ObjectCreateCall _ _) = ObjectCreate"
| "call_op (ObjectQueryCall _ _) = ObjectQuery"
| "call_op (ObjectInspectCall _ _) = ObjectInspect"
| "call_op (ObjectReviseCall _ _ _) = ObjectRevise"
| "call_op (ObjectHistoryCall _ _) = ObjectHistory"
| "call_op (TaskContextCall _) = TaskContextRead"
| "call_op (TaskProposeCall _ _ _) = TaskProposalEmit"
| "call_op (CommandReadCall _) = CommandRead"
| "call_op (CommandResultEmitCall _ _ _) = CommandResultEmit"

fun call_cap :: "HostCall \<Rightarrow> PackedCapability" where
  "call_cap (SystemLogCall c _) = c"
| "call_cap (ObjectCreateCall c _) = c"
| "call_cap (ObjectQueryCall c _) = c"
| "call_cap (ObjectInspectCall c _) = c"
| "call_cap (ObjectReviseCall c _ _) = c"
| "call_cap (ObjectHistoryCall c _) = c"
| "call_cap (TaskContextCall c) = c"
| "call_cap (TaskProposeCall c _ _) = c"
| "call_cap (CommandReadCall c) = c"
| "call_cap (CommandResultEmitCall c _ _) = c"

definition no_result :: "(HostError + unit) \<times> 'h \<Rightarrow> (HostError + HostCallResult option) \<times> 'h" where
  "no_result r = map_prod (map_sum id (\<lambda>_. None)) id r"

definition some_result ::
    "(HostError + HostCallResult) \<times> 'h \<Rightarrow> (HostError + HostCallResult option) \<times> 'h" where
  "some_result r = map_prod (map_sum id Some) id r"

fun host_invoke ::
    "'h Host \<Rightarrow> HostCall \<Rightarrow> 'h \<Rightarrow> (HostError + HostCallResult option) \<times> 'h" where
  "host_invoke H (SystemLogCall c text) h = no_result (system_log H h c text)"
| "host_invoke H (ObjectCreateCall c kind) h = some_result (object_create H h c kind)"
| "host_invoke H (ObjectQueryCall c kind) h = some_result (object_query H h c kind)"
| "host_invoke H (ObjectInspectCall c i) h = some_result (object_inspect H h c i)"
| "host_invoke H (ObjectReviseCall c i text) h = some_result (object_revise H h c i text)"
| "host_invoke H (ObjectHistoryCall c i) h = some_result (object_history H h c i)"
| "host_invoke H (TaskContextCall c) h = some_result (task_context H h c)"
| "host_invoke H (TaskProposeCall c i score) h = no_result (task_propose H h c i score)"
| "host_invoke H (CommandReadCall c) h = some_result (command_read H h c)"
| "host_invoke H (CommandResultEmitCall c status text) h = no_result (command_result_emit H h c status text)"

lemma result_simps [simp]:
  "no_result (Inl e, h) = (Inl e, h)" "no_result (Inr u, h) = (Inr None, h)"
  "some_result (Inl e, h) = (Inl e, h)" "some_result (Inr r, h) = (Inr (Some r), h)"
  by (simp_all add: no_result_def some_result_def)

text \<open>
  A call is authorised for a package when its capability is bound to an import that declares the
  resource kind and the rights the opcode requires, or when the host gave the capability for an object
  it created or found, and the opcode asks for no more than reading and revising an object.
\<close>

definition call_authorised ::
    "tig_graph \<Rightarrow> PackedCapability array \<Rightarrow> (PackedCapability \<Rightarrow> bool) \<Rightarrow> HostCall \<Rightarrow> bool" where
  "call_authorised g caps got call \<longleftrightarrow>
     (let sgn = signature (call_op call); kind = the (sig_required_resource_kind sgn);
          rights = sig_required_rights sgn in
      (\<exists>slot. origin_grants g (ImportOrigin slot) kind rights \<and> call_cap call = caps (unat slot)) \<or>
      (origin_grants g (HostResultOrigin RESOURCE_OBJECT (RIGHTS_READ OR RIGHTS_REVISE)) kind rights \<and>
         got (call_cap call)))"

definition gives_capability :: "Opcode \<Rightarrow> bool" where
  "gives_capability p \<longleftrightarrow> p = ObjectCreate \<or> p = ObjectQuery"

locale host_contract =
  fixes g :: tig_graph
    and caps :: "PackedCapability array"
    and H :: "'h Host"
    and Q :: "'h \<Rightarrow> bool"
    and got :: "'h \<Rightarrow> PackedCapability \<Rightarrow> bool"
  assumes invoke_keeps:
      "Q h \<Longrightarrow> call_authorised g caps (got h) call \<Longrightarrow> host_invoke H call h = (r, h') \<Longrightarrow> Q h'"
    and invoke_mono:
      "Q h \<Longrightarrow> call_authorised g caps (got h) call \<Longrightarrow> host_invoke H call h = (r, h') \<Longrightarrow>
        got h c \<Longrightarrow> got h' c"
    and invoke_gives:
      "Q h \<Longrightarrow> call_authorised g caps (got h) call \<Longrightarrow> host_invoke H call h = (Inr (Some res), h') \<Longrightarrow>
        gives_capability (call_op call) \<Longrightarrow> got h' (hr_capability res)"

section \<open>Admitted packages\<close>

definition jumps_unit :: "tig_graph \<Rightarrow> bool" where
  "jumps_unit g \<longleftrightarrow> (\<forall>i < length (nodes g). node_op g i = Jump \<longrightarrow> node_ty g i = Unit)"

definition admitted :: "tig_graph \<Rightarrow> bool" where
  "admitted g \<longleftrightarrow> verified g \<and> graph_within_limits g \<and> jumps_unit g"

lemma admitted_graph_bounds:
  assumes "admitted g" and "i < length (nodes g)"
  shows "i < MAX_RUNTIME_VALUES" and "i < 2 ^ 32"
  using assms by (simp_all add: admitted_def graph_within_limits_def MAX_RUNTIME_VALUES_def MAX_GRAPH_NODES_def)

text \<open>A node with a type other than \<open>Unit\<close> is not a terminator.\<close>

lemma admitted_value_node:
  assumes adm: "admitted g" and i: "i < length (nodes g)" and ty: "node_ty g i \<noteq> Unit"
  shows "\<not> is_terminator (node_op g i)"
proof -
  from adm have "node_sem g i" using i by (auto simp: admitted_def elim: verifiedE)
  then have "opcode_accepts_result (node_op g i) (node_ty g i) (sig_result (node_sig g i))"
    if "node_op g i = Branch \<or> node_op g i = Return"
    using that unfolding node_sem_def by auto
  then have "node_op g i = Branch \<or> node_op g i = Return \<Longrightarrow> node_ty g i = Unit"
    by (auto simp: node_sig_def sig_defs opcode_accepts_result_def split: if_splits)
  moreover have "node_op g i = Jump \<Longrightarrow> node_ty g i = Unit"
    using adm i by (simp add: admitted_def jumps_unit_def)
  ultimately show ?thesis using ty by (auto simp: is_terminator_def)
qed

lemma block_wf_nodes:
  assumes "block_wf g b" and "blk_start g b \<le> i" and "i < blk_end g b"
  shows "node_block g i = b" and "is_terminator (node_op g i) \<longleftrightarrow> i = blk_end g b - 1"
  using assms unfolding block_wf_def node_block_def by blast+

text \<open>A projection stands in the block of its producer.\<close>

lemma projection_same_block:
  assumes adm: "admitted g" and i: "i < length (nodes g)" and proj: "projection_ok g i"
  shows "node_block g (unat (input_at g i 0)) = node_block g i"
proof -
  let ?p = "unat (input_at g i 0)"
  obtain tb where wf: "blocks_wf g tb" using adm by (auto simp: admitted_def elim: verifiedE)
  from proj have p: "?p < i" and eff: "sig_effectful (node_sig g ?p)"
    and between: "\<And>j. ?p < j \<Longrightarrow> j < i \<Longrightarrow> node_op g j = HostResult"
    using proj unfolding projection_ok_def Let_def by blast+
  let ?b = "node_block g ?p" and ?e = "blk_end g (node_block g ?p)"
  note nb = node_block_bounds [OF wf order.strict_trans [OF p i]]
  have bw: "block_wf g ?b" by (rule blocks_wfD(1) [OF wf nb(1)])
  have "?p \<le> ?e - 1" "?e - 1 < ?e" using nb(4) by linarith+
  then have last: "is_terminator (node_op g (?e - 1))" "?p \<le> ?e - 1"
    using block_wf_nodes(2) [OF bw order.trans [OF nb(3)]] by blast+
  have "i < ?e"
  proof (rule ccontr)
    assume "\<not> i < ?e"
    then consider "?e - 1 = ?p" | "?p < ?e - 1" "?e - 1 < i" using last(2) nb(4) by linarith
    then show False
    proof cases
      case 1
      with last(1) eff show False by (auto simp: is_terminator_def node_sig_def sig_defs)
    next
      case 2
      with last(1) between [of "?e - 1"] show False by (simp add: is_terminator_def)
    qed
  qed
  then show ?thesis by (rule block_wf_nodes(1) [OF bw order.trans [OF nb(3) less_imp_le [OF p]], symmetric])
qed

section \<open>Typed values\<close>

definition value_typed :: "tig_graph \<Rightarrow> Interpreter \<Rightarrow> usize \<Rightarrow> Value \<Rightarrow> bool" where
  "value_typed g it i v \<longleftrightarrow>
     (case v of
        VUnit \<Rightarrow> False
      | VBool _ \<Rightarrow> node_ty g i = Bool
      | VU64 _ \<Rightarrow> node_ty g i = U64
      | VI64 _ \<Rightarrow> False
      | VSlice offset len utf8 \<Rightarrow>
          if utf8 then node_ty g i = Utf8 \<and> unat offset + unat len \<le> length (string_table g)
          else node_ty g i = Bytes \<and> unat offset + unat len \<le> length (constant_pool g)
      | VObjectId _ \<Rightarrow> node_ty g i = ObjectId
      | VRevisionId _ \<Rightarrow> node_ty g i = RevisionId
      | VTaskId _ \<Rightarrow> node_ty g i = TaskId
      | VProposalId _ \<Rightarrow> node_ty g i = ProposalId
      | VCapability _ \<Rightarrow> node_ty g i = Capability
      | VEffect _ \<Rightarrow> node_ty g i = Effect
      | VErrorCode _ \<Rightarrow> node_ty g i = ErrorCode
      | VHostUtf8 p len \<Rightarrow>
          node_ty g i = Utf8 \<and> unat p < i \<and> node_block g (unat p) = node_block g i \<and>
          (\<exists>r. it_host_results it (unat p) = Some r \<and> unat len \<le> MAX_HOST_RESULT_BYTES \<and>
             utf8_valid (map (hr_bytes r) [0..<unat len])))"

lemma load_value_eq: "unat n < MAX_RUNTIME_VALUES \<Longrightarrow> it_values it (unat n) = Some v \<Longrightarrow> load_value n it = Ok v"
  by (simp add: load_value_def ok_or_def)

lemma expect_typed:
  assumes "load_value n it = Ok v" and "value_typed g it (unat n) v"
  shows "node_ty g (unat n) = Effect \<Longrightarrow> \<exists>x. expect_effect n it = Ok x"
    and "node_ty g (unat n) = Capability \<Longrightarrow> \<exists>x. expect_capability n it = Ok x \<and> v = VCapability x"
    and "node_ty g (unat n) = ObjectId \<Longrightarrow> \<exists>x. expect_object_id n it = Ok x"
    and "node_ty g (unat n) = TaskId \<Longrightarrow> \<exists>x. expect_task_id n it = Ok x"
    and "node_ty g (unat n) = U64 \<Longrightarrow> \<exists>x. expect_u64 n it = Ok x"
    and "node_ty g (unat n) = ErrorCode \<Longrightarrow> \<exists>x. expect_error_code n it = Ok x"
    and "node_ty g (unat n) = Bool \<Longrightarrow> \<exists>x. expect_bool n it = Ok x"
  using assms
  by (cases v; simp add: value_typed_def expect_effect_def expect_capability_def expect_object_id_def
      expect_task_id_def expect_u64_def expect_error_code_def expect_bool_def split: if_splits)+

lemma string_at_total:
  assumes "unat offset + unat len \<le> length (string_table g)" and "length (string_table g) < 2 ^ 16"
  shows "\<exists>l text. try_from_word len = Some (l :: u16) \<and> string_at g offset l = Ok text"
proof -
  have len: "unat len < 2 ^ 16" using assms by simp
  then have l: "try_from_word len = Some (ucast len :: u16)" by (simp add: try_from_word_def)
  define k where "k = (ucast len :: u16)"
  have "unat k = unat len" using try_from_word_unat [OF l] by (simp add: k_def)
  moreover have "unat (ucast k :: u32) = unat k"
    using unat_bound [of k] by (simp add: unsigned_ucast_eq take_bit_nat_eq_self)
  ultimately have same: "unat (ucast k :: u32) = unat len" by simp
  have "unat offset + unat len < 2 ^ 32" using assms by simp
  then have "string_at g offset k = Ok (take (unat len) (drop (unat offset) (string_table g)))"
    using assms(1) same
    by (simp add: string_at_def checked_add_word_def slice_get_def unat_word_ariths)
  with l show ?thesis by (auto simp: k_def)
qed

lemma expect_text_typed:
  assumes "load_value n it = Ok v" and "value_typed g it (unat n) v"
    and "unat n < MAX_RUNTIME_VALUES" and "length (string_table g) < 2 ^ 16"
  shows "node_ty g (unat n) = Utf8 \<Longrightarrow> \<exists>x. expect_utf8_bytes g n it = Ok x"
proof (cases v)
  case (VSlice offset len utf8)
  assume "node_ty g (unat n) = Utf8"
  with assms(2) VSlice have utf8 and "unat offset + unat len \<le> length (string_table g)"
    by (auto simp: value_typed_def split: if_splits)
  with string_at_total [OF this(2) assms(4)] show ?thesis
    using assms(1) VSlice by (auto simp: expect_utf8_bytes_def)
next
  case (VHostUtf8 p len)
  with assms(2) obtain r where p: "unat p < unat n" and r: "it_host_results it (unat p) = Some r"
    and len: "unat len \<le> MAX_HOST_RESULT_BYTES" "utf8_valid (map (hr_bytes r) [0..<unat len])"
    by (auto simp: value_typed_def)
  from p assms(3) have "unat p < MAX_RUNTIME_VALUES" by simp
  with r len show ?thesis
    using assms(1) VHostUtf8 by (simp add: expect_utf8_bytes_def host_bytes_def)
qed (use assms(2) in \<open>simp_all add: value_typed_def\<close>)

lemma expect_bytes_typed:
  assumes "load_value n it = Ok v" and "value_typed g it (unat n) v"
    and "length (constant_pool g) \<le> USIZE_MAX"
  shows "node_ty g (unat n) = Bytes \<Longrightarrow> \<exists>x. expect_bytes g n it = Ok x"
  using assms
  by (cases v) (auto simp: value_typed_def expect_bytes_def checked_add_usize_def slice_get_def
      split: if_splits)

section \<open>The execution invariant\<close>

text \<open>The nodes that have run when control is at node \<open>i\<close> of the last block of path \<open>p\<close>.\<close>

definition done_nodes :: "tig_graph \<Rightarrow> usize list \<Rightarrow> usize \<Rightarrow> usize set" where
  "done_nodes g p i =
     {v. v < length (nodes g) \<and>
         (if node_block g v = last p then v < i else node_block g v \<in> set p)}"

definition at_node :: "tig_graph \<Rightarrow> usize list \<Rightarrow> usize \<Rightarrow> bool" where
  "at_node g p i \<longleftrightarrow> cfg_path g p \<and> i < length (nodes g) \<and> node_block g i = last p"

lemma available_done: "at_node g p i \<Longrightarrow> available g i v \<Longrightarrow> v \<in> done_nodes g p i"
  by (auto simp: at_node_def available_def done_nodes_def dominates_def)

lemma done_nodes_Suc:
  "at_node g p i \<Longrightarrow> v \<in> done_nodes g p (Suc i) \<longleftrightarrow> v \<in> done_nodes g p i \<or> v = i"
  by (auto simp: at_node_def done_nodes_def)

lemma done_nodes_other:
  assumes "at_node g p i" and "v \<in> done_nodes g p i"
  shows "v \<noteq> i" and "u < v \<Longrightarrow> node_block g u = node_block g v \<Longrightarrow> u \<noteq> i"
  using assms by (auto simp: at_node_def done_nodes_def split: if_splits)

definition stores_result :: "Opcode \<Rightarrow> bool" where
  "stores_result p \<longleftrightarrow> p \<in> {ObjectCreate, ObjectQuery, ObjectInspect, ObjectRevise, ObjectHistory,
     TaskContextRead, CommandRead}"

text \<open>
  Host results that the projections of an operation can use; with \<open>t\<close> the projections of text and
  of a capability succeed too.
\<close>

definition result_usable :: "bool \<Rightarrow> Opcode \<Rightarrow> HostCallResult \<Rightarrow> bool" where
  "result_usable t p r \<longleftrightarrow>
     unat (hr_bytes_len r) \<le> MAX_HOST_RESULT_BYTES \<and>
     (t \<longrightarrow> utf8_valid (map (hr_bytes r) [0..<unat (hr_bytes_len r)]) \<and>
        (gives_capability p \<longrightarrow> hr_capability r \<noteq> 0))"

text \<open>Errors that an admitted package can run into, and with \<open>t\<close> those it still can.\<close>

definition allowed_error :: "bool \<Rightarrow> RuntimeError \<Rightarrow> bool" where
  "allowed_error t e \<longleftrightarrow>
     e \<noteq> InvalidBlock \<and> e \<noteq> InvalidNode \<and> e \<noteq> InvalidInput \<and>
     (t \<longrightarrow> e = BudgetExhausted \<or> (\<exists>x. e = HostErr x))"

section \<open>Well-behaved surroundings\<close>

text \<open>
  The opcodes the interpreter implements; the constants of type \<open>ErrorCode\<close> fit 16 bits; every declared
  import is bound; and the host returns results that pass the interpreter's validation.
\<close>

definition executable_graph :: "tig_graph \<Rightarrow> bool" where
  "executable_graph g \<longleftrightarrow>
     (\<forall>i < length (nodes g).
        node_op g i \<in> {BlockParam, EffectStart, ConstBool, ConstU64, Eq, LessThanU64, ConstBytes, ConstUtf8,
          HostResult, SystemLog, ObjectCreate, ObjectQuery, ObjectInspect, ObjectRevise, ObjectHistory,
          TaskContextRead, TaskProposalEmit, CommandRead, CommandResultEmit, Jump, Branch, Return} \<and>
        (node_op g i = BlockParam \<longrightarrow> node_ty g i = Capability) \<and>
        (node_op g i = ConstU64 \<and> node_ty g i = ErrorCode \<longrightarrow> unat (nd_immediate (nodes g ! i)) < 2 ^ 16))"

definition imports_bound :: "tig_graph \<Rightarrow> PackedCapability array \<Rightarrow> bool" where
  "imports_bound g caps \<longleftrightarrow> (\<forall>s < length (g_imports g). caps s \<noteq> 0)"

definition result_good :: "Opcode \<Rightarrow> HostCallResult \<Rightarrow> bool" where
  "result_good p r \<longleftrightarrow>
     reserved1_zero r \<and> unat (hr_bytes_len r) \<le> MAX_HOST_RESULT_BYTES \<and>
     utf8_valid (map (hr_bytes r) [0..<unat (hr_bytes_len r)]) \<and>
     (p = CommandRead \<longrightarrow> 1 \<le> hr_reserved0 r \<and> hr_reserved0 r \<le> 12) \<and>
     (p \<noteq> CommandRead \<and> p \<noteq> TaskContextRead \<longrightarrow> hr_reserved0 r = 0) \<and>
     (gives_capability p \<longrightarrow> hr_capability r \<noteq> 0)"

definition well_behaved :: "'h Host \<Rightarrow> bool" where
  "well_behaved H \<longleftrightarrow>
     (\<forall>call h r h'. host_invoke H call h = (Inr (Some r), h') \<longrightarrow> result_good (call_op call) r)"

definition tame :: "tig_graph \<Rightarrow> PackedCapability array \<Rightarrow> 'h Host \<Rightarrow> bool" where
  "tame g caps H \<longleftrightarrow> executable_graph g \<and> imports_bound g caps \<and> well_behaved H"

text \<open>A check of a host result that only fails on results the host promised not to return.\<close>

definition result_check :: "Opcode \<Rightarrow> (HostCallResult \<Rightarrow> (RuntimeError, unit) result) \<Rightarrow> bool" where
  "result_check p chk \<longleftrightarrow>
     (\<forall>r. (chk r = Ok () \<and> unat (hr_bytes_len r) \<le> MAX_HOST_RESULT_BYTES) \<or>
          chk r = Err InvalidValue \<or> chk r = Err InvalidString) \<and>
     (\<forall>r. result_good p r \<longrightarrow> chk r = Ok ())"

lemma result_checks:
  "p \<noteq> CommandRead \<Longrightarrow> p \<noteq> TaskContextRead \<Longrightarrow> result_check p validate_host_call_result"
  "result_check TaskContextRead validate_task_context_result"
  "result_check CommandRead validate_command_read_result"
proof -
  show "result_check p validate_host_call_result" if "p \<noteq> CommandRead" "p \<noteq> TaskContextRead"
    using that by (auto simp: result_check_def validate_host_call_result_def result_good_def ensure_def)
  show "result_check TaskContextRead validate_task_context_result"
    by (auto simp: result_check_def validate_task_context_result_def result_good_def ensure_def host_bytes_def)
  have kind: "\<exists>k. try_from_word w = Some (k :: u16) \<and> command_kind_is_known k"
    if "1 \<le> w" "w \<le> 12" for w :: u32
  proof -
    have "unat w \<le> 12" "1 \<le> unat w" using that by (simp_all add: word_le_nat_alt)
    then have k: "try_from_word w = Some (ucast w :: u16)" by (simp add: try_from_word_def)
    then have "unat (ucast w :: u16) = unat w" by (rule try_from_word_unat)
    with k \<open>unat w \<le> 12\<close> \<open>1 \<le> unat w\<close> show ?thesis
      by (simp add: command_kind_is_known_def word_le_nat_alt)
  qed
  show "result_check CommandRead validate_command_read_result"
    unfolding result_check_def
  proof (intro conjI allI impI)
    fix r
    show "(validate_command_read_result r = Ok () \<and> unat (hr_bytes_len r) \<le> MAX_HOST_RESULT_BYTES) \<or>
       validate_command_read_result r = Err InvalidValue \<or> validate_command_read_result r = Err InvalidString"
      by (cases "try_from_word (hr_reserved0 r) :: u16 option")
        (auto simp: validate_command_read_result_def ensure_def ok_or_def host_bytes_def)
    assume good: "result_good CommandRead r"
    then obtain k where "try_from_word (hr_reserved0 r) = Some (k :: u16)" "command_kind_is_known k"
      using kind by (auto simp: result_good_def)
    with good show "validate_command_read_result r = Ok ()"
      by (simp add: validate_command_read_result_def result_good_def host_bytes_def)
  qed
qed

text \<open>What a projection yields: a value of the field's type, if the result is usable.\<close>

definition projected :: "Opcode \<Rightarrow> PythType \<Rightarrow> u32 \<Rightarrow> HostCallResult \<Rightarrow> Value \<Rightarrow> bool" where
  "projected p ty n r v \<longleftrightarrow>
     (case v of
        VU64 _ \<Rightarrow> ty = U64
      | VObjectId _ \<Rightarrow> ty = ObjectId
      | VRevisionId _ \<Rightarrow> ty = RevisionId
      | VTaskId _ \<Rightarrow> ty = TaskId
      | VProposalId _ \<Rightarrow> ty = ProposalId
      | VErrorCode _ \<Rightarrow> ty = ErrorCode
      | VCapability c \<Rightarrow> ty = Capability \<and> gives_capability p \<and> c = hr_capability r
      | VHostUtf8 q len \<Rightarrow>
          ty = Utf8 \<and> q = n \<and> unat len \<le> MAX_HOST_RESULT_BYTES \<and>
          utf8_valid (map (hr_bytes r) [0..<unat len])
      | _ \<Rightarrow> False)"

definition project_field :: "Opcode \<Rightarrow> u32 \<Rightarrow> u32 \<Rightarrow> HostCallResult \<Rightarrow> (RuntimeError, Value) result" where
  "project_field p n field r =
     (if p = TaskContextRead then task_context_host_result_value n field r
      else if p = CommandRead then command_host_result_value n field r
      else object_host_result_value n field r)"

lemma host_utf8_value_total:
  assumes "result_usable t p r"
  shows "(\<exists>v. host_utf8_value n r = Ok v \<and> projected p Utf8 n r v) \<or>
    (\<not> t \<and> host_utf8_value n r = Err InvalidString)"
  using assms by (auto simp: host_utf8_value_def result_usable_def host_bytes_def projected_def Let_def)

lemma field_type_stores: "host_result_field_type p field = Some ty \<Longrightarrow> stores_result p"
  by (auto simp: host_result_field_type_def stores_result_def split: if_splits)

lemma project_field_total:
  assumes "host_result_field_type p field = Some ty" and "result_usable t p r"
  shows "(\<exists>v. project_field p n field r = Ok v \<and> projected p ty n r v) \<or>
    (\<not> t \<and> (project_field p n field r = Err InvalidString \<or> project_field p n field r = Err InvalidValue))"
proof -
  note T = host_utf8_value_total [OF assms(2), of n]
  consider "p = TaskContextRead" | "p = CommandRead" | "p \<noteq> TaskContextRead" "p \<noteq> CommandRead" by blast
  then show ?thesis
  proof cases
    case 1
    with assms(1) T show ?thesis
      by (auto simp: project_field_def task_context_host_result_value_def host_result_field_type_def
          field_defs projected_def split: if_splits)
  next
    case 2
    with assms(1) T show ?thesis
      by (auto simp: project_field_def command_host_result_value_def host_result_field_type_def
          field_defs projected_def split: if_splits)
  next
    case 3
    with assms T show ?thesis
      by (auto simp: project_field_def object_host_result_value_def host_result_field_type_def
          field_defs projected_def gives_capability_def result_usable_def split: if_splits)
  qed
qed

lemma callE_no_result:
  assumes "host_invoke H call h = no_result (f h)"
  obtains e h' where "host_invoke H call h = (Inl e, h')" and "callE f (it, h) = (Err (HostErr e), it, h')"
  | h' where "host_invoke H call h = (Inr None, h')" and "callE f (it, h) = (Ok (), it, h')"
  using assms by (cases "f h"; cases "fst (f h)") (auto simp: callE_def)

lemma callE_some_result:
  assumes "host_invoke H call h = some_result (f h)"
  obtains e h' where "host_invoke H call h = (Inl e, h')" and "callE f (it, h) = (Err (HostErr e), it, h')"
  | r h' where "host_invoke H call h = (Inr (Some r), h')" and "callE f (it, h) = (Ok r, it, h')"
  using assms by (cases "f h"; cases "fst (f h)") (auto simp: callE_def)

lemma effectful_node:
  assumes adm: "admitted g" and i: "i < length (nodes g)" and eff: "sig_effectful (node_sig g i)"
  shows "node_ty g i = Effect" and "authorised g i" and "typed_inputs g i"
proof -
  have sem: "node_sem g i" using adm i by (auto simp: admitted_def elim: verifiedE)
  have op: "node_op g i \<noteq> HostResult" "node_op g i \<noteq> Jump" "node_op g i \<noteq> BlockParam" "node_op g i \<noteq> ConstU64"
    using eff effectful_plain by (auto simp: node_sig_def sig_defs)
  show "authorised g i" "typed_inputs g i" using sem eff op by (simp_all add: node_sem_def)
  have "opcode_accepts_result (node_op g i) (node_ty g i) (sig_result (node_sig g i))"
    using sem op by (simp add: node_sem_def)
  then show "node_ty g i = Effect"
    using op effectful_shape(1) eff by (auto simp: opcode_accepts_result_def node_sig_def split: if_splits)
qed

context host_contract
begin

definition cap_from :: "'h \<Rightarrow> CapabilityOrigin \<Rightarrow> PackedCapability \<Rightarrow> bool" where
  "cap_from h origin c \<longleftrightarrow>
     (case origin of
        ImportOrigin slot \<Rightarrow> c = caps (unat slot)
      | HostResultOrigin _ _ \<Rightarrow> got h c
      | NoOrigin \<Rightarrow> False)"

definition node_done :: "bool \<Rightarrow> Interpreter \<Rightarrow> 'h \<Rightarrow> usize \<Rightarrow> bool" where
  "node_done t it h i \<longleftrightarrow>
     (\<not> is_terminator (node_op g i) \<longrightarrow>
        (\<exists>v. it_values it i = Some v \<and> value_typed g it i v \<and>
           (\<forall>c. v = VCapability c \<longrightarrow> cap_from h (cap_origin g i) c))) \<and>
     (stores_result (node_op g i) \<longrightarrow>
        (\<exists>r. it_host_results it i = Some r \<and> result_usable t (node_op g i) r \<and>
           (gives_capability (node_op g i) \<longrightarrow> got h (hr_capability r))))"

definition exec_inv :: "bool \<Rightarrow> nat \<Rightarrow> usize list \<Rightarrow> usize \<Rightarrow> Interpreter \<times> 'h \<Rightarrow> bool" where
  "exec_inv t B p i s \<longleftrightarrow>
     accounts B (fst s) \<and> it_imports (fst s) = caps \<and> Q (snd s) \<and>
     (\<forall>v \<in> done_nodes g p i. node_done t (fst s) (snd s) v)"

definition error_inv :: "bool \<Rightarrow> nat \<Rightarrow> RuntimeError \<Rightarrow> Interpreter \<times> 'h \<Rightarrow> bool" where
  "error_inv t B e s \<longleftrightarrow> allowed_error t e \<and> accounts B (fst s) \<and> Q (snd s)"

definition node_post ::
    "bool \<Rightarrow> nat \<Rightarrow> usize list \<Rightarrow> usize \<Rightarrow> (RuntimeError, unit) result \<times> Interpreter \<times> 'h \<Rightarrow> bool" where
  "node_post t B p i res \<longleftrightarrow>
     (case fst res of
        Ok _ \<Rightarrow> exec_inv t B p (Suc i) (snd res)
      | Err e \<Rightarrow> error_inv t B e (snd res)
      | _ \<Rightarrow> False)"

lemma node_post_simps [simp]:
  "node_post t B p i (Ok u, s) \<longleftrightarrow> exec_inv t B p (Suc i) s"
  "node_post t B p i (Err e, s) \<longleftrightarrow> error_inv t B e s"
  "\<not> node_post t B p i (Panic, s)"
  by (simp_all add: node_post_def)

lemma exec_inv_error:
  "exec_inv t B p i s \<Longrightarrow> allowed_error t e \<Longrightarrow> error_inv t B e s"
  by (simp add: exec_inv_def error_inv_def)

text \<open>Storing at the current node keeps what is known of the nodes before it.\<close>

lemma node_done_frame:
  assumes at: "at_node g p i" and v: "v \<in> done_nodes g p i" and d: "node_done t it h v"
    and vals: "it_values it' = (it_values it)(i := x)"
    and res: "it_host_results it' = (it_host_results it)(i := y)"
    and mono: "\<And>c. got h c \<Longrightarrow> got h' c"
  shows "node_done t it' h' v"
proof -
  note other = done_nodes_other [OF at v]
  have "value_typed g it' v w" if "value_typed g it v w" for w
    using that other(2) res by (cases w) (auto simp: value_typed_def)
  moreover have "cap_from h' o' c" if "cap_from h o' c" for o' c
    using that mono by (auto simp: cap_from_def split: CapabilityOrigin.splits)
  ultimately show ?thesis
    using d other(1) mono unfolding node_done_def vals res by (auto 0 3)
qed

lemma exec_inv_store:
  assumes at: "at_node g p i" and inv: "exec_inv t B p i (it, h)"
    and acc: "same_account it it'"
    and vals: "it_values it' = (it_values it)(i := x)"
    and res: "it_host_results it' = (it_host_results it)(i := y)"
    and Q: "Q h'" and mono: "\<And>c. got h c \<Longrightarrow> got h' c" and dn: "node_done t it' h' i"
  shows "exec_inv t B p (Suc i) (it', h')"
proof -
  have "node_done t it' h' v" if "v \<in> done_nodes g p i" for v
    using inv that by (intro node_done_frame [OF at that _ vals res mono]) (auto simp: exec_inv_def)
  then have "\<forall>v \<in> done_nodes g p (Suc i). node_done t it' h' v"
    using done_nodes_Suc [OF at] dn by blast
  moreover have "accounts B it'" using inv accounts_same [OF acc] by (simp add: exec_inv_def)
  moreover have "it_imports it' = caps" using inv acc by (simp add: exec_inv_def same_account_def)
  ultimately show ?thesis using Q by (simp add: exec_inv_def)
qed

lemma store_value_post:
  assumes adm: "admitted g" and at: "at_node g p i" and inv: "exec_inv t B p i (it, h)"
    and Q: "Q h'" and mono: "\<And>c. got h c \<Longrightarrow> got h' c"
    and typed: "value_typed g it i v" and cap: "\<And>c. v = VCapability c \<Longrightarrow> cap_from h' (cap_origin g i) c"
    and op: "\<not> stores_result (node_op g i)"
  shows "node_post t B p i (store_value i v (it, h'))"
proof -
  let ?it = "it\<lparr>it_values := (it_values it)(i := Some v)\<rparr>"
  have i: "i < MAX_RUNTIME_VALUES" using adm at by (auto simp: at_node_def intro: admitted_graph_bounds)
  then have eq: "store_value i v (it, h') = (Ok (), ?it, h')"
    by (simp add: store_value_def bindE_def liftE_def modifyE_def)
  have "value_typed g ?it i v" using typed by (cases v) (auto simp: value_typed_def)
  then have dn: "node_done t ?it h' i" using cap op by (auto simp: node_done_def)
  have "exec_inv t B p (Suc i) (?it, h')"
    by (rule exec_inv_store [OF at inv _ _ _ Q mono dn, where x = "Some v" and y = "it_host_results it i"])
      (auto simp: same_account_def)
  then show ?thesis unfolding eq by simp
qed

lemma put_host_result_post:
  assumes adm: "admitted g" and at: "at_node g p i" and inv: "exec_inv t B p i (it, h)"
    and Q: "Q h'" and mono: "\<And>c. got h c \<Longrightarrow> got h' c"
    and ty: "node_ty g i = Effect" and usable: "result_usable t (node_op g i) r"
    and gives: "gives_capability (node_op g i) \<Longrightarrow> got h' (hr_capability r)"
  shows "node_post t B p i (put_host_result i r (it, h'))"
proof -
  let ?it = "it\<lparr>it_values := (it_values it)(i := Some (VEffect (of_nat i))),
    it_host_results := (it_host_results it)(i := Some r)\<rparr>"
  have i: "i < MAX_RUNTIME_VALUES" using adm at by (auto simp: at_node_def intro: admitted_graph_bounds)
  then have eq: "put_host_result i r (it, h') = (Ok (), ?it, h')"
    by (simp add: put_host_result_def store_value_def bindE_def liftE_def modifyE_def)
  have dn: "node_done t ?it h' i" using ty usable gives by (auto simp: node_done_def value_typed_def)
  have "exec_inv t B p (Suc i) (?it, h')"
    by (rule exec_inv_store [OF at inv _ _ _ Q mono dn, where x = "Some (VEffect (of_nat i))" and y = "Some r"])
      (auto simp: same_account_def)
  then show ?thesis unfolding eq by simp
qed

text \<open>An input of a typed node has been evaluated and has the type of the signature.\<close>

lemma input_loaded:
  assumes adm: "admitted g" and at: "at_node g p i" and inv: "exec_inv t B p i (it, h)"
    and op: "node_op g i \<noteq> HostResult" "node_op g i \<noteq> Jump"
    and k: "k < length (sig_inputs (node_sig g i))"
  obtains v where "load_value (input_at g i k) it = Ok v"
    and "value_typed g it (unat (input_at g i k)) v"
    and "node_ty g (unat (input_at g i k)) = sig_inputs (node_sig g i) ! k"
    and "\<And>c. v = VCapability c \<Longrightarrow> cap_from h (cap_origin g (unat (input_at g i k))) c"
    and "unat (input_at g i k) < MAX_RUNTIME_VALUES"
proof -
  let ?n = "input_at g i k" and ?v = "unat (input_at g i k)"
  have i: "i < length (nodes g)" using at by (simp add: at_node_def)
  have sem: "node_sem g i" and avail: "inputs_available g"
    using adm i by (auto simp: admitted_def elim: verifiedE)
  have k4: "k < 4" using k signature_inputs_at_most_4 [of "node_op g i"] by (simp add: node_sig_def)
  have nv: "?n \<noteq> NO_VALUE" and ty: "node_ty g ?v = sig_inputs (node_sig g i) ! k"
    using sem op k k4 by (auto simp: node_sem_def typed_inputs_def)
  have "available g i ?v" using avail i nv input_at_mem [OF k4] by (auto simp: inputs_available_def)
  then have mem: "?v \<in> done_nodes g p i" and lt: "?v < length (nodes g)"
    using at by (auto simp: available_done available_def)
  have "node_ty g ?v \<noteq> Unit"
    using ty signature_inputs_not_Unit [of "node_op g i"] k by (metis node_sig_def nth_mem)
  then have "\<not> is_terminator (node_op g ?v)" by (rule admitted_value_node [OF adm lt])
  moreover have "node_done t it h ?v" using inv mem by (simp add: exec_inv_def)
  ultimately obtain v where v: "it_values it ?v = Some v" "value_typed g it ?v v"
    "\<And>c. v = VCapability c \<Longrightarrow> cap_from h (cap_origin g ?v) c"
    by (auto simp: node_done_def)
  have small: "?v < MAX_RUNTIME_VALUES" by (rule admitted_graph_bounds(1) [OF adm lt])
  show thesis by (rule that [OF load_value_eq [OF small v(1)] v(2) ty v(3) small])
qed

lemma expect_inputs:
  assumes adm: "admitted g" and at: "at_node g p i" and inv: "exec_inv t B p i (it, h)"
    and op: "node_op g i \<noteq> HostResult" "node_op g i \<noteq> Jump"
    and k: "k < length (sig_inputs (node_sig g i))"
  shows "sig_inputs (node_sig g i) ! k = Effect \<Longrightarrow> \<exists>x. expect_effect (input_at g i k) it = Ok x"
    and "sig_inputs (node_sig g i) ! k = Capability \<Longrightarrow>
      \<exists>c. expect_capability (input_at g i k) it = Ok c \<and> cap_from h (cap_origin g (unat (input_at g i k))) c"
    and "sig_inputs (node_sig g i) ! k = ObjectId \<Longrightarrow> \<exists>x. expect_object_id (input_at g i k) it = Ok x"
    and "sig_inputs (node_sig g i) ! k = TaskId \<Longrightarrow> \<exists>x. expect_task_id (input_at g i k) it = Ok x"
    and "sig_inputs (node_sig g i) ! k = U64 \<Longrightarrow> \<exists>x. expect_u64 (input_at g i k) it = Ok x"
    and "sig_inputs (node_sig g i) ! k = ErrorCode \<Longrightarrow> \<exists>x. expect_error_code (input_at g i k) it = Ok x"
    and "sig_inputs (node_sig g i) ! k = Bool \<Longrightarrow> \<exists>x. expect_bool (input_at g i k) it = Ok x"
    and "sig_inputs (node_sig g i) ! k = Utf8 \<Longrightarrow> \<exists>x. expect_utf8_bytes g (input_at g i k) it = Ok x"
    and "sig_inputs (node_sig g i) ! k = Bytes \<Longrightarrow> \<exists>x. expect_bytes g (input_at g i k) it = Ok x"
proof -
  obtain v where load: "load_value (input_at g i k) it = Ok v"
    and typed: "value_typed g it (unat (input_at g i k)) v"
    and ty: "node_ty g (unat (input_at g i k)) = sig_inputs (node_sig g i) ! k"
    and cap: "\<And>c. v = VCapability c \<Longrightarrow> cap_from h (cap_origin g (unat (input_at g i k))) c"
    and small: "unat (input_at g i k) < MAX_RUNTIME_VALUES"
    using input_loaded [OF assms] by blast
  have str: "length (string_table g) < 2 ^ 16" and pool: "length (constant_pool g) \<le> USIZE_MAX"
    using adm by (auto simp: admitted_def graph_within_limits_def MAX_STRING_TABLE_BYTES_def
        MAX_CONSTANT_POOL_BYTES_def USIZE_MAX_def)
  note E = expect_typed [OF load typed, unfolded ty]
  show "sig_inputs (node_sig g i) ! k = Effect \<Longrightarrow> \<exists>x. expect_effect (input_at g i k) it = Ok x"
    and "sig_inputs (node_sig g i) ! k = ObjectId \<Longrightarrow> \<exists>x. expect_object_id (input_at g i k) it = Ok x"
    and "sig_inputs (node_sig g i) ! k = TaskId \<Longrightarrow> \<exists>x. expect_task_id (input_at g i k) it = Ok x"
    and "sig_inputs (node_sig g i) ! k = U64 \<Longrightarrow> \<exists>x. expect_u64 (input_at g i k) it = Ok x"
    and "sig_inputs (node_sig g i) ! k = ErrorCode \<Longrightarrow> \<exists>x. expect_error_code (input_at g i k) it = Ok x"
    and "sig_inputs (node_sig g i) ! k = Bool \<Longrightarrow> \<exists>x. expect_bool (input_at g i k) it = Ok x"
    by (rule E; assumption)+
  show "sig_inputs (node_sig g i) ! k = Capability \<Longrightarrow>
      \<exists>c. expect_capability (input_at g i k) it = Ok c \<and> cap_from h (cap_origin g (unat (input_at g i k))) c"
    using E(2) cap by blast
  show "sig_inputs (node_sig g i) ! k = Utf8 \<Longrightarrow> \<exists>x. expect_utf8_bytes g (input_at g i k) it = Ok x"
    by (rule expect_text_typed [OF load typed small str, unfolded ty])
  show "sig_inputs (node_sig g i) ! k = Bytes \<Longrightarrow> \<exists>x. expect_bytes g (input_at g i k) it = Ok x"
    by (rule expect_bytes_typed [OF load typed pool, unfolded ty])
qed

text \<open>The capability an effectful node passes to the host authorises its call.\<close>

lemma effectful_authorised:
  assumes adm: "admitted g" and i: "i < length (nodes g)" and eff: "sig_effectful (node_sig g i)"
    and cap: "cap_from h (cap_origin g (unat (input_at g i 1))) (call_cap call)"
    and op: "call_op call = node_op g i"
  shows "call_authorised g caps (got h) call"
proof -
  let ?o = "cap_origin g (unat (input_at g i 1))"
  have grants: "origin_grants g ?o (the (sig_required_resource_kind (node_sig g i)))
      (sig_required_rights (node_sig g i))"
    using effectful_node(2) [OF adm i eff] by (simp add: authorised_def)
  show ?thesis
  proof (cases ?o)
    case NoOrigin
    with grants show ?thesis by simp
  next
    case (ImportOrigin slot)
    with grants cap op show ?thesis
      unfolding call_authorised_def Let_def cap_from_def node_sig_def by auto
  next
    case (HostResultOrigin k r)
    then have "k = RESOURCE_OBJECT" "r = RIGHTS_READ OR RIGHTS_REVISE"
      by (auto simp: cap_origin_def split: if_splits)
    with HostResultOrigin grants cap op show ?thesis
      unfolding call_authorised_def Let_def cap_from_def node_sig_def by auto
  qed
qed

lemma emit_post:
  assumes adm: "admitted g" and at: "at_node g p i" and inv: "exec_inv t B p i (it, h)"
    and eff: "sig_effectful (node_sig g i)" and plain: "\<not> stores_result (node_op g i)"
    and cap: "cap_from h (cap_origin g (unat (input_at g i 1))) (call_cap call)"
    and op: "call_op call = node_op g i" and f: "host_invoke H call h = no_result (f h)"
  shows "node_post t B p i (bindE (callE f) (\<lambda>_. store_value i (VEffect (of_nat i))) (it, h))"
proof -
  have i: "i < length (nodes g)" using at by (simp add: at_node_def)
  note auth = effectful_authorised [OF adm i eff cap op]
  have Q: "Q h" using inv by (simp add: exec_inv_def)
  show ?thesis
  proof (rule callE_no_result [where f = f and it = it, OF f])
    fix e h'
    assume c: "host_invoke H call h = (Inl e, h')" "callE f (it, h) = (Err (HostErr e), it, h')"
    with inv invoke_keeps [OF Q auth c(1)] show ?thesis
      by (simp add: bindE_def error_inv_def exec_inv_def allowed_error_def)
  next
    fix h'
    assume c: "host_invoke H call h = (Inr None, h')" "callE f (it, h) = (Ok (), it, h')"
    have "node_post t B p i (store_value i (VEffect (of_nat i)) (it, h'))"
      using effectful_node(1) [OF adm i eff] plain
      by (intro store_value_post [OF adm at inv invoke_keeps [OF Q auth c(1)] invoke_mono [OF Q auth c(1)]])
        (auto simp: value_typed_def)
    with c(2) show ?thesis by (simp add: bindE_def)
  qed
qed

lemma checked_post:
  assumes adm: "admitted g" and at: "at_node g p i" and inv: "exec_inv t B p i (it, h)"
    and eff: "sig_effectful (node_sig g i)"
    and cap: "cap_from h (cap_origin g (unat (input_at g i 1))) (call_cap call)"
    and op: "call_op call = node_op g i" and f: "host_invoke H call h = some_result (f h)"
    and chk: "result_check (node_op g i) chk" and tame: "t \<Longrightarrow> well_behaved H"
  shows "node_post t B p i
    (bindE (callE f) (\<lambda>r. bindE (liftE (chk r)) (\<lambda>_. put_host_result i r)) (it, h))"
proof -
  have i: "i < length (nodes g)" using at by (simp add: at_node_def)
  note auth = effectful_authorised [OF adm i eff cap op]
  have Q: "Q h" using inv by (simp add: exec_inv_def)
  show ?thesis
  proof (rule callE_some_result [where f = f and it = it, OF f])
    fix e h'
    assume c: "host_invoke H call h = (Inl e, h')" "callE f (it, h) = (Err (HostErr e), it, h')"
    with inv invoke_keeps [OF Q auth c(1)] show ?thesis
      by (simp add: bindE_def error_inv_def exec_inv_def allowed_error_def)
  next
    fix r h'
    assume c: "host_invoke H call h = (Inr (Some r), h')" "callE f (it, h) = (Ok r, it, h')"
    have good: "result_good (node_op g i) r" if t
      using tame [OF that] c(1) op unfolding well_behaved_def by metis
    consider "chk r = Ok ()" "unat (hr_bytes_len r) \<le> MAX_HOST_RESULT_BYTES"
      | e where "chk r = Err e" "e = InvalidValue \<or> e = InvalidString" "\<not> t"
    proof -
      have "(chk r = Ok () \<and> unat (hr_bytes_len r) \<le> MAX_HOST_RESULT_BYTES) \<or>
          chk r = Err InvalidValue \<or> chk r = Err InvalidString" and "t \<longrightarrow> chk r = Ok ()"
        using chk good unfolding result_check_def by blast+
      then show thesis using that by auto
    qed
    then show ?thesis
    proof cases
      case 1
      have "node_post t B p i (put_host_result i r (it, h'))"
        using 1(2) good effectful_node(1) [OF adm i eff] invoke_gives [OF Q auth c(1)] op
        by (intro put_host_result_post [OF adm at inv invoke_keeps [OF Q auth c(1)] invoke_mono [OF Q auth c(1)]])
          (auto simp: result_usable_def result_good_def)
      with c(2) 1(1) show ?thesis by (simp add: bindE_def liftE_def)
    next
      case 2
      with c(2) inv invoke_keeps [OF Q auth c(1)] show ?thesis
        by (auto simp: bindE_def liftE_def error_inv_def exec_inv_def allowed_error_def)
    qed
  qed
qed

text \<open>The projection of a host result.\<close>

lemma host_result_post:
  assumes adm: "admitted g" and at: "at_node g p i" and inv: "exec_inv t B p i (it, h)"
    and op: "node_op g i = HostResult"
  shows "node_post t B p i (execute_host_result g i (nodes g ! i) (it, h))"
proof -
  let ?n = "input_at g i 0" and ?q = "unat (input_at g i 0)" and ?field = "nd_auxiliary0 (nodes g ! i)"
  have i: "i < length (nodes g)" using at by (simp add: at_node_def)
  have proj: "projection_ok g i" and avail: "inputs_available g" and known: "known_codes g"
    using adm i op by (auto simp: admitted_def node_sem_def cfg_ok_def elim: verifiedE)
  have q: "?q < i" and ty: "host_result_field_type (node_op g ?q) ?field = Some (node_ty g i)"
    using proj unfolding projection_ok_def Let_def by blast+
  have lt: "?q < length (nodes g)" using q i by simp
  have small: "?q < MAX_RUNTIME_VALUES" by (rule admitted_graph_bounds(1) [OF adm lt])
  have block: "node_block g ?q = node_block g i" by (rule projection_same_block [OF adm i proj])
  have "?q \<in> done_nodes g p i" using at q lt block by (simp add: done_nodes_def at_node_def)
  then have "node_done t it h ?q" using inv by (simp add: exec_inv_def)
  then obtain r where r: "it_host_results it ?q = Some r" and usable: "result_usable t (node_op g ?q) r"
    and gives: "gives_capability (node_op g ?q) \<Longrightarrow> got h (hr_capability r)"
    using field_type_stores [OF ty] by (auto simp: node_done_def)
  have opq: "opcode_try_from (nd_opcode (nodes g ! ?q)) = Some (node_op g ?q)"
    by (rule known_codesD(1) [OF known lt])
  have eq: "execute_host_result g i (nodes g ! i) (it, h) =
      bindE (liftE (project_field (node_op g ?q) ?n ?field r)) (store_value i) (it, h)"
    using lt opq small r
    by (simp add: execute_host_result_def project_field_def bindE_def liftE_def readE_def
        input_at_simps list_get_def Let_def)
  from project_field_total [OF ty usable, of ?n] show ?thesis
  proof (elim disjE exE conjE)
    fix v
    assume v: "project_field (node_op g ?q) ?n ?field r = Ok v" "projected (node_op g ?q) (node_ty g i) ?n r v"
    have "value_typed g it i v"
      using v(2) q block r by (cases v) (auto simp: projected_def value_typed_def)
    moreover have "cap_from h (cap_origin g i) c" if "v = VCapability c" for c
      using v(2) that gives op by (auto simp: projected_def cap_origin_def cap_from_def)
    moreover have "Q h" using inv by (simp add: exec_inv_def)
    ultimately have "node_post t B p i (store_value i v (it, h))"
      using op by (intro store_value_post [OF adm at inv]) (auto simp: stores_result_def)
    then show ?thesis unfolding eq v(1) by (simp add: bindE_def liftE_def)
  qed (use inv in \<open>auto simp: eq bindE_def liftE_def allowed_error_def intro: exec_inv_error\<close>)
qed

section \<open>One node\<close>

lemma terminator_post:
  assumes "at_node g p i" and "exec_inv t B p i s" and "is_terminator (node_op g i)"
  shows "exec_inv t B p (Suc i) s"
proof -
  have "node_done t (fst s) (snd s) i"
    using assms(3) unfolding node_done_def is_terminator_def stores_result_def by auto
  with assms(2) show ?thesis unfolding exec_inv_def using done_nodes_Suc [OF assms(1)] by blast
qed

text \<open>Storing a value that is neither a capability nor a projected text.\<close>

lemma simple_post:
  assumes adm: "admitted g" and at: "at_node g p i" and inv: "exec_inv t B p i (it, h)"
    and "value_typed g it i v" and "\<And>c. v \<noteq> VCapability c" and "\<not> stores_result (node_op g i)"
  shows "node_post t B p i (store_value i v (it, h))"
  using inv assms(4-6) by (intro store_value_post [OF adm at inv]) (auto simp: exec_inv_def)

lemma block_param_post:
  assumes adm: "admitted g" and at: "at_node g p i" and inv: "exec_inv t B p i (it, h)"
    and op: "node_op g i = BlockParam" and tame: "t \<Longrightarrow> tame g caps H"
  shows "node_post t B p i (execute_block_param i (nodes g ! i) (it, h))"
proof -
  let ?slot = "unat (nd_auxiliary0 (nodes g ! i))"
  have i: "i < length (nodes g)" using at by (simp add: at_node_def)
  have sem: "node_sem g i" and known: "known_codes g" and num: "imports_numbered g"
    using adm i by (auto simp: admitted_def cfg_ok_def elim: verifiedE)
  have ty: "result_type_of (nodes g ! i) = Ok (node_ty g i)"
    using known_codesD(2) [OF known i] by (simp add: result_type_of_def ok_or_def)
  have inv': "exec_inv t B p i (it, h) \<and> it_imports it = caps \<and> Q h" using inv by (simp add: exec_inv_def)
  show ?thesis
  proof (cases "node_ty g i = Capability")
    case False
    then have "\<not> t" using tame i op by (auto simp: tame_def executable_graph_def)
    with False ty inv show ?thesis
      by (auto simp: execute_block_param_def bindE_def liftE_def allowed_error_def intro: exec_inv_error)
  next
    case True
    with sem op have param: "import_param g i" by (simp add: node_sem_def)
    define slot where "slot = (ucast (nd_auxiliary0 (nodes g ! i)) :: u16)"
    from param have lt: "?slot < 2 ^ 16" and "find_import g slot \<noteq> None"
      by (auto simp: import_param_def slot_def)
    then have "unat slot < length (g_imports g)" using find_import_numbered(1) [OF num] by auto
    moreover have "unat slot = ?slot"
      using lt try_from_word_unat [of "nd_auxiliary0 (nodes g ! i)" slot]
      by (simp add: try_from_word_def slot_def)
    ultimately have in_table: "?slot < length (g_imports g)" by simp
    then have small: "?slot < MAX_PYTH_GRAPH_IMPORTS"
      using adm by (simp add: admitted_def graph_within_limits_def MAX_CAPABILITY_IMPORTS_def
          MAX_PYTH_GRAPH_IMPORTS_def)
    show ?thesis
    proof (cases "caps ?slot = 0")
      case zero: True
      then have "\<not> t" using tame in_table by (auto simp: tame_def imports_bound_def)
      with zero True ty inv' small show ?thesis
        by (auto simp: execute_block_param_def bindE_def liftE_def readE_def ok_or_def Let_def
            allowed_error_def intro: exec_inv_error)
    next
      case False
      have "cap_from h (cap_origin g i) (caps ?slot)"
        using True op \<open>unat slot = ?slot\<close> by (simp add: cap_origin_def cap_from_def slot_def)
      then have "node_post t B p i (store_value i (VCapability (caps ?slot)) (it, h))"
        using True op inv' by (intro store_value_post [OF adm at inv]) (auto simp: value_typed_def stores_result_def)
      with False True ty inv' small show ?thesis
        by (simp add: execute_block_param_def bindE_def liftE_def readE_def ok_or_def Let_def)
    qed
  qed
qed

lemma const_post:
  assumes adm: "admitted g" and at: "at_node g p i" and inv: "exec_inv t B p i (it, h)"
    and tame: "t \<Longrightarrow> tame g caps H"
  shows "node_op g i = ConstBool \<Longrightarrow> node_post t B p i (execute_const_bool i (nodes g ! i) (it, h))"
    and "node_op g i = ConstU64 \<Longrightarrow> node_post t B p i (execute_const_u64 i (nodes g ! i) (it, h))"
    and "node_op g i = EffectStart \<Longrightarrow> node_post t B p i (store_value i (VEffect (of_nat i)) (it, h))"
proof -
  let ?n = "nodes g ! i"
  have i: "i < length (nodes g)" using at by (simp add: at_node_def)
  have sem: "node_sem g i" and known: "known_codes g" and can: "canonical_nodes g"
    using adm i by (auto simp: admitted_def cfg_ok_def elim: verifiedE)
  have ty: "result_type_of ?n = Ok (node_ty g i)"
    using known_codesD(2) [OF known i] by (simp add: result_type_of_def ok_or_def)
  have acc: "opcode_accepts_result (node_op g i) (node_ty g i) (sig_result (node_sig g i))"
    if "node_op g i \<noteq> HostResult" "node_op g i \<noteq> Jump"
    using sem that by (simp add: node_sem_def)
  note S = simple_post [OF adm at inv]
  show "node_post t B p i (store_value i (VEffect (of_nat i)) (it, h))" if "node_op g i = EffectStart"
    using that acc by (intro S) (auto simp: value_typed_def stores_result_def node_sig_def sig_defs
        opcode_accepts_result_def split: if_splits)
  show "node_post t B p i (execute_const_bool i ?n (it, h))" if op: "node_op g i = ConstBool"
  proof -
    have b: "node_ty g i = Bool"
      using op acc by (auto simp: node_sig_def sig_defs opcode_accepts_result_def split: if_splits)
    have imm: "nd_immediate ?n = 0 \<or> nd_immediate ?n = 1"
      using can i op by (auto simp: canonical_nodes_def node_fields_are_canonical_def Let_def)
    have "node_post t B p i (store_value i (VBool v) (it, h))" for v
      using b op by (intro S) (auto simp: value_typed_def stores_result_def)
    with imm b ty show ?thesis by (auto simp: execute_const_bool_def bindE_def liftE_def)
  qed
  show "node_post t B p i (execute_const_u64 i ?n (it, h))" if op: "node_op g i = ConstU64"
  proof -
    have types: "node_ty g i \<in> {U64, ObjectId, RevisionId, TaskId, ProposalId, ErrorCode}"
      using op acc by (auto simp: node_sig_def sig_defs opcode_accepts_result_def split: if_splits)
    have st: "node_post t B p i (store_value i v (it, h))"
      if "value_typed g it i v" "\<And>c. v \<noteq> VCapability c" for v
      using that op by (intro S) (auto simp: stores_result_def)
    show ?thesis
    proof (cases "node_ty g i = ErrorCode \<and> \<not> unat (nd_immediate ?n) < 2 ^ 16")
      case True
      then have "\<not> t" using tame op i by (auto simp: tame_def executable_graph_def)
      with True ty inv show ?thesis
        by (auto simp: execute_const_u64_def bindE_def liftE_def try_from_word_def ok_or_def
            allowed_error_def intro: exec_inv_error)
    next
      case False
      with types ty show ?thesis
        by (auto simp: execute_const_u64_def bindE_def liftE_def try_from_word_def ok_or_def
            value_typed_def intro!: st)
    qed
  qed
qed

lemma slice_post:
  assumes adm: "admitted g" and at: "at_node g p i" and inv: "exec_inv t B p i (it, h)"
  shows "node_op g i = ConstUtf8 \<Longrightarrow> node_post t B p i (execute_const_utf8 g i (nodes g ! i) (it, h))"
    and "node_op g i = ConstBytes \<Longrightarrow> node_post t B p i (execute_const_bytes g i (nodes g ! i) (it, h))"
proof -
  let ?n = "nodes g ! i"
  let ?stop = "unat (nd_auxiliary0 ?n) + unat (nd_auxiliary1 ?n)"
  have i: "i < length (nodes g)" using at by (simp add: at_node_def)
  have sem: "node_sem g i" and texts: "texts_ok g"
    using adm i by (auto simp: admitted_def elim: verifiedE)
  have acc: "opcode_accepts_result (node_op g i) (node_ty g i) (sig_result (node_sig g i))"
    if "node_op g i \<noteq> HostResult" "node_op g i \<noteq> Jump"
    using sem that by (simp add: node_sem_def)
  have range: "?stop \<le> length bs" if "referenced_bytes bs (nd_auxiliary0 ?n) (nd_auxiliary1 ?n) \<noteq> None" for bs
    using that checked_add_word_unat [of "nd_auxiliary0 ?n" "nd_auxiliary1 ?n"]
    by (auto simp: referenced_bytes_def slice_get_def split: bind_splits if_splits)
  note S = simple_post [OF adm at inv]
  show "node_post t B p i (execute_const_utf8 g i ?n (it, h))" if op: "node_op g i = ConstUtf8"
  proof -
    have ty: "node_ty g i = Utf8"
      using op acc by (auto simp: node_sig_def sig_defs opcode_accepts_result_def split: if_splits)
    have fits: "?stop \<le> length (string_table g)"
      using texts i op by (intro range) (auto simp: texts_ok_def)
    have "length (string_table g) < 2 ^ 16"
      using adm by (auto simp: admitted_def graph_within_limits_def MAX_STRING_TABLE_BYTES_def)
    from string_at_total [OF fits this] obtain l bs where
      "try_from_word (nd_auxiliary1 ?n) = Some (l :: u16)" "string_at g (nd_auxiliary0 ?n) l = Ok bs" by blast
    moreover have "node_post t B p i (store_value i (VSlice (nd_auxiliary0 ?n) (nd_auxiliary1 ?n) True) (it, h))"
      using ty fits op by (intro S) (auto simp: value_typed_def stores_result_def)
    ultimately show ?thesis by (simp add: execute_const_utf8_def bindE_def liftE_def ok_or_def)
  qed
  show "node_post t B p i (execute_const_bytes g i ?n (it, h))" if op: "node_op g i = ConstBytes"
  proof -
    have ty: "node_ty g i = Bytes"
      using op acc by (auto simp: node_sig_def sig_defs opcode_accepts_result_def split: if_splits)
    have fits: "?stop \<le> length (constant_pool g)"
      using texts i op by (intro range) (auto simp: texts_ok_def)
    have "length (constant_pool g) \<le> USIZE_MAX"
      using adm by (auto simp: admitted_def graph_within_limits_def MAX_CONSTANT_POOL_BYTES_def USIZE_MAX_def)
    moreover have "node_post t B p i (store_value i (VSlice (nd_auxiliary0 ?n) (nd_auxiliary1 ?n) False) (it, h))"
      using ty fits op by (intro S) (auto simp: value_typed_def stores_result_def)
    ultimately show ?thesis
      using fits by (simp add: execute_const_bytes_def bindE_def liftE_def ok_or_def Let_def
          checked_add_usize_def slice_get_def)
  qed
qed

lemma compare_post:
  assumes adm: "admitted g" and at: "at_node g p i" and inv: "exec_inv t B p i (it, h)"
  shows "node_op g i = Eq \<Longrightarrow> node_post t B p i (execute_eq i (nodes g ! i) (it, h))"
    and "node_op g i = LessThanU64 \<Longrightarrow> node_post t B p i (execute_less_than_u64 i (nodes g ! i) (it, h))"
proof -
  let ?n = "nodes g ! i"
  have i: "i < length (nodes g)" using at by (simp add: at_node_def)
  have sem: "node_sem g i" and known: "known_codes g"
    using adm i by (auto simp: admitted_def cfg_ok_def elim: verifiedE)
  have facts: "result_type_of ?n = Ok Bool \<and> (\<forall>v. node_post t B p i (store_value i (VBool v) (it, h))) \<and>
      (\<exists>x. expect_u64 (nd_input0 ?n) it = Ok x) \<and> (\<exists>x. expect_u64 (nd_input1 ?n) it = Ok x)"
    if op: "node_op g i = Eq \<or> node_op g i = LessThanU64"
  proof -
    have sig: "sig_inputs (node_sig g i) = [U64, U64]" "sig_result (node_sig g i) = Bool"
      using op by (auto simp: node_sig_def sig_defs)
    have ty: "node_ty g i = Bool"
      using op sem sig by (auto simp: node_sem_def opcode_accepts_result_def split: if_splits)
    note E = expect_inputs(5) [OF adm at inv]
    have "\<exists>x. expect_u64 (nd_input0 ?n) it = Ok x" "\<exists>x. expect_u64 (nd_input1 ?n) it = Ok x"
      using E [of 0] E [of 1] op by (auto simp: sig input_at_simps)
    moreover have "result_type_of ?n = Ok Bool"
      using known_codesD(2) [OF known i] ty by (simp add: result_type_of_def ok_or_def)
    moreover have "node_post t B p i (store_value i (VBool v) (it, h))" for v
      using ty op by (intro simple_post [OF adm at inv]) (auto simp: value_typed_def stores_result_def)
    ultimately show ?thesis by blast
  qed
  show "node_op g i = Eq \<Longrightarrow> node_post t B p i (execute_eq i ?n (it, h))"
    using facts by (auto simp: execute_eq_def bindE_def liftE_def readE_def)
  show "node_op g i = LessThanU64 \<Longrightarrow> node_post t B p i (execute_less_than_u64 i ?n (it, h))"
    using facts by (auto simp: execute_less_than_u64_def bindE_def liftE_def readE_def)
qed

text \<open>The inputs every host operation has: its effect and its capability.\<close>

lemma host_inputs:
  assumes adm: "admitted g" and at: "at_node g p i" and inv: "exec_inv t B p i (it, h)"
    and eff: "sig_effectful (node_sig g i)"
  obtains e c where "expect_effect (nd_input0 (nodes g ! i)) it = Ok e"
    and "expect_capability (nd_input1 (nodes g ! i)) it = Ok c"
    and "cap_from h (cap_origin g (unat (input_at g i 1))) c"
proof -
  obtain rest where sig: "sig_inputs (node_sig g i) = Effect # Capability # rest"
    using effectful_shape(3) eff unfolding node_sig_def by metis
  have op: "node_op g i \<noteq> HostResult" "node_op g i \<noteq> Jump"
    using eff effectful_plain by (auto simp: node_sig_def)
  show thesis
    using expect_inputs(1) [OF adm at inv op, of 0] expect_inputs(2) [OF adm at inv op, of 1] that
    by (auto simp: sig input_at_simps)
qed

lemma emit_ops_post:
  assumes adm: "admitted g" and at: "at_node g p i" and inv: "exec_inv t B p i (it, h)"
  shows "node_op g i = SystemLog \<Longrightarrow> node_post t B p i (execute_system_log g H i (nodes g ! i) (it, h))"
    and "node_op g i = TaskProposalEmit \<Longrightarrow>
      node_post t B p i (execute_task_proposal_emit H i (nodes g ! i) (it, h))"
    and "node_op g i = CommandResultEmit \<Longrightarrow>
      node_post t B p i (execute_command_result_emit g H i (nodes g ! i) (it, h))"
proof -
  let ?n = "nodes g ! i"
  note E = expect_inputs [OF adm at inv] and P = emit_post [OF adm at inv]
  show "node_post t B p i (execute_system_log g H i ?n (it, h))" if op: "node_op g i = SystemLog"
  proof -
    have eff: "sig_effectful (node_sig g i)" using op by (simp add: node_sig_def sig_defs)
    obtain e c where c: "expect_effect (nd_input0 ?n) it = Ok e" "expect_capability (nd_input1 ?n) it = Ok c"
      "cap_from h (cap_origin g (unat (input_at g i 1))) c" by (rule host_inputs [OF adm at inv eff])
    obtain x where x: "expect_utf8_bytes g (nd_input2 ?n) it = Ok x"
      using E(8) [of 2] op by (auto simp: node_sig_def sig_defs input_at_simps)
    have "node_post t B p i
        (bindE (callE (\<lambda>h. system_log H h c x)) (\<lambda>_. store_value i (VEffect (of_nat i))) (it, h))"
      using op c(3) by (intro P [OF eff, where call = "SystemLogCall c x"]) (auto simp: stores_result_def)
    with c x show ?thesis by (simp add: execute_system_log_def bindE_def readE_def)
  qed
  show "node_post t B p i (execute_task_proposal_emit H i ?n (it, h))" if op: "node_op g i = TaskProposalEmit"
  proof -
    have eff: "sig_effectful (node_sig g i)" using op by (simp add: node_sig_def sig_defs)
    obtain e c where c: "expect_effect (nd_input0 ?n) it = Ok e" "expect_capability (nd_input1 ?n) it = Ok c"
      "cap_from h (cap_origin g (unat (input_at g i 1))) c" by (rule host_inputs [OF adm at inv eff])
    obtain x y where x: "expect_task_id (nd_input2 ?n) it = Ok x" "expect_u64 (nd_input3 ?n) it = Ok y"
      using E(4) [of 2] E(5) [of 3] op by (auto simp: node_sig_def sig_defs input_at_simps)
    have "node_post t B p i
        (bindE (callE (\<lambda>h. task_propose H h c x y)) (\<lambda>_. store_value i (VEffect (of_nat i))) (it, h))"
      using op c(3) by (intro P [OF eff, where call = "TaskProposeCall c x y"]) (auto simp: stores_result_def)
    with c x show ?thesis by (simp add: execute_task_proposal_emit_def bindE_def readE_def)
  qed
  show "node_post t B p i (execute_command_result_emit g H i ?n (it, h))" if op: "node_op g i = CommandResultEmit"
  proof -
    have eff: "sig_effectful (node_sig g i)" using op by (simp add: node_sig_def sig_defs)
    obtain e c where c: "expect_effect (nd_input0 ?n) it = Ok e" "expect_capability (nd_input1 ?n) it = Ok c"
      "cap_from h (cap_origin g (unat (input_at g i 1))) c" by (rule host_inputs [OF adm at inv eff])
    obtain x y where x: "expect_error_code (nd_input2 ?n) it = Ok x" "expect_utf8_bytes g (nd_input3 ?n) it = Ok y"
      using E(6) [of 2] E(8) [of 3] op by (auto simp: node_sig_def sig_defs input_at_simps)
    have "node_post t B p i
        (bindE (callE (\<lambda>h. command_result_emit H h c x y)) (\<lambda>_. store_value i (VEffect (of_nat i))) (it, h))"
      using op c(3) by (intro P [OF eff, where call = "CommandResultEmitCall c x y"]) (auto simp: stores_result_def)
    with c x show ?thesis by (simp add: execute_command_result_emit_def bindE_def readE_def)
  qed
qed

lemma object_ops_post:
  assumes adm: "admitted g" and at: "at_node g p i" and inv: "exec_inv t B p i (it, h)"
    and tame: "t \<Longrightarrow> tame g caps H"
  shows "node_op g i = ObjectCreate \<Longrightarrow> node_post t B p i (execute_object_create g H i (nodes g ! i) (it, h))"
    and "node_op g i = ObjectQuery \<Longrightarrow> node_post t B p i (execute_object_query g H i (nodes g ! i) (it, h))"
    and "node_op g i = ObjectInspect \<Longrightarrow> node_post t B p i (execute_object_inspect H i (nodes g ! i) (it, h))"
    and "node_op g i = ObjectRevise \<Longrightarrow> node_post t B p i (execute_object_revise g H i (nodes g ! i) (it, h))"
    and "node_op g i = ObjectHistory \<Longrightarrow> node_post t B p i (execute_object_history H i (nodes g ! i) (it, h))"
proof -
  let ?n = "nodes g ! i"
  note E = expect_inputs [OF adm at inv]
  have wb: "t \<Longrightarrow> well_behaved H" using tame by (simp add: tame_def)
  have store: "store_host_result i = (\<lambda>r. bindE (liftE (validate_host_call_result r)) (\<lambda>_. put_host_result i r))"
    by (rule ext) (simp add: store_host_result_def)
  have post: "node_post t B p i (bindE (callE f) (store_host_result i) (it, h))"
    if "sig_effectful (node_sig g i)" "cap_from h (cap_origin g (unat (input_at g i 1))) (call_cap call)"
      "call_op call = node_op g i" "host_invoke H call h = some_result (f h)"
      "node_op g i \<noteq> CommandRead" "node_op g i \<noteq> TaskContextRead" for f call
    unfolding store by (rule checked_post [where f = f, OF adm at inv that(1-4) result_checks(1) [OF that(5,6)] wb])
  have eff: "sig_effectful (node_sig g i)"
    if "node_op g i \<in> {ObjectCreate, ObjectQuery, ObjectInspect, ObjectRevise, ObjectHistory}"
    using that by (auto simp: node_sig_def sig_defs)
  obtain e c where c: "node_op g i \<in> {ObjectCreate, ObjectQuery, ObjectInspect, ObjectRevise, ObjectHistory} \<Longrightarrow>
      expect_effect (nd_input0 ?n) it = Ok e \<and> expect_capability (nd_input1 ?n) it = Ok c \<and>
      cap_from h (cap_origin g (unat (input_at g i 1))) c"
    using host_inputs [OF adm at inv eff] by metis
  show "node_post t B p i (execute_object_create g H i ?n (it, h))" if op: "node_op g i = ObjectCreate"
  proof -
    obtain x where x: "expect_utf8_bytes g (nd_input2 ?n) it = Ok x"
      using E(8) [of 2] op by (auto simp: node_sig_def sig_defs input_at_simps)
    have "node_post t B p i (bindE (callE (\<lambda>h. object_create H h c x)) (store_host_result i) (it, h))"
      using op c eff by (intro post [of "ObjectCreateCall c x"]) auto
    with c op x show ?thesis by (simp add: execute_object_create_def bindE_def readE_def)
  qed
  show "node_post t B p i (execute_object_query g H i ?n (it, h))" if op: "node_op g i = ObjectQuery"
  proof -
    obtain x where x: "expect_utf8_bytes g (nd_input2 ?n) it = Ok x"
      using E(8) [of 2] op by (auto simp: node_sig_def sig_defs input_at_simps)
    have "node_post t B p i (bindE (callE (\<lambda>h. object_query H h c x)) (store_host_result i) (it, h))"
      using op c eff by (intro post [of "ObjectQueryCall c x"]) auto
    with c op x show ?thesis by (simp add: execute_object_query_def bindE_def readE_def)
  qed
  show "node_post t B p i (execute_object_inspect H i ?n (it, h))" if op: "node_op g i = ObjectInspect"
  proof -
    obtain x where x: "expect_object_id (nd_input2 ?n) it = Ok x"
      using E(3) [of 2] op by (auto simp: node_sig_def sig_defs input_at_simps)
    have "node_post t B p i (bindE (callE (\<lambda>h. object_inspect H h c x)) (store_host_result i) (it, h))"
      using op c eff by (intro post [of "ObjectInspectCall c x"]) auto
    with c op x show ?thesis by (simp add: execute_object_inspect_def bindE_def readE_def)
  qed
  show "node_post t B p i (execute_object_revise g H i ?n (it, h))" if op: "node_op g i = ObjectRevise"
  proof -
    obtain x y where x: "expect_object_id (nd_input2 ?n) it = Ok x" "expect_bytes g (nd_input3 ?n) it = Ok y"
      using E(3) [of 2] E(9) [of 3] op by (auto simp: node_sig_def sig_defs input_at_simps)
    have "node_post t B p i (bindE (callE (\<lambda>h. object_revise H h c x y)) (store_host_result i) (it, h))"
      using op c eff by (intro post [of "ObjectReviseCall c x y"]) auto
    with c op x show ?thesis by (simp add: execute_object_revise_def bindE_def readE_def)
  qed
  show "node_post t B p i (execute_object_history H i ?n (it, h))" if op: "node_op g i = ObjectHistory"
  proof -
    obtain x where x: "expect_object_id (nd_input2 ?n) it = Ok x"
      using E(3) [of 2] op by (auto simp: node_sig_def sig_defs input_at_simps)
    have "node_post t B p i (bindE (callE (\<lambda>h. object_history H h c x)) (store_host_result i) (it, h))"
      using op c eff by (intro post [of "ObjectHistoryCall c x"]) auto
    with c op x show ?thesis by (simp add: execute_object_history_def bindE_def readE_def)
  qed
qed

lemma read_ops_post:
  assumes adm: "admitted g" and at: "at_node g p i" and inv: "exec_inv t B p i (it, h)"
    and tame: "t \<Longrightarrow> tame g caps H"
  shows "node_op g i = TaskContextRead \<Longrightarrow> node_post t B p i (execute_task_context H i (nodes g ! i) (it, h))"
    and "node_op g i = CommandRead \<Longrightarrow> node_post t B p i (execute_command_read H i (nodes g ! i) (it, h))"
proof -
  let ?n = "nodes g ! i"
  have wb: "t \<Longrightarrow> well_behaved H" using tame by (simp add: tame_def)
  show "node_post t B p i (execute_task_context H i ?n (it, h))" if op: "node_op g i = TaskContextRead"
  proof -
    have eff: "sig_effectful (node_sig g i)" using op by (simp add: node_sig_def sig_defs)
    obtain e c where c: "expect_effect (nd_input0 ?n) it = Ok e" "expect_capability (nd_input1 ?n) it = Ok c"
      "cap_from h (cap_origin g (unat (input_at g i 1))) c" by (rule host_inputs [OF adm at inv eff])
    have "node_post t B p i (bindE (callE (\<lambda>h. task_context H h c))
        (\<lambda>r. bindE (liftE (validate_task_context_result r)) (\<lambda>_. put_host_result i r)) (it, h))"
      using op c(3) result_checks(2) wb
      by (intro checked_post [OF adm at inv eff, where call = "TaskContextCall c"]) auto
    with c show ?thesis by (simp add: execute_task_context_def bindE_def readE_def)
  qed
  show "node_post t B p i (execute_command_read H i ?n (it, h))" if op: "node_op g i = CommandRead"
  proof -
    have eff: "sig_effectful (node_sig g i)" using op by (simp add: node_sig_def sig_defs)
    obtain e c where c: "expect_effect (nd_input0 ?n) it = Ok e" "expect_capability (nd_input1 ?n) it = Ok c"
      "cap_from h (cap_origin g (unat (input_at g i 1))) c" by (rule host_inputs [OF adm at inv eff])
    have "node_post t B p i (bindE (callE (\<lambda>h. command_read H h c))
        (\<lambda>r. bindE (liftE (validate_command_read_result r)) (\<lambda>_. put_host_result i r)) (it, h))"
      using op c(3) result_checks(3) wb
      by (intro checked_post [OF adm at inv eff, where call = "CommandReadCall c"]) auto
    with c show ?thesis by (simp add: execute_command_read_def bindE_def readE_def)
  qed
qed

lemma execute_opcode_post:
  assumes adm: "admitted g" and at: "at_node g p i" and inv: "exec_inv t B p i (it, h)"
    and tame: "t \<Longrightarrow> tame g caps H"
  shows "node_post t B p i (execute_opcode g H (node_op g i) i (nodes g ! i) (it, h))"
proof -
  have i: "i < length (nodes g)" using at by (simp add: at_node_def)
  have unsupported: "error_inv t B UnsupportedOpcode (it, h)"
    if "node_op g i \<notin> {BlockParam, EffectStart, ConstBool, ConstU64, Eq, LessThanU64, ConstBytes, ConstUtf8,
          HostResult, SystemLog, ObjectCreate, ObjectQuery, ObjectInspect, ObjectRevise, ObjectHistory,
          TaskContextRead, TaskProposalEmit, CommandRead, CommandResultEmit, Jump, Branch, Return}"
  proof -
    have "\<not> t" using tame that i unfolding tame_def executable_graph_def by blast
    then show ?thesis using inv by (auto simp: allowed_error_def intro: exec_inv_error)
  qed
  note posts = const_post [OF adm at inv tame] slice_post [OF adm at inv] compare_post [OF adm at inv]
    block_param_post [OF adm at inv _ tame] host_result_post [OF adm at inv] emit_ops_post [OF adm at inv]
    object_ops_post [OF adm at inv tame] read_ops_post [OF adm at inv tame]
  have tmn: "exec_inv t B p (Suc i) (it, h)" if "is_terminator (node_op g i)"
    by (rule terminator_post [OF at inv that])
  show ?thesis
    by (cases "node_op g i")
      (simp_all add: execute_opcode_def posts unsupported liftE_def tmn is_terminator_def)
qed

lemma dispatch_node_post:
  assumes adm: "admitted g" and at: "at_node g p i" and inv: "exec_inv t B p i (it, h)"
    and tame: "t \<Longrightarrow> tame g caps H"
  shows "node_post t B p i (dispatch_node g H i (it, h))"
proof -
  have i: "i < length (nodes g)" using at by (simp add: at_node_def)
  have known: "known_codes g" using adm by (auto simp: admitted_def cfg_ok_def elim: verifiedE)
  have acc: "accounts B it" using inv by (simp add: exec_inv_def)
  show ?thesis
  proof (cases "it_budget it = 0")
    case True
    from charge_node_broke [OF this, of i h]
    obtain n where "charge_node i (it, h) = (Err BudgetExhausted, it\<lparr>it_last_node := n\<rparr>, h)" ..
    with inv show ?thesis
      by (simp add: dispatch_node_def bindE_def error_inv_def allowed_error_def exec_inv_def accounts_def)
  next
    case False
    obtain it' where C: "charge_node i (it, h) = (Ok (), it', h)" "accounts B it'"
      and same: "it_values it' = it_values it" "it_host_results it' = it_host_results it"
        "it_imports it' = it_imports it"
    proof -
      note pays = charge_node_pays [OF acc False admitted_graph_bounds(2) [OF adm i]]
      show thesis by (rule that [OF pays(1,2)]) simp_all
    qed
    have "value_typed g it' v x \<longleftrightarrow> value_typed g it v x" for v x
      using same by (cases x) (simp_all add: value_typed_def)
    then have "node_done t it' h v \<longleftrightarrow> node_done t it h v" for v
      unfolding node_done_def same by simp
    then have "exec_inv t B p i (it', h)"
      using inv C(2) same(3) by (simp add: exec_inv_def)
    then have "node_post t B p i (execute_opcode g H (node_op g i) i (nodes g ! i) (it', h))"
      by (rule execute_opcode_post [OF adm at _ tame])
    then show ?thesis
      using C(1) known_codesD(1) [OF known i] i
      by (simp add: dispatch_node_def bindE_def liftE_def list_get_def ok_or_def)
  qed
qed

section \<open>Blocks and the whole execution\<close>

definition start_inv :: "bool \<Rightarrow> nat \<Rightarrow> usize list \<Rightarrow> Interpreter \<times> 'h \<Rightarrow> bool" where
  "start_inv t B p s \<longleftrightarrow> cfg_path g p \<and> exec_inv t B p (blk_start g (last p)) s"

definition block_post ::
    "bool \<Rightarrow> nat \<Rightarrow> usize list \<Rightarrow> (RuntimeError, BlockOutcome) result \<times> Interpreter \<times> 'h \<Rightarrow> bool" where
  "block_post t B p res \<longleftrightarrow>
     (case fst res of
        Ok ReturnOutcome \<Rightarrow> accounts B (fst (snd res)) \<and> Q (snd (snd res))
      | Ok (JumpOutcome b) \<Rightarrow> start_inv t B (p @ [b]) (snd res)
      | Err e \<Rightarrow> error_inv t B e (snd res)
      | _ \<Rightarrow> False)"

lemma jump_post:
  assumes adm: "admitted g" and path: "cfg_path g p" and b: "last p < length (blocks g)"
    and inv: "exec_inv t B p (blk_end g (last p)) s"
    and target: "unat w \<in> set (succs g (last p))"
  shows "block_post t B p (jump_to g w, s)"
proof -
  from adm obtain tb where ok: "cfg_ok g" and wf: "blocks_wf g tb" by (auto simp: admitted_def elim: verifiedE)
  have tl: "unat w < length (blocks g)" by (rule cfg_ok_succs(1) [OF ok b target])
  have "cfg_path g (p @ [unat w])" using path target b by (auto intro: path_edge simp: cfg_edge_def)
  moreover have "v \<in> done_nodes g p (blk_end g (last p))"
    if "v \<in> done_nodes g (p @ [unat w]) (blk_start g (unat w))" for v
  proof -
    have v: "v < length (nodes g)" using that by (simp add: done_nodes_def)
    note nb = node_block_bounds [OF wf v]
    show ?thesis using that nb(3,4) by (auto simp: done_nodes_def split: if_splits)
  qed
  ultimately have "start_inv t B (p @ [unat w]) s" using inv by (auto simp: start_inv_def exec_inv_def)
  with tl show ?thesis by (simp add: jump_to_def list_get_def block_post_def)
qed

lemma execute_nodes_post:
  assumes adm: "admitted g" and path: "cfg_path g p" and b: "last p < length (blocks g)"
    and tame: "t \<Longrightarrow> tame g caps H"
    and "blk_start g (last p) \<le> i" and "i < blk_end g (last p)" and "exec_inv t B p i s"
  shows "block_post t B p (execute_nodes g H [i..<blk_end g (last p)] s)"
  using assms(5-7)
proof (induction "blk_end g (last p) - i" arbitrary: i s)
  case 0
  then show ?case by simp
next
  case (Suc n)
  let ?e = "blk_end g (last p)" and ?n = "nodes g ! i"
  from adm obtain tb where ok: "cfg_ok g" and wf: "blocks_wf g tb" by (auto simp: admitted_def elim: verifiedE)
  have known: "known_codes g" using ok by (simp add: cfg_ok_def)
  have bw: "block_wf g (last p)" by (rule blocks_wfD(1) [OF wf b])
  have i: "i < length (nodes g)" using Suc.prems(2) bw by (simp add: block_wf_def)
  note bn = block_wf_nodes [OF bw Suc.prems(1,2)]
  have at: "at_node g p i" using path i bn(1) by (simp add: at_node_def)
  have opc: "list_get (nodes g) i = Some ?n" "opcode_try_from (nd_opcode ?n) = Some (node_op g i)"
    using i known_codesD(1) [OF known i] by simp_all
  have list: "[i..<?e] = i # [Suc i..<?e]" using Suc.prems(2) by (simp add: upt_conv_Cons)
  obtain it h where s: "s = (it, h)" by (cases s)
  obtain r s' where d: "dispatch_node g H i s = (r, s')" by (rule prod.exhaust)
  have post: "node_post t B p i (r, s')"
    using dispatch_node_post [OF adm at Suc.prems(3) [unfolded s] tame] d by (simp add: s)
  show ?case
  proof (cases r)
    case (Err e)
    with d post show ?thesis by (simp add: list bindE_def block_post_def)
  next
    case (Ok u)
    with post have inv': "exec_inv t B p (Suc i) s'" by simp
    show ?thesis
    proof (cases "is_terminator (node_op g i)")
      case False
      with bn(2) Suc.prems(2) have "Suc i < ?e" by auto
      then have "block_post t B p (execute_nodes g H [Suc i..<?e] s')"
        using Suc.hyps(2) Suc.prems(1) inv' by (intro Suc.hyps(1)) auto
      with False d Ok opc show ?thesis
        by (simp add: list bindE_def liftE_def list_get_def ok_or_def is_terminator_def)
    next
      case True
      with bn(2) Suc.prems(2) have last: "Suc i = ?e" "?e - 1 = i" by auto
      have end_inv: "exec_inv t B p ?e s'" using inv' last(1) by simp
      consider "node_op g i = Return" | "node_op g i = Jump" | "node_op g i = Branch"
        using True by (auto simp: is_terminator_def)
      then show ?thesis
      proof cases
        case 1
        with d Ok opc inv' show ?thesis
          by (simp add: list bindE_def liftE_def list_get_def ok_or_def block_post_def exec_inv_def)
      next
        case 2
        then have "unat (nd_auxiliary0 ?n) \<in> set (succs g (last p))"
          using last(2) by (simp add: succs_def Let_def)
        from jump_post [OF adm path b end_inv this] 2 d Ok opc show ?thesis
          by (simp add: list bindE_def liftE_def list_get_def ok_or_def)
      next
        case 3
        have "exec_inv t B p i (fst s', snd s')"
          using inv' done_nodes_Suc [OF at] by (auto simp: exec_inv_def)
        from expect_inputs(7) [OF adm at this, of 0] 3
        obtain x where x: "expect_bool (nd_input0 ?n) (fst s') = Ok x"
          by (auto simp: node_sig_def sig_defs input_at_simps)
        have "unat (if x then nd_auxiliary0 ?n else nd_auxiliary1 ?n) \<in> set (succs g (last p))"
          using last(2) 3 by (simp add: succs_def Let_def)
        from jump_post [OF adm path b end_inv this] 3 d Ok opc x show ?thesis
          by (simp add: list bindE_def liftE_def readE_def list_get_def ok_or_def)
      qed
    qed
  qed (use post in \<open>simp_all add: node_post_def\<close>)
qed

definition final_post ::
    "bool \<Rightarrow> nat \<Rightarrow> (RuntimeError, unit) result \<times> Interpreter \<times> 'h \<Rightarrow> bool" where
  "final_post t B res \<longleftrightarrow>
     (case fst res of
        Ok _ \<Rightarrow> accounts B (fst (snd res)) \<and> Q (snd (snd res))
      | Err e \<Rightarrow> error_inv t B e (snd res)
      | _ \<Rightarrow> False)"

lemma execute_block_post:
  assumes adm: "admitted g" and tame: "t \<Longrightarrow> tame g caps H" and start: "start_inv t B p s"
  shows "block_post t B p (execute_block g H (last p) s)"
proof -
  from adm obtain tb where ok: "cfg_ok g" and wf: "blocks_wf g tb" and entry: "entry_of g < length (blocks g)"
    by (auto simp: admitted_def elim: verifiedE)
  from start have path: "cfg_path g p" and inv: "exec_inv t B p (blk_start g (last p)) s"
    by (auto simp: start_inv_def)
  have b: "last p < length (blocks g)"
    using cfg_path_blocks [OF ok entry path] cfg_path_not_Nil [OF path] last_in_set by blast
  have bw: "block_wf g (last p)" by (rule blocks_wfD(1) [OF wf b])
  then have ne: "blk_start g (last p) < blk_end g (last p)" and le: "blk_end g (last p) \<le> length (nodes g)"
    by (simp_all add: block_wf_def)
  have "blk_end g (last p) \<le> USIZE_MAX"
    using le adm by (simp add: admitted_def graph_within_limits_def MAX_GRAPH_NODES_def USIZE_MAX_def)
  then have "execute_block g H (last p) s =
      execute_nodes g H [blk_start g (last p)..<blk_end g (last p)] s"
    using b by (simp add: execute_block_def bindE_def liftE_def list_get_def ok_or_def Let_def
        checked_add_usize_def blk_start_def blk_end_def)
  with execute_nodes_post [OF adm path b tame order.refl ne inv] show ?thesis by simp
qed

lemma execute_from_post:
  assumes adm: "admitted g" and tame: "t \<Longrightarrow> tame g caps H" and start: "start_inv t B p s"
  shows "final_post t B (execute_from g H (last p) s)"
  using start
proof (induction "unat (it_budget (fst s))" arbitrary: p s rule: less_induct)
  case less
  obtain r s' where b: "execute_block g H (last p) s = (r, s')" by (rule prod.exhaust)
  have post: "block_post t B p (r, s')"
    using execute_block_post [OF adm tame less.prems] b by simp
  show ?case
  proof (cases r)
    case (Ok out)
    show ?thesis
    proof (cases out)
      case ReturnOutcome
      with Ok b post show ?thesis
        by (subst execute_from.simps) (simp add: block_post_def final_post_def)
    next
      case (JumpOutcome target)
      with Ok post have "start_inv t B (p @ [target]) s'" by (simp add: block_post_def)
      moreover have "unat (it_budget (fst s')) < unat (it_budget (fst s))"
        by (rule execute_block_budget) (use b Ok in simp)
      ultimately have "final_post t B (execute_from g H (last (p @ [target])) s')"
        by (intro less.hyps)
      with Ok b JumpOutcome show ?thesis by (subst execute_from.simps) simp
    qed
  next
    case (Err e)
    with b post show ?thesis by (subst execute_from.simps) (simp add: block_post_def final_post_def)
  qed (use post in \<open>simp_all add: block_post_def\<close>)
qed

lemma execute_inner_post:
  assumes adm: "admitted g" and tame: "t \<Longrightarrow> tame g caps H" and Q: "Q h"
  shows "final_post t (unat budget) (execute_inner g H (interpreter_new caps budget, h))"
proof -
  from adm obtain tb where wf: "blocks_wf g tb" by (auto simp: admitted_def elim: verifiedE)
  have "done_nodes g [entry_of g] (blk_start g (entry_of g)) = {}"
    using node_block_bounds(3) [OF wf] by (fastforce simp: done_nodes_def split: if_splits)
  then have "exec_inv t (unat budget) [entry_of g] (blk_start g (entry_of g)) (interpreter_new caps budget, h)"
    using Q accounts_new [of budget caps] by (simp add: exec_inv_def interpreter_new_def)
  then have "start_inv t (unat budget) [entry_of g] (interpreter_new caps budget, h)"
    by (simp add: start_inv_def path_entry)
  from execute_from_post [OF adm tame this] show ?thesis
    by (simp add: execute_inner_def entry_of_def)
qed

end

end
