(* ===== verification/Tig_Trace.thy ===== *)
theory Tig_Trace
  imports Tig_Soundness
begin

text \<open>
  A host that records the calls it receives, as an instance of the host contract: the record shows
  that every capability a package uses was granted to it. Recording does not change an execution, so
  what the record shows holds of executions on the host itself.
\<close>

section \<open>Recording hosts\<close>

type_synonym host_trace = "(HostCall \<times> (HostError + HostCallResult option)) list"

definition record_call ::
    "HostCall \<Rightarrow> ('a \<Rightarrow> HostCallResult option) \<Rightarrow> ('h \<Rightarrow> (HostError + 'a) \<times> 'h) \<Rightarrow>
     'h \<times> host_trace \<Rightarrow> (HostError + 'a) \<times> 'h \<times> host_trace" where
  "record_call call pick f s =
     (case f (fst s) of (r, h) \<Rightarrow> (r, h, (call, map_sum id pick r) # snd s))"

definition traced :: "'h Host \<Rightarrow> ('h \<times> host_trace) Host" where
  "traced H =
     \<lparr>system_log = (\<lambda>s c x. record_call (SystemLogCall c x) (\<lambda>_. None) (\<lambda>h. system_log H h c x) s),
      object_create = (\<lambda>s c x. record_call (ObjectCreateCall c x) Some (\<lambda>h. object_create H h c x) s),
      object_query = (\<lambda>s c x. record_call (ObjectQueryCall c x) Some (\<lambda>h. object_query H h c x) s),
      object_inspect = (\<lambda>s c x. record_call (ObjectInspectCall c x) Some (\<lambda>h. object_inspect H h c x) s),
      object_revise =
        (\<lambda>s c x y. record_call (ObjectReviseCall c x y) Some (\<lambda>h. object_revise H h c x y) s),
      object_history = (\<lambda>s c x. record_call (ObjectHistoryCall c x) Some (\<lambda>h. object_history H h c x) s),
      task_context = (\<lambda>s c. record_call (TaskContextCall c) Some (\<lambda>h. task_context H h c) s),
      task_propose =
        (\<lambda>s c x y. record_call (TaskProposeCall c x y) (\<lambda>_. None) (\<lambda>h. task_propose H h c x y) s),
      command_read = (\<lambda>s c. record_call (CommandReadCall c) Some (\<lambda>h. command_read H h c) s),
      command_result_emit =
        (\<lambda>s c x y. record_call (CommandResultEmitCall c x y) (\<lambda>_. None)
           (\<lambda>h. command_result_emit H h c x y) s)\<rparr>"

lemma host_invoke_traced:
  "host_invoke (traced H) call (h, tr) =
     (case host_invoke H call h of (r, h') \<Rightarrow> (r, h', (call, r) # tr))"
  by (cases call)
    (simp_all add: traced_def record_call_def no_result_def some_result_def split: prod.split)

text \<open>The capabilities a recorded run was given, and the record of a run that used only granted ones.\<close>

definition trace_gives :: "host_trace \<Rightarrow> PackedCapability \<Rightarrow> bool" where
  "trace_gives tr c \<longleftrightarrow>
     (\<exists>call r. (call, Inr (Some r)) \<in> set tr \<and> gives_capability (call_op call) \<and> hr_capability r = c)"

fun trace_authorised :: "tig_graph \<Rightarrow> PackedCapability array \<Rightarrow> host_trace \<Rightarrow> bool" where
  "trace_authorised g caps [] = True"
| "trace_authorised g caps (ev # earlier) =
     (call_authorised g caps (trace_gives earlier) (fst ev) \<and> trace_authorised g caps earlier)"

interpretation traced_host: host_contract g caps "traced H"
    "\<lambda>s. trace_authorised g caps (snd s)" "\<lambda>s. trace_gives (snd s)" for g caps H
proof unfold_locales
  fix s s' :: "'a \<times> host_trace" and call r
  assume a: "trace_authorised g caps (snd s)" "call_authorised g caps (trace_gives (snd s)) call"
    and inv: "host_invoke (traced H) call s = (r, s')"
  obtain h where s': "s' = (h, (call, r) # snd s)"
    using inv host_invoke_traced [of H call "fst s" "snd s"] by (auto split: prod.splits)
  show "trace_authorised g caps (snd s')" using a by (simp add: s')
  show "trace_gives (snd s') c" if "trace_gives (snd s) c" for c
    using that by (auto simp: s' trace_gives_def)
next
  fix s s' :: "'a \<times> host_trace" and call res
  assume inv: "host_invoke (traced H) call s = (Inr (Some res), s')" and gives: "gives_capability (call_op call)"
  obtain h where "s' = (h, (call, Inr (Some res)) # snd s)"
    using inv host_invoke_traced [of H call "fst s" "snd s"] by (auto split: prod.splits)
  with gives show "trace_gives (snd s') (hr_capability res)" by (auto simp: trace_gives_def)
qed

interpretation any_host: host_contract g caps H "\<lambda>_. True" "\<lambda>_ _. True" for g caps H
  by unfold_locales simp_all

section \<open>Recording does not change an execution\<close>

named_theorems traces_intros

definition forget :: "'r \<times> Interpreter \<times> 'h \<times> host_trace \<Rightarrow> 'r \<times> Interpreter \<times> 'h" where
  "forget res = (case res of (r, it, h, tr) \<Rightarrow> (r, it, h))"

definition traces :: "('h, 'a) exec \<Rightarrow> ('h \<times> host_trace, 'a) exec \<Rightarrow> bool" where
  "traces m m' \<longleftrightarrow> (\<forall>it h tr. forget (m' (it, h, tr)) = m (it, h))"

lemma traces_bindE [traces_intros]:
  assumes "traces m m'" and "\<And>x. traces (f x) (f' x)"
  shows "traces (bindE m f) (bindE m' f')"
  unfolding traces_def
proof (intro allI)
  fix it h tr
  obtain r jt k ur where m': "m' (it, h, tr) = (r, jt, k, ur)" by (metis prod.exhaust)
  then have m: "m (it, h) = (r, jt, k)"
    using assms(1) unfolding traces_def forget_def by (metis (mono_tags, lifting) case_prod_conv)
  show "forget (bindE m' f' (it, h, tr)) = bindE m f (it, h)"
    using assms(2) unfolding traces_def bindE_def m m' by (cases r) (simp_all add: forget_def)
qed

lemma traces_basic [traces_intros]:
  "traces (liftE r) (liftE r)" "traces (readE f) (readE f)" "traces (modifyE k) (modifyE k)"
  "traces (charge_node i) (charge_node i)"
  by (simp_all add: traces_def forget_def liftE_def readE_def modifyE_def charge_node_def bindE_def
      ok_or_def split: option.split)

lemma traces_callE [traces_intros]: "traces (callE f) (callE (record_call call pick f))"
  by (auto simp: traces_def forget_def callE_def record_call_def split: prod.split sum.split)

lemma traces_store [traces_intros]:
  "traces (store_value i v) (store_value i v)" "traces (put_host_result i r) (put_host_result i r)"
  "traces (store_host_result i r) (store_host_result i r)"
  unfolding store_value_def put_host_result_def store_host_result_def
  by (intro traces_intros)+

lemma traced_simps [simp]:
  "system_log (traced H) = (\<lambda>s c x. record_call (SystemLogCall c x) (\<lambda>_. None) (\<lambda>h. system_log H h c x) s)"
  "object_create (traced H) = (\<lambda>s c x. record_call (ObjectCreateCall c x) Some (\<lambda>h. object_create H h c x) s)"
  "object_query (traced H) = (\<lambda>s c x. record_call (ObjectQueryCall c x) Some (\<lambda>h. object_query H h c x) s)"
  "object_inspect (traced H) = (\<lambda>s c x. record_call (ObjectInspectCall c x) Some (\<lambda>h. object_inspect H h c x) s)"
  "object_revise (traced H) =
     (\<lambda>s c x y. record_call (ObjectReviseCall c x y) Some (\<lambda>h. object_revise H h c x y) s)"
  "object_history (traced H) = (\<lambda>s c x. record_call (ObjectHistoryCall c x) Some (\<lambda>h. object_history H h c x) s)"
  "task_context (traced H) = (\<lambda>s c. record_call (TaskContextCall c) Some (\<lambda>h. task_context H h c) s)"
  "task_propose (traced H) =
     (\<lambda>s c x y. record_call (TaskProposeCall c x y) (\<lambda>_. None) (\<lambda>h. task_propose H h c x y) s)"
  "command_read (traced H) = (\<lambda>s c. record_call (CommandReadCall c) Some (\<lambda>h. command_read H h c) s)"
  "command_result_emit (traced H) =
     (\<lambda>s c x y. record_call (CommandResultEmitCall c x y) (\<lambda>_. None)
        (\<lambda>h. command_result_emit H h c x y) s)"
  by (simp_all add: traced_def)

lemma traces_execute_opcode: "traces (execute_opcode g H p i n) (execute_opcode g (traced H) p i n)"
  by (cases p) (auto simp: execute_opcode_def execute_defs Let_def split: PythType.split
      intro!: traces_intros)

lemma traces_execute_nodes: "traces (execute_nodes g H is) (execute_nodes g (traced H) is)"
  by (induction "is") (auto simp: dispatch_node_def intro!: traces_intros traces_execute_opcode)

lemma traces_execute_block: "traces (execute_block g H b) (execute_block g (traced H) b)"
  unfolding execute_block_def Let_def by (intro traces_intros traces_execute_nodes)

lemma traces_execute_from: "traces (execute_from g H b) (execute_from g (traced H) b)"
  unfolding traces_def
proof (intro allI)
  fix it h tr
  show "forget (execute_from g (traced H) b (it, h, tr)) = execute_from g H b (it, h)"
  proof (induction "unat (it_budget it)" arbitrary: b it h tr rule: less_induct)
    case less
    obtain r jt k ur where m': "execute_block g (traced H) b (it, h, tr) = (r, jt, k, ur)"
      by (metis prod.exhaust)
    then have m: "execute_block g H b (it, h) = (r, jt, k)"
      using traces_execute_block [of g H b] unfolding traces_def forget_def
      by (metis (mono_tags, lifting) case_prod_conv)
    have "unat (it_budget jt) < unat (it_budget it)" if "r = Ok x" for x
      using execute_block_budget [of g H b "(it, h)" x "(jt, k)"] m that by simp
    then show ?case
      by (subst (1 2) execute_from.simps)
        (auto simp: m m' forget_def less.hyps [unfolded forget_def] split: result.split BlockOutcome.split)
  qed
qed

lemma execute_inner_traced:
  "execute_inner g H (it, h) = forget (execute_inner g (traced H) (it, h, tr))"
  using traces_execute_from unfolding execute_inner_def traces_def by metis

end
