(* ===== verification/Tig_Examples.thy ===== *)
theory Tig_Examples
  imports Tig_Encode Tig_Trace
begin

text \<open>
  Two concrete programs in the form the compiler emits, with the proof that the verifier admits them:
  \<open>hello\<close>, shaped like \<open>programs/examples/hello.pyth\<close>, takes a log capability from its import, logs
  a text and returns; \<open>diamond\<close> branches and joins. A small host that keeps the log completes the
  surroundings in which the theorems about executions apply.
\<close>

section \<open>A program that logs\<close>

definition mk_node ::
    "Opcode \<Rightarrow> PythType \<Rightarrow> u16 \<Rightarrow> u32 \<times> u32 \<times> u32 \<times> u32 \<Rightarrow> u32 \<Rightarrow> u32 \<Rightarrow> GraphNode" where
  "mk_node p t b ins a0 a1 = \<lparr>gn_opcode = p, gn_result_type = t, gn_block_index = b,
     gn_inputs = ins, gn_auxiliary0 = a0, gn_auxiliary1 = a1, gn_immediate = 0\<rparr>"

definition hello :: OwnedGraph where
  "hello = \<lparr>og_principal_id = 7,
     og_imports = [\<lparr>gi_name_offset = 0, gi_name_len = 3, gi_resource_kind = RESOURCE_SYSTEM_LOG,
       gi_rights = RIGHTS_READ, gi_expected_type = Capability, gi_import_slot = 0\<rparr>],
     og_blocks = [\<lparr>gb_block_id = 0, gb_first_node = 0, gb_node_count = 5, gb_parameter_count = 0,
       gb_terminator_node = 4\<rparr>],
     og_nodes = [
       mk_node BlockParam Capability 0 (NO_VALUE, NO_VALUE, NO_VALUE, NO_VALUE) 0 0,
       mk_node EffectStart Effect 0 (NO_VALUE, NO_VALUE, NO_VALUE, NO_VALUE) 0 0,
       mk_node ConstUtf8 Utf8 0 (NO_VALUE, NO_VALUE, NO_VALUE, NO_VALUE) 3 5,
       mk_node SystemLog Effect 0 (1, 0, 2, NO_VALUE) 0 0,
       mk_node Return Unit 0 (NO_VALUE, NO_VALUE, NO_VALUE, NO_VALUE) 0 0],
     og_constant_pool = [],
     og_string_table = [0x6C, 0x6F, 0x67, 0x68, 0x65, 0x6C, 0x6C, 0x6F],
     og_loop_budgets = []\<rparr>"

lemma hello_limits: "owned_limits hello"
  by (simp add: owned_limits_def hello_def tig_limits)

lemmas hello_eval = hello_def mk_node_def graph_view_def graph_header_def block_record_def
  node_record_def import_record_def

lemmas eval_off = type_code.simps opcode_code.simps bindR_eq_Ok ensure_eq_Ok ok_or_eq_Ok
  expectR_eq_Ok map_errR_eq_Ok for_each_eq_Ok for_each_enumerate_eq_Ok array_get_eq_Ok
  array_set_eq_Ok list_get_Some list_get_None

lemma hello_known: "verify_known_types (graph_view hello c) = Ok ()"
  "verify_known_opcodes (graph_view hello c) = Ok ()"
  by (simp_all add: verify_known_types_def verify_known_opcodes_def hello_eval del: eval_off)

definition hello_tables :: block_tables where
  "hello_tables = \<lparr>bt_starts = (\<lambda>_. 0)(0 := 0), bt_ends = (\<lambda>_. 0)(0 := 5),
      bt_node_blocks = (\<lambda>_. USIZE_MAX)(0 := 0, Suc 0 := 0, Suc (Suc 0) := 0,
        Suc (Suc (Suc 0)) := 0, Suc (Suc (Suc (Suc 0))) := 0)\<rparr>"

lemma small_usize: "0 \<noteq> USIZE_MAX" "USIZE_MAX \<noteq> 0" "0 + 5 \<le> USIZE_MAX" "5 \<le> USIZE_MAX"
  "Suc 0 \<noteq> USIZE_MAX" "Suc (Suc 0) \<noteq> USIZE_MAX" "Suc (Suc (Suc 0)) \<noteq> USIZE_MAX"
  by (simp_all add: USIZE_MAX_def)

lemma hello_blocks: "verify_block_ranges (graph_view hello c) = Ok hello_tables"
  by (simp add: verify_block_ranges_def verify_block_range_def claim_node_def hello_eval Let_def
     checked_add_usize_def small_usize u32_of_def array_set_def tig_limits upt_rec list_get_def
     expect_opcode_def is_terminator_def hello_tables_def del: eval_off)

lemma hello_control: "verify_control_flow (graph_view hello c) hello_tables = Ok ()"
  by (simp add: verify_control_flow_def verify_block_control_def hello_eval Let_def
     array_get_def tig_limits upt_rec list_get_def expect_opcode_def hello_tables_def
   is_terminator_def del: eval_off)

lemma hello_semantics: "verify_semantics (graph_view hello c) = Ok ()"
  by (simp add: verify_semantics_def verify_semantics_node_def hello_eval Let_def
     array_get_def array_set_def tig_limits list_get_def expect_opcode_def expect_type_def
     verify_node_signature_def verify_opcode_signature_def verify_node_effect_def
     verify_capability_inputs_def verify_host_import_def verify_import_block_param_def
     node_inputs_def NO_VALUE_def sig_defs opcode_accepts_result_def count_values_def
     initial_sem_state_def u32_of_def saturating_add_u8_def find_import_def try_from_word_def
     resource_defs rights_defs
     del: eval_off)

lemma hello_ranges: "verify_referenced_ranges (graph_view hello c) = Ok ()"
  by (simp add: verify_referenced_ranges_def hello_eval referenced_bytes_def checked_add_word_def
     slice_get_def expect_opcode_def utf8_cont_def del: eval_off)

lemma hello_canonical: "verify_canonical_encoding (graph_view hello c) = Ok ()"
  by (simp add: verify_canonical_encoding_def hello_eval checked_add_word_def
     expect_opcode_def node_fields_are_canonical_def Let_def resource_defs rights_defs del: eval_off)

text \<open>The passes that need the control-flow graph, decided through their characterisations.\<close>

lemma verified_by_passes:
  assumes "length (blocks g) \<le> MAX_BLOCKS" and "length (nodes g) \<le> MAX_GRAPH_NODES"
    and "verify_known_types g = Ok ()" and "verify_known_opcodes g = Ok ()"
    and "verify_block_ranges g = Ok tb" and "verify_control_flow g tb = Ok ()"
    and "entry_of g < length (blocks g)" and "\<forall>b < length (blocks g). reachable_block g b"
    and "inputs_available g" and "verify_semantics g = Ok ()" and "verify_referenced_ranges g = Ok ()"
    and "verify_canonical_encoding g = Ok ()"
  shows "verified g" and "cfg_ok g"
proof -
  have bounds: "graph_bounds g" using assms(1,2) by (simp add: graph_bounds_def)
  have known: "known_codes g" by (rule verify_known_codes [OF assms(3,4)])
  have wf: "blocks_wf g tb" by (rule verify_block_ranges_wf [OF known bounds assms(5)])
  show ok: "cfg_ok g"
    by (rule cfg_okI [OF known bounds wf verify_control_flow_wf [OF known bounds wf assms(6)]])
  have "verify_reachable_blocks g = Ok ()"
    using verify_reachable_blocks_iff [OF ok] assms(7,8) by simp
  moreover have "verify_value_availability g (bt_node_blocks tb) = Ok ()"
    using verify_value_availability_eq [OF ok wf assms(7)] assms(9) by simp
  ultimately show "verified g"
    using assms by (simp add: verified_def verify_package_def)
qed

lemma All_less_4: "(\<forall>i < 4. P i) \<longleftrightarrow> P 0 \<and> P 1 \<and> P 2 \<and> P (3 :: nat)"
  by (auto simp: numeral_eq_Suc All_less_Suc)

lemma All_less_5: "(\<forall>i < 5. P i) \<longleftrightarrow> P 0 \<and> P 1 \<and> P 2 \<and> P 3 \<and> P (4 :: nat)"
  by (auto simp: numeral_eq_Suc All_less_Suc)

lemma hello_sizes: "entry_of (graph_view hello c) = 0" "length (blocks (graph_view hello c)) = 1"
  "length (nodes (graph_view hello c)) = 5"
  by (simp_all add: entry_of_def hello_eval)

lemma hello_inputs: "inputs_available (graph_view hello c)"
  by (simp add: inputs_available_def hello_sizes All_less_5)
    (simp add: available_def node_block_def hello_eval node_inputs_def NO_VALUE_def del: eval_off)

lemma hello_verified: "verified (graph_view hello c)" "cfg_ok (graph_view hello c)"
  using reachable_entry [of "graph_view hello c"] hello_known hello_blocks hello_control
    hello_inputs hello_semantics hello_ranges hello_canonical
  by (intro verified_by_passes [of _ hello_tables]; simp add: hello_sizes tig_limits)+

section \<open>A program that branches\<close>

definition diamond :: OwnedGraph where
  "diamond = \<lparr>og_principal_id = 7, og_imports = [],
     og_blocks = [
       \<lparr>gb_block_id = 0, gb_first_node = 0, gb_node_count = 2, gb_parameter_count = 0,
        gb_terminator_node = 1\<rparr>,
       \<lparr>gb_block_id = 1, gb_first_node = 2, gb_node_count = 1, gb_parameter_count = 0,
        gb_terminator_node = 2\<rparr>,
       \<lparr>gb_block_id = 2, gb_first_node = 3, gb_node_count = 1, gb_parameter_count = 0,
        gb_terminator_node = 3\<rparr>,
       \<lparr>gb_block_id = 3, gb_first_node = 4, gb_node_count = 1, gb_parameter_count = 0,
        gb_terminator_node = 4\<rparr>],
     og_nodes = [
       mk_node ConstBool Bool 0 (NO_VALUE, NO_VALUE, NO_VALUE, NO_VALUE) 0 0,
       mk_node Branch Unit 0 (0, NO_VALUE, NO_VALUE, NO_VALUE) 1 2,
       mk_node Jump Unit 1 (NO_VALUE, NO_VALUE, NO_VALUE, NO_VALUE) 3 0,
       mk_node Jump Unit 2 (NO_VALUE, NO_VALUE, NO_VALUE, NO_VALUE) 3 0,
       mk_node Return Unit 3 (NO_VALUE, NO_VALUE, NO_VALUE, NO_VALUE) 0 0],
     og_constant_pool = [], og_string_table = [], og_loop_budgets = []\<rparr>"

lemmas diamond_eval = diamond_def mk_node_def graph_view_def graph_header_def block_record_def
  node_record_def import_record_def

definition diamond_tables :: block_tables where
  "diamond_tables = \<lparr>bt_starts = (\<lambda>_. 0)(0 := 0, Suc 0 := 2, Suc (Suc 0) := 3, Suc (Suc (Suc 0)) := 4),
     bt_ends = (\<lambda>_. 0)(0 := Suc (Suc 0), Suc 0 := 3, Suc (Suc 0) := 4, Suc (Suc (Suc 0)) := 5),
     bt_node_blocks = (\<lambda>_. USIZE_MAX)(0 := 0, Suc 0 := 0, 2 := Suc 0, 3 := Suc (Suc 0),
       4 := Suc (Suc (Suc 0)))\<rparr>"

lemma usize_fits: "n \<le> 5 \<Longrightarrow> n \<le> USIZE_MAX"
  by (simp add: USIZE_MAX_def)

lemma diamond_known: "verify_known_types (graph_view diamond c) = Ok ()"
  "verify_known_opcodes (graph_view diamond c) = Ok ()"
  by (simp_all add: verify_known_types_def verify_known_opcodes_def diamond_eval del: eval_off)

lemma diamond_blocks: "verify_block_ranges (graph_view diamond c) = Ok diamond_tables"
  by (simp add: verify_block_ranges_def verify_block_range_def claim_node_def diamond_eval Let_def
     checked_add_usize_def small_usize usize_fits u32_of_def array_set_def tig_limits upt_rec list_get_def
     expect_opcode_def is_terminator_def diamond_tables_def del: eval_off)

lemma diamond_control: "verify_control_flow (graph_view diamond c) diamond_tables = Ok ()"
  by (simp add: verify_control_flow_def verify_block_control_def diamond_eval Let_def
     array_get_def tig_limits upt_rec list_get_def expect_opcode_def diamond_tables_def
   is_terminator_def validate_target_def validate_jump_arity_def validate_branch_arity_def
   count_values_def node_inputs_def NO_VALUE_def del: eval_off)

lemma diamond_semantics: "verify_semantics (graph_view diamond c) = Ok ()"
  by (simp add: verify_semantics_def verify_semantics_node_def diamond_eval Let_def
     array_get_def array_set_def tig_limits list_get_def expect_opcode_def expect_type_def
     verify_node_signature_def verify_opcode_signature_def verify_node_effect_def
     verify_capability_inputs_def 
     node_inputs_def NO_VALUE_def sig_defs opcode_accepts_result_def 
     initial_sem_state_def u32_of_def del: eval_off)

lemma diamond_last: "verify_referenced_ranges (graph_view diamond c) = Ok ()"
  "verify_canonical_encoding (graph_view diamond c) = Ok ()"
  by (simp_all add: verify_referenced_ranges_def verify_canonical_encoding_def diamond_eval
     checked_add_word_def expect_opcode_def node_fields_are_canonical_def Let_def del: eval_off)

lemma diamond_sizes: "entry_of (graph_view diamond c) = 0" "length (blocks (graph_view diamond c)) = 4"
  "length (nodes (graph_view diamond c)) = 5"
  by (simp_all add: entry_of_def diamond_eval)

lemma diamond_edges: "cfg_edge (graph_view diamond c) 0 1" "cfg_edge (graph_view diamond c) 0 2"
  "cfg_edge (graph_view diamond c) 1 3"
  by (simp_all add: cfg_edge_def succs_def blk_end_def Let_def node_op_def diamond_eval del: eval_off)

lemma diamond_reachable: "\<forall>b < length (blocks (graph_view diamond c)). reachable_block (graph_view diamond c) b"
  using reachable_entry [of "graph_view diamond c"] diamond_edges [of c, THEN reachable_edge [rotated]]
  by (simp add: diamond_sizes All_less_4)

lemma diamond_inputs: "inputs_available (graph_view diamond c)"
  by (simp add: inputs_available_def diamond_sizes All_less_5)
    (simp add: available_def node_block_def diamond_eval node_inputs_def NO_VALUE_def del: eval_off)

lemma diamond_verified: "verified (graph_view diamond c)" "cfg_ok (graph_view diamond c)"
  using diamond_reachable diamond_known diamond_blocks diamond_control
    diamond_inputs diamond_semantics diamond_last
  by (intro verified_by_passes [of _ diamond_tables]; simp add: diamond_sizes tig_limits)+

section \<open>A host\<close>

text \<open>A host that accepts log texts and denies every other operation.\<close>

definition log_host :: "u8 list list Host" where
  "log_host =
     \<lparr>system_log = (\<lambda>h c text. (Inr (), text # h)),
      object_create = (\<lambda>h c kind. (Inl Denied, h)), object_query = (\<lambda>h c kind. (Inl Denied, h)),
      object_inspect = (\<lambda>h c i. (Inl Denied, h)), object_revise = (\<lambda>h c i text. (Inl Denied, h)),
      object_history = (\<lambda>h c i. (Inl Denied, h)), task_context = (\<lambda>h c. (Inl Denied, h)),
      task_propose = (\<lambda>h c i score. (Inl Denied, h)), command_read = (\<lambda>h c. (Inl Denied, h)),
      command_result_emit = (\<lambda>h c status text. (Inl Denied, h))\<rparr>"

lemma log_host_well_behaved: "well_behaved log_host"
  unfolding well_behaved_def
proof (intro allI impI)
  fix call h r h'
  assume "host_invoke log_host call h = (Inr (Some r), h')"
  then show "result_good (call_op call) r" by (cases call) (simp_all add: log_host_def)
qed

abbreviation hello_graph :: tig_graph where
  "hello_graph \<equiv> graph_view hello (graph_checksum hello)"

lemma hello_admitted: "admitted (graph_view hello c)"
  using hello_verified [of c]
  by (simp add: admitted_def graph_within_limits_def jumps_unit_def hello_sizes All_less_5)
    (simp add: node_op_def hello_eval tig_limits del: eval_off)

lemma hello_tame: "tame (graph_view hello c) (\<lambda>_. 9) log_host"
  unfolding tame_def executable_graph_def
  by (simp add: log_host_well_behaved hello_sizes All_less_5)
    (simp add: node_op_def node_ty_def imports_bound_def hello_eval del: eval_off)

section \<open>A jump that claims a value\<close>

text \<open>
  The first block ends in a jump whose record claims the result type \<open>Bool\<close>, and the second block
  branches on that value.
\<close>

definition jump_value :: OwnedGraph where
  "jump_value = \<lparr>og_principal_id = 7, og_imports = [],
     og_blocks = [
       \<lparr>gb_block_id = 0, gb_first_node = 0, gb_node_count = 1, gb_parameter_count = 0,
        gb_terminator_node = 0\<rparr>,
       \<lparr>gb_block_id = 1, gb_first_node = 1, gb_node_count = 1, gb_parameter_count = 0,
        gb_terminator_node = 1\<rparr>,
       \<lparr>gb_block_id = 2, gb_first_node = 2, gb_node_count = 1, gb_parameter_count = 0,
        gb_terminator_node = 2\<rparr>],
     og_nodes = [
       mk_node Jump Bool 0 (NO_VALUE, NO_VALUE, NO_VALUE, NO_VALUE) 1 0,
       mk_node Branch Unit 1 (0, NO_VALUE, NO_VALUE, NO_VALUE) 2 2,
       mk_node Return Unit 2 (NO_VALUE, NO_VALUE, NO_VALUE, NO_VALUE) 0 0],
     og_constant_pool = [], og_string_table = [], og_loop_budgets = []\<rparr>"

lemmas jump_value_eval = jump_value_def mk_node_def graph_view_def graph_header_def block_record_def
  node_record_def import_record_def

definition jump_value_tables :: block_tables where
  "jump_value_tables = \<lparr>bt_starts = (\<lambda>_. 0)(0 := 0, Suc 0 := Suc 0, Suc (Suc 0) := 2),
     bt_ends = (\<lambda>_. 0)(0 := Suc 0, Suc 0 := Suc (Suc 0), Suc (Suc 0) := 3),
     bt_node_blocks = (\<lambda>_. USIZE_MAX)(0 := 0, Suc 0 := Suc 0, 2 := Suc (Suc 0))\<rparr>"

lemma jump_value_limits: "owned_limits jump_value"
  by (simp add: owned_limits_def jump_value_def tig_limits)

lemma jump_value_known: "verify_known_types (graph_view jump_value c) = Ok ()"
  "verify_known_opcodes (graph_view jump_value c) = Ok ()"
  by (simp_all add: verify_known_types_def verify_known_opcodes_def jump_value_eval del: eval_off)

lemma jump_value_blocks: "verify_block_ranges (graph_view jump_value c) = Ok jump_value_tables"
  by (simp add: verify_block_ranges_def verify_block_range_def claim_node_def jump_value_eval Let_def
     checked_add_usize_def small_usize usize_fits u32_of_def array_set_def tig_limits upt_rec list_get_def
     expect_opcode_def is_terminator_def jump_value_tables_def del: eval_off)

lemma jump_value_control: "verify_control_flow (graph_view jump_value c) jump_value_tables = Ok ()"
  by (simp add: verify_control_flow_def verify_block_control_def jump_value_eval Let_def
     array_get_def tig_limits upt_rec list_get_def expect_opcode_def jump_value_tables_def
   is_terminator_def validate_target_def validate_jump_arity_def validate_branch_arity_def
   count_values_def node_inputs_def NO_VALUE_def del: eval_off)

lemma jump_value_semantics: "verify_semantics (graph_view jump_value c) = Ok ()"
  by (simp add: verify_semantics_def verify_semantics_node_def jump_value_eval Let_def
     array_get_def array_set_def tig_limits list_get_def expect_opcode_def expect_type_def
     verify_node_signature_def verify_opcode_signature_def verify_node_effect_def
     verify_capability_inputs_def node_inputs_def NO_VALUE_def sig_defs opcode_accepts_result_def
     initial_sem_state_def u32_of_def del: eval_off)

lemma jump_value_last: "verify_referenced_ranges (graph_view jump_value c) = Ok ()"
  "verify_canonical_encoding (graph_view jump_value c) = Ok ()"
  by (simp_all add: verify_referenced_ranges_def verify_canonical_encoding_def jump_value_eval
     checked_add_word_def expect_opcode_def node_fields_are_canonical_def Let_def del: eval_off)

lemma jump_value_sizes: "entry_of (graph_view jump_value c) = 0"
  "length (blocks (graph_view jump_value c)) = 3" "length (nodes (graph_view jump_value c)) = 3"
  by (simp_all add: entry_of_def jump_value_eval)

lemma jump_value_edges: "cfg_edge (graph_view jump_value c) 0 1" "cfg_edge (graph_view jump_value c) 1 2"
  by (simp_all add: cfg_edge_def succs_def blk_end_def Let_def node_op_def jump_value_eval del: eval_off)

lemma All_less_3: "(\<forall>i < 3. P i) \<longleftrightarrow> P 0 \<and> P 1 \<and> P (2 :: nat)"
  by (auto simp: numeral_eq_Suc All_less_Suc)

lemma jump_value_reachable:
  "\<forall>b < length (blocks (graph_view jump_value c)). reachable_block (graph_view jump_value c) b"
  using reachable_entry [of "graph_view jump_value c"]
    jump_value_edges [of c, THEN reachable_edge [rotated]]
  by (simp add: jump_value_sizes All_less_3)

text \<open>The entry dominates every block.\<close>

lemma entry_dominates: "cfg_path g p \<Longrightarrow> entry_of g \<in> set p"
  by (induction rule: cfg_path.induct) simp_all

lemma jump_value_inputs: "inputs_available (graph_view jump_value c)"
proof -
  have "dominates (graph_view jump_value c) 0 b" for b
    using entry_dominates [of "graph_view jump_value c"] jump_value_sizes(1) [of c]
    by (auto simp: dominates_def)
  then show ?thesis
    by (simp add: inputs_available_def jump_value_sizes All_less_3 available_def)
      (simp add: node_block_def jump_value_eval node_inputs_def NO_VALUE_def del: eval_off)
qed

lemma jump_value_verified: "verified (graph_view jump_value c)"
  using jump_value_reachable jump_value_known jump_value_blocks jump_value_control
    jump_value_inputs jump_value_semantics jump_value_last
  by (intro verified_by_passes [of _ jump_value_tables]; simp add: jump_value_sizes tig_limits)

lemma jump_value_tabs:
  "blocks (graph_view jump_value c) = map (\<lambda>n. block_record \<lparr>gb_block_id = n, gb_first_node = n,
     gb_node_count = 1, gb_parameter_count = 0, gb_terminator_node = n\<rparr>) [0, 1, 2]"
  "nodes (graph_view jump_value c) = map node_record
     [mk_node Jump Bool 0 (NO_VALUE, NO_VALUE, NO_VALUE, NO_VALUE) 1 0,
      mk_node Branch Unit 1 (0, NO_VALUE, NO_VALUE, NO_VALUE) 2 2,
      mk_node Return Unit 2 (NO_VALUE, NO_VALUE, NO_VALUE, NO_VALUE) 0 0]"
  "hdr_entry_block (header (graph_view jump_value c)) = 0"
  by (simp_all add: graph_view_def graph_header_def jump_value_def)

lemma jump_value_run:
  "fst (execute_inner (graph_view jump_value c) H (interpreter_new caps 100, h)) = Err InvalidInput"
  unfolding execute_inner_def jump_value_tabs
  by (simp add: execute_from.simps execute_block_def jump_value_tabs mk_node_def Let_def
      block_record_def node_record_def interpreter_new_def list_get_def checked_add_usize_def
      usize_fits upt_rec dispatch_node_def bindE_def liftE_def readE_def modifyE_def charge_node_def
      execute_opcode_def jump_to_def try_u32_def checked_add_word_def expect_bool_def load_value_def
      MAX_RUNTIME_VALUES_def del: eval_off)

end
