(* ===== verification/Kernel_Tables.thy ===== *)
theory Kernel_Tables
  imports Prelude
begin

text \<open>
  Fixed-size tables of the kernel: arrays that are searched from the first slot
  (\<open>iter().position\<close>, \<open>iter().find\<close>) and updated in place. An operation takes the table and returns
  its result together with the table it leaves.
\<close>

type_synonym ('s, 'e, 'a) op = "'s \<Rightarrow> ('e, 'a) result \<times> 's"

text \<open>
  Operations in sequence, as \<open>?\<close> composes them: the first error ends the sequence and leaves the
  table as it is at that point. \<open>readS\<close> runs a computation that does not change the table,
  \<open>modifyS\<close> assigns to it, and \<open>onS\<close> runs an operation on one table of a larger state.
\<close>

definition bindS :: "('s, 'e, 'a) op \<Rightarrow> ('a \<Rightarrow> ('s, 'e, 'b) op) \<Rightarrow> ('s, 'e, 'b) op" where
  "bindS m f s =
     (case m s of
        (Ok a, s') \<Rightarrow> f a s'
      | (Err e, s') \<Rightarrow> (Err e, s')
      | (Panic, s') \<Rightarrow> (Panic, s')
      | (Diverge, s') \<Rightarrow> (Diverge, s'))"

definition readS :: "('s \<Rightarrow> ('e, 'a) result) \<Rightarrow> ('s, 'e, 'a) op" where
  "readS f s = (f s, s)"

definition modifyS :: "('s \<Rightarrow> 's) \<Rightarrow> ('s, 'e, unit) op" where
  "modifyS f s = (Ok (), f s)"

definition onS ::
    "('s \<Rightarrow> 't) \<Rightarrow> (('t \<Rightarrow> 't) \<Rightarrow> 's \<Rightarrow> 's) \<Rightarrow> ('e \<Rightarrow> 'f) \<Rightarrow> ('t, 'e, 'a) op \<Rightarrow> ('s, 'f, 'a) op" where
  "onS part update err m s = (case m (part s) of (r, t) \<Rightarrow> (map_errR err r, update (\<lambda>_. t) s))"

lemma map_errR_ident [simp]: "map_errR (\<lambda>e. e) r = r"
  by (cases r) auto

lemma bindS_Ok:
  "bindS m f s = (Ok b, s'') \<longleftrightarrow> (\<exists>a s'. m s = (Ok a, s') \<and> f a s' = (Ok b, s''))"
  by (auto simp: bindS_def split: prod.splits result.splits)

lemma bindS_Err:
  "bindS m f s = (Err e, s'') \<longleftrightarrow> m s = (Err e, s'') \<or> (\<exists>a s'. m s = (Ok a, s') \<and> f a s' = (Err e, s''))"
  by (auto simp: bindS_def split: prod.splits result.splits)

lemma readS_eq: "readS f s = (r, s') \<longleftrightarrow> f s = r \<and> s' = s"
  by (auto simp: readS_def)

lemma modifyS_eq: "modifyS f s = (r, s') \<longleftrightarrow> r = Ok () \<and> s' = f s"
  by (auto simp: modifyS_def)

lemma onS_eq:
  "onS part update err m s = (r, s') \<longleftrightarrow>
     (\<exists>r' t. m (part s) = (r', t) \<and> map_errR err r' = r \<and> s' = update (\<lambda>_. t) s)"
  by (auto simp: onS_def split: prod.splits)

lemmas op_simps = bindS_Ok readS_eq modifyS_eq onS_eq

primrec position :: "('a \<Rightarrow> bool) \<Rightarrow> 'a list \<Rightarrow> usize option" where
  "position P [] = None"
| "position P (x # xs) = (if P x then Some 0 else map_option Suc (position P xs))"

lemma position_Some:
  "position P xs = Some i \<longleftrightarrow> i < length xs \<and> P (xs ! i) \<and> (\<forall>j < i. \<not> P (xs ! j))"
proof (induction xs arbitrary: i)
  case (Cons x xs)
  then show ?case by (cases i) (auto simp: All_less_Suc2)
qed simp

lemma position_None: "position P xs = None \<longleftrightarrow> (\<forall>x \<in> set xs. \<not> P x)"
  by (induction xs) auto

lemma position_replicate [simp]: "position P (replicate n x) = (if 0 < n \<and> P x then Some 0 else None)"
  by (induction n) auto

lemma position_append:
  "position P (xs @ ys) = (case position P xs of Some i \<Rightarrow> Some i | None \<Rightarrow> map_option (\<lambda>i. length xs + i) (position P ys))"
proof (induction xs)
  case Nil
  then show ?case by (cases "position P ys") simp_all
next
  case (Cons a xs)
  then show ?case by (cases "position P ys") (auto split: option.splits)
qed

lemma position_lt: "position P xs = Some i \<Longrightarrow> i < length xs"
  by (simp add: position_Some)

lemma position_unique:
  assumes "i < length xs" and "P (xs ! i)" and "\<And>j. j < length xs \<Longrightarrow> P (xs ! j) \<Longrightarrow> j = i"
  shows "position P xs = Some i"
  unfolding position_Some using assms(1,2) assms(3) [OF order.strict_trans [OF _ assms(1)]] by blast

text \<open>A table of optional entries any two of which are related, and what storing an entry requires.\<close>

definition slots_apart :: "('a \<Rightarrow> 'a \<Rightarrow> bool) \<Rightarrow> 'a option list \<Rightarrow> bool" where
  "slots_apart R xs \<longleftrightarrow>
     (\<forall>i j p q. i < length xs \<longrightarrow> j < length xs \<longrightarrow> i \<noteq> j \<longrightarrow> xs ! i = Some p \<longrightarrow> xs ! j = Some q \<longrightarrow> R p q)"

lemma slots_apartD:
  "slots_apart R xs \<Longrightarrow> i < length xs \<Longrightarrow> j < length xs \<Longrightarrow> i \<noteq> j \<Longrightarrow> xs ! i = Some p \<Longrightarrow> xs ! j = Some q \<Longrightarrow> R p q"
  unfolding slots_apart_def by blast

lemma slots_apart_replicate [simp]: "slots_apart R (replicate n None)"
  by (simp add: slots_apart_def)

lemma slots_apart_store:
  assumes "slots_apart R xs" and new: "\<And>q. Some q \<in> set xs \<Longrightarrow> R q p \<and> R p q"
  shows "slots_apart R (xs[slot := Some p])"
  unfolding slots_apart_def length_list_update
proof (intro allI impI)
  fix i j a b
  assume i: "i < length xs" and j: "j < length xs" and ij: "i \<noteq> j"
    and a: "xs[slot := Some p] ! i = Some a" and b: "xs[slot := Some p] ! j = Some b"
  consider "i = slot" "j \<noteq> slot" | "j = slot" "i \<noteq> slot" | "i \<noteq> slot" "j \<noteq> slot" using ij by blast
  then show "R a b"
  proof cases
    case 1
    then have "Some b \<in> set xs" "a = p" using a b i j nth_mem [of j xs] by simp_all
    then show ?thesis using new by simp
  next
    case 2
    then have "Some a \<in> set xs" "b = p" using a b i j nth_mem [of i xs] by simp_all
    then show ?thesis using new by simp
  next
    case 3
    then show ?thesis using slots_apartD [OF assms(1) i j ij] a b by simp
  qed
qed

lemma stored_in: "Some q \<in> set (xs[slot := Some p]) \<Longrightarrow> q = p \<or> Some q \<in> set xs"
  using set_update_subset_insert by fastforce

text \<open>
  Functional refinement: on tables that satisfy the invariant, the operation gives the result of its
  specification on the abstract table and leaves a table that satisfies the invariant.
\<close>

definition refines :: "('s \<Rightarrow> bool) \<Rightarrow> ('s \<Rightarrow> 'a) \<Rightarrow> ('s, 'e, 'r) op \<Rightarrow> ('a, 'e, 'r) op \<Rightarrow> bool" where
  "refines valid absf m spec \<longleftrightarrow>
     (\<forall>s. valid s \<longrightarrow> valid (snd (m s)) \<and> spec (absf s) = (fst (m s), absf (snd (m s))))"

lemma refinesI:
  assumes "\<And>s r s'. valid s \<Longrightarrow> m s = (r, s') \<Longrightarrow> valid s' \<and> spec (absf s) = (r, absf s')"
  shows "refines valid absf m spec"
  unfolding refines_def
proof (intro allI impI)
  fix s
  assume "valid s"
  moreover have "m s = (fst (m s), snd (m s))" by simp
  ultimately show "valid (snd (m s)) \<and> spec (absf s) = (fst (m s), absf (snd (m s)))" by (rule assms)
qed

lemma refinesD:
  assumes "refines valid absf m spec" and "valid s" and "m s = (r, s')"
  shows "valid s'" and "spec (absf s) = (r, absf s')"
  using assms unfolding refines_def by auto

end
