(* ===== verification/Kernel_Identity.thy ===== *)
theory Kernel_Identity
  imports Kernel_Tables
begin

text \<open>
  Kernel-assigned service identities, \<open>core/src/service_identity.rs\<close>: a table of services with a
  counter of identities. The lemmas show that an identity is never issued twice, that a retired
  identity stays unknown, and what registration and retirement change.
\<close>

section \<open>The table\<close>

type_synonym ServiceId = u64
type_synonym TaskId = u64

definition MAX_SERVICES :: usize where "MAX_SERVICES = 8"
definition FIRST_SERVICE_ID :: u64 where "FIRST_SERVICE_ID = 1"
definition INVALID_SERVICE_ID :: u64 where "INVALID_SERVICE_ID = 0"

datatype ServiceIdentityError =
    IdTableFull | UnknownService | ExhaustedIds | StaleIdentityStillActive | ReusedIdentity

record ServiceRecord =
  sr_service_id :: ServiceId
  sr_task_id :: TaskId
  sr_active :: bool

definition service_record_empty :: ServiceRecord where
  "service_record_empty = \<lparr>sr_service_id = INVALID_SERVICE_ID, sr_task_id = 0, sr_active = False\<rparr>"

record ServiceIdentityTable =
  sit_records :: "ServiceRecord list"
  sit_next_id :: u64

definition identity_new :: ServiceIdentityTable where
  "identity_new =
     \<lparr>sit_records = replicate MAX_SERVICES service_record_empty, sit_next_id = FIRST_SERVICE_ID\<rparr>"

definition register_task ::
    "TaskId \<Rightarrow> (ServiceIdentityTable, ServiceIdentityError, ServiceId) op" where
  "register_task task_id t =
     (case position (\<lambda>r. \<not> sr_active r) (sit_records t) of
        None \<Rightarrow> (Err IdTableFull, t)
      | Some slot \<Rightarrow>
          let service_id = sit_next_id t in
          (case checked_add_word (sit_next_id t) 1 of
             None \<Rightarrow> (Err ExhaustedIds, t)
           | Some next_id \<Rightarrow>
               (Ok service_id,
                t\<lparr>sit_next_id := next_id,
                  sit_records := (sit_records t)[slot :=
                    \<lparr>sr_service_id = service_id, sr_task_id = task_id, sr_active = True\<rparr>]\<rparr>)))"

definition names_service :: "ServiceId \<Rightarrow> ServiceRecord \<Rightarrow> bool" where
  "names_service service_id r \<longleftrightarrow> sr_active r \<and> sr_service_id r = service_id"

definition unregister :: "ServiceId \<Rightarrow> (ServiceIdentityTable, ServiceIdentityError, unit) op" where
  "unregister service_id t =
     (case position (names_service service_id) (sit_records t) of
        None \<Rightarrow> (Err UnknownService, t)
      | Some slot \<Rightarrow>
          (Ok (), t\<lparr>sit_records := (sit_records t)[slot :=
             (sit_records t ! slot)\<lparr>sr_active := False\<rparr>]\<rparr>))"

definition task_for :: "ServiceIdentityTable \<Rightarrow> ServiceId \<Rightarrow> TaskId option" where
  "task_for t service_id =
     map_option (\<lambda>slot. sr_task_id (sit_records t ! slot))
       (position (names_service service_id) (sit_records t))"

section \<open>Runs\<close>

text \<open>The identities a run has issued, latest first, and those it has retired.\<close>

inductive id_run :: "ServiceIdentityTable \<Rightarrow> ServiceId list \<Rightarrow> ServiceId set \<Rightarrow> bool" where
  id_start: "id_run identity_new [] {}"
| id_register: "id_run t issued retired \<Longrightarrow> register_task task t = (Ok s, t') \<Longrightarrow>
    id_run t' (s # issued) retired"
| id_unregister: "id_run t issued retired \<Longrightarrow> unregister s t = (Ok (), t') \<Longrightarrow>
    id_run t' issued (insert s retired)"

definition id_inv :: "ServiceIdentityTable \<Rightarrow> ServiceId list \<Rightarrow> ServiceId set \<Rightarrow> bool" where
  "id_inv t issued retired \<longleftrightarrow>
     length (sit_records t) = MAX_SERVICES \<and> distinct issued \<and> retired \<subseteq> set issued \<and>
     (\<forall>s \<in> set issued. INVALID_SERVICE_ID < s \<and> s < sit_next_id t) \<and> INVALID_SERVICE_ID < sit_next_id t \<and>
     (\<forall>i < length (sit_records t). sr_active (sit_records t ! i) \<longrightarrow>
        sr_service_id (sit_records t ! i) \<in> set issued - retired) \<and>
     (\<forall>i < length (sit_records t). \<forall>j < length (sit_records t).
        sr_active (sit_records t ! i) \<longrightarrow> sr_active (sit_records t ! j) \<longrightarrow>
        sr_service_id (sit_records t ! i) = sr_service_id (sit_records t ! j) \<longrightarrow> i = j)"

lemma id_inv_new: "id_inv identity_new [] {}"
  by (simp add: id_inv_def identity_new_def service_record_empty_def FIRST_SERVICE_ID_def
      INVALID_SERVICE_ID_def)

lemma checked_add_1:
  assumes "checked_add_word (n :: 'w::len word) 1 = Some m"
  shows "m = n + 1" and "n < m"
proof -
  have "unat n + unat (1 :: 'w word) < 2 ^ LENGTH('w)" and m: "m = n + 1"
    using assms by (auto simp: checked_add_word_def split: if_splits)
  then have "unat n < unat m" by (simp add: unat_word_ariths)
  then show "m = n + 1" "n < m" using m by (simp_all add: word_less_nat_alt)
qed

lemma register_task_Ok:
  "register_task task t = (Ok s, t') \<longleftrightarrow>
     (\<exists>slot n. position (\<lambda>r. \<not> sr_active r) (sit_records t) = Some slot \<and>
        checked_add_word (sit_next_id t) 1 = Some n \<and> s = sit_next_id t \<and>
        t' = t\<lparr>sit_next_id := n, sit_records := (sit_records t)[slot :=
          \<lparr>sr_service_id = s, sr_task_id = task, sr_active = True\<rparr>]\<rparr>)"
  by (auto simp: register_task_def Let_def split: option.splits)

lemma unregister_Ok:
  "unregister s t = (Ok u, t') \<longleftrightarrow>
     (\<exists>slot. position (names_service s) (sit_records t) = Some slot \<and>
        t' = t\<lparr>sit_records := (sit_records t)[slot := (sit_records t ! slot)\<lparr>sr_active := False\<rparr>]\<rparr>)"
  by (auto simp: unregister_def split: option.splits)

lemma id_inv_register:
  assumes inv: "id_inv t issued retired" and reg: "register_task task t = (Ok s, t')"
  shows "id_inv t' (s # issued) retired"
proof -
  from reg obtain slot n where slot: "slot < length (sit_records t)"
    and n: "checked_add_word (sit_next_id t) 1 = Some n" and s: "s = sit_next_id t"
    and t': "t' = t\<lparr>sit_next_id := n, sit_records := (sit_records t)[slot :=
      \<lparr>sr_service_id = s, sr_task_id = task, sr_active = True\<rparr>]\<rparr>"
    by (auto simp: register_task_Ok position_Some)
  note lt = checked_add_1 [OF n]
  have fresh: "s \<notin> set issued" and pos: "INVALID_SERVICE_ID < s"
    using inv by (auto simp: id_inv_def s)
  moreover have "INVALID_SERVICE_ID < x \<and> x < n" if "x \<in> set (s # issued)" for x
    using that inv lt(2) pos unfolding id_inv_def s by (auto dest: order.strict_trans)
  moreover have "retired \<subseteq> set issued" using inv by (simp add: id_inv_def)
  ultimately show ?thesis
    using inv slot pos unfolding id_inv_def t'
    by (auto simp: nth_list_update s dest: order.strict_trans [OF _ lt(2)])
qed

lemma id_inv_unregister:
  assumes inv: "id_inv t issued retired" and un: "unregister s t = (Ok u, t')"
  shows "id_inv t' issued (insert s retired)"
proof -
  from un obtain slot where slot: "slot < length (sit_records t)"
    and s: "sr_active (sit_records t ! slot)" "sr_service_id (sit_records t ! slot) = s"
    and t': "t' = t\<lparr>sit_records := (sit_records t)[slot := (sit_records t ! slot)\<lparr>sr_active := False\<rparr>]\<rparr>"
    by (auto simp: unregister_Ok position_Some names_service_def)
  have mem: "s \<in> set issued" using inv slot s unfolding id_inv_def by blast
  have other: "sr_service_id (sit_records t ! i) \<noteq> s"
    if "i < length (sit_records t)" "sr_active (sit_records t ! i)" "i \<noteq> slot" for i
    using that inv slot s unfolding id_inv_def by blast
  show ?thesis
    using inv slot mem other unfolding id_inv_def t'
    by (auto simp: nth_list_update)
qed

lemma id_run_inv: "id_run t issued retired \<Longrightarrow> id_inv t issued retired"
  by (induction rule: id_run.induct) (auto intro: id_inv_new id_inv_register id_inv_unregister)

lemma task_for_eq:
  assumes "id_inv t issued retired"
  shows "task_for t s = Some task \<longleftrightarrow>
    (\<exists>i < length (sit_records t). names_service s (sit_records t ! i) \<and> sr_task_id (sit_records t ! i) = task)"
proof
  assume "task_for t s = Some task"
  then show "\<exists>i < length (sit_records t). names_service s (sit_records t ! i) \<and>
      sr_task_id (sit_records t ! i) = task"
    by (auto simp: task_for_def position_Some)
next
  assume "\<exists>i < length (sit_records t). names_service s (sit_records t ! i) \<and>
      sr_task_id (sit_records t ! i) = task"
  then obtain i where i: "i < length (sit_records t)" "names_service s (sit_records t ! i)"
    "sr_task_id (sit_records t ! i) = task" by blast
  have "j = i" if "j < length (sit_records t)" "names_service s (sit_records t ! j)" for j
    using that i assms unfolding id_inv_def names_service_def by blast
  then have "position (names_service s) (sit_records t) = Some i"
    using i by (intro position_unique)
  with i(3) show "task_for t s = Some task" by (simp add: task_for_def)
qed

lemma id_inv_active:
  assumes "id_inv t issued retired" and "r \<in> set (sit_records t)" and "names_service s r"
  shows "s \<in> set issued \<and> s \<notin> retired"
proof -
  obtain i where "i < length (sit_records t)" "sit_records t ! i = r"
    using assms(2) by (auto simp: in_set_conv_nth)
  moreover have "sr_active r" "sr_service_id r = s" using assms(3) by (simp_all add: names_service_def)
  ultimately show ?thesis using assms(1) unfolding id_inv_def by auto
qed

lemma task_for_retired:
  assumes "id_inv t issued retired" and "s \<in> retired \<or> s \<notin> set issued"
  shows "task_for t s = None"
proof -
  have "\<not> names_service s r" if "r \<in> set (sit_records t)" for r
    using id_inv_active [OF assms(1) that] assms(2) by auto
  then show ?thesis by (auto simp: task_for_def position_None)
qed

lemma unregister_keeps_others:
  assumes inv: "id_inv t issued retired" and un: "unregister s t = (Ok u, t')" and "s' \<noteq> s"
  shows "task_for t' s' = task_for t s'"
proof -
  from un obtain slot where slot: "slot < length (sit_records t)" "names_service s (sit_records t ! slot)"
    and t': "t' = t\<lparr>sit_records := (sit_records t)[slot := (sit_records t ! slot)\<lparr>sr_active := False\<rparr>]\<rparr>"
    by (auto simp: unregister_Ok position_Some)
  have "task_for t' s' = Some x \<longleftrightarrow> task_for t s' = Some x" for x
    unfolding task_for_eq [OF inv] task_for_eq [OF id_inv_unregister [OF inv un]]
    using slot assms(3) by (auto simp: t' nth_list_update names_service_def)
  then show ?thesis by (metis option.exhaust)
qed

text \<open>
  The registry that clients of the identity table rely on: registration issues an identity that was
  unknown before and names the task until it is retired, and every other identity stays as it was.
\<close>

locale identity_registry =
  fixes register :: "TaskId \<Rightarrow> ('t, ServiceIdentityError, ServiceId) op"
    and retire :: "ServiceId \<Rightarrow> ('t, ServiceIdentityError, unit) op"
    and lookup :: "'t \<Rightarrow> ServiceId \<Rightarrow> TaskId option"
    and valid :: "'t \<Rightarrow> bool"
  assumes register_valid: "valid t \<Longrightarrow> register task t = (r, t') \<Longrightarrow> valid t'"
    and register_new: "valid t \<Longrightarrow> register task t = (Ok s, t') \<Longrightarrow> lookup t s = None"
    and register_names: "valid t \<Longrightarrow> register task t = (Ok s, t') \<Longrightarrow> lookup t' s = Some task"
    and register_keeps: "valid t \<Longrightarrow> register task t = (Ok s, t') \<Longrightarrow> s' \<noteq> s \<Longrightarrow> lookup t' s' = lookup t s'"
    and register_settled: "register task t = (r, t') \<Longrightarrow> settled r"
    and retire_valid: "valid t \<Longrightarrow> retire s t = (Ok (), t') \<Longrightarrow> valid t'"
    and retire_forgets: "valid t \<Longrightarrow> retire s t = (Ok (), t') \<Longrightarrow> lookup t' s = None"
    and retire_keeps: "valid t \<Longrightarrow> retire s t = (Ok (), t') \<Longrightarrow> s' \<noteq> s \<Longrightarrow> lookup t' s' = lookup t s'"
begin

lemma register_distinct:
  assumes "valid t" and "register task t = (Ok s, t')" and "register task' t' = (Ok s', t'')"
  shows "s \<noteq> s'"
  using register_names [OF assms(1,2)] register_new [OF register_valid [OF assms(1,2)] assms(3)]
  by auto

end

definition identity_valid :: "ServiceIdentityTable \<Rightarrow> bool" where
  "identity_valid t \<longleftrightarrow> (\<exists>issued retired. id_inv t issued retired)"

lemma register_task_Err: "register_task task t = (Err e, t') \<Longrightarrow> t' = t"
  by (auto simp: register_task_def Let_def split: option.splits)

lemma settled_register_task: "register_task task t = (r, t') \<Longrightarrow> settled r"
  by (auto simp: register_task_def Let_def split: option.splits)

lemma register_keeps_others:
  assumes inv: "id_inv t issued retired" and reg: "register_task task t = (Ok s, t')" and "s' \<noteq> s"
  shows "task_for t' s' = task_for t s'"
proof -
  from reg obtain slot n where slot: "slot < length (sit_records t)" "\<not> sr_active (sit_records t ! slot)"
    and t': "t' = t\<lparr>sit_next_id := n, sit_records := (sit_records t)[slot :=
      \<lparr>sr_service_id = s, sr_task_id = task, sr_active = True\<rparr>]\<rparr>"
    by (auto simp: register_task_Ok position_Some)
  have "task_for t' s' = Some x \<longleftrightarrow> task_for t s' = Some x" for x
    unfolding task_for_eq [OF inv] task_for_eq [OF id_inv_register [OF inv reg]]
    using slot assms(3) by (auto simp: t' nth_list_update names_service_def)
  then show ?thesis by (metis option.exhaust)
qed

lemma register_names_task:
  assumes inv: "id_inv t issued retired" and reg: "register_task task t = (Ok s, t')"
  shows "task_for t' s = Some task" and "task_for t s = None"
proof -
  from reg obtain slot n where slot: "slot < length (sit_records t)" and s: "s = sit_next_id t"
    and t': "t' = t\<lparr>sit_next_id := n, sit_records := (sit_records t)[slot :=
      \<lparr>sr_service_id = s, sr_task_id = task, sr_active = True\<rparr>]\<rparr>"
    by (auto simp: register_task_Ok position_Some)
  show "task_for t' s = Some task"
    unfolding task_for_eq [OF id_inv_register [OF inv reg]]
    using slot by (intro exI [of _ slot]) (simp add: t' names_service_def)
  have "s \<notin> set issued" using inv by (auto simp: id_inv_def s)
  with inv show "task_for t s = None" by (intro task_for_retired) auto
qed

interpretation kernel_identities: identity_registry register_task unregister task_for identity_valid
proof
  fix t task r t'
  assume v: "identity_valid t" and reg: "register_task task t = (r, t')"
  obtain issued retired where inv: "id_inv t issued retired"
    using v by (auto simp: identity_valid_def)
  show "identity_valid t'"
  proof (cases r)
    case (Ok s)
    then show ?thesis
      using id_inv_register [OF inv] reg unfolding identity_valid_def by blast
  next
    case (Err e)
    then show ?thesis using register_task_Err reg v by blast
  qed (use settled_register_task [OF reg] in simp_all)
next
  show "task_for t s = None" if "identity_valid t" "register_task task t = (Ok s, t')" for t task s t'
    using that register_names_task(2) unfolding identity_valid_def by blast
  show "task_for t' s = Some task" if "identity_valid t" "register_task task t = (Ok s, t')" for t task s t'
    using that register_names_task(1) unfolding identity_valid_def by blast
  show "task_for t' s' = task_for t s'"
    if "identity_valid t" "register_task task t = (Ok s, t')" "s' \<noteq> s" for t task s t' s'
    using that register_keeps_others unfolding identity_valid_def by blast
  show "settled r" if "register_task task t = (r, t')" for task t r t'
    using that by (rule settled_register_task)
  show "identity_valid t'" if "identity_valid t" "unregister s t = (Ok (), t')" for t s t'
    using that id_inv_unregister unfolding identity_valid_def by blast
  show "task_for t' s = None" if v: "identity_valid t" and un: "unregister s t = (Ok (), t')" for t s t'
  proof -
    obtain issued retired where "id_inv t issued retired" using v by (auto simp: identity_valid_def)
    then have "id_inv t' issued (insert s retired)" using un by (rule id_inv_unregister)
    then show ?thesis by (rule task_for_retired) simp
  qed
  show "task_for t' s' = task_for t s'"
    if "identity_valid t" "unregister s t = (Ok (), t')" "s' \<noteq> s" for t s t' s'
    using that unregister_keeps_others unfolding identity_valid_def by blast
qed

lemma issued_known:
  "id_run t issued retired \<Longrightarrow> s \<in> set issued - retired \<Longrightarrow> task_for t s \<noteq> None"
proof (induction rule: id_run.induct)
  case (id_register t issued retired task s' t')
  have valid: "identity_valid t" using id_run_inv [OF id_register(1)] unfolding identity_valid_def by blast
  show ?case
  proof (cases "s = s'")
    case True
    then show ?thesis using kernel_identities.register_names [OF valid id_register(2)] by simp
  next
    case False
    then show ?thesis using id_register kernel_identities.register_keeps [OF valid id_register(2)] by simp
  qed
next
  case (id_unregister t issued retired s' t')
  have valid: "identity_valid t" using id_run_inv [OF id_unregister(1)] unfolding identity_valid_def by blast
  show ?case using id_unregister kernel_identities.retire_keeps [OF valid id_unregister(2)] by simp
qed simp

text \<open>
  C19. Identities are never reused. In every run of registrations and retirements the issued
  identities are pairwise different, none of them is the invalid identity, and the table knows exactly
  the identities that were issued and not retired.
\<close>

theorem identities_never_reused:
  assumes "id_run t issued retired"
  shows "distinct issued \<and> INVALID_SERVICE_ID \<notin> set issued \<and>
    (\<forall>s. task_for t s \<noteq> None \<longleftrightarrow> s \<in> set issued \<and> s \<notin> retired)"
proof -
  have inv: "id_inv t issued retired" by (rule id_run_inv [OF assms])
  then have "distinct issued" "INVALID_SERVICE_ID \<notin> set issued" by (auto simp: id_inv_def)
  moreover have "task_for t s \<noteq> None \<longleftrightarrow> s \<in> set issued \<and> s \<notin> retired" for s
  proof (cases "s \<in> set issued \<and> s \<notin> retired")
    case True
    then show ?thesis using issued_known [OF assms, of s] by simp
  next
    case False
    then have "task_for t s = None" by (intro task_for_retired [OF inv]) blast
    with False show ?thesis by simp
  qed
  ultimately show ?thesis by blast
qed

text \<open>Two registrations, the first of which is retired.\<close>

lemma demo_identities:
  "\<exists>t. id_run t [2, 1] {1}"
proof -
  let ?r = "\<lparr>sr_service_id = 1, sr_task_id = 7, sr_active = True\<rparr>"
  let ?t1 = "\<lparr>sit_records = (replicate 8 service_record_empty)[0 := ?r], sit_next_id = 2\<rparr>"
  have t1: "register_task 7 identity_new = (Ok 1, ?t1)"
    by (simp add: register_task_def identity_new_def MAX_SERVICES_def service_record_empty_def FIRST_SERVICE_ID_def
        checked_add_word_def)
  have "position (\<lambda>r. \<not> sr_active r) (sit_records ?t1) = Some 1"
    by (simp add: position_Some nth_list_update service_record_empty_def)
  then have t2: "register_task 8 ?t1 = (Ok 2, ?t1\<lparr>sit_records := (sit_records ?t1)[1 :=
      \<lparr>sr_service_id = 2, sr_task_id = 8, sr_active = True\<rparr>], sit_next_id := 3\<rparr>)"
    by (simp add: register_task_def checked_add_word_def)
  let ?t2 = "snd (register_task 8 ?t1)"
  have "position (names_service 1) (sit_records ?t2) = Some 0"
    unfolding t2 by (simp add: position_Some nth_list_update names_service_def)
  then obtain t3 where t3: "unregister 1 ?t2 = (Ok (), t3)" by (auto simp: unregister_def)
  show ?thesis using id_unregister [OF id_register [OF id_register [OF id_start t1] t2] t3 [unfolded t2 snd_conv]] by blast
qed

theorem identities_never_reused_witness:
  "\<exists>t. id_run t [2, 1] {1} \<and> task_for t 2 \<noteq> None \<and> task_for t 1 = None"
  using demo_identities identities_never_reused by fastforce

end
