(* ===== verification/Kernel_Capabilities.thy ===== *)
theory Kernel_Capabilities
  imports Kernel_Identity
begin

text \<open>
  The capability table of \<open>core/src/capabilities.rs\<close>: grants with slot and generation, validation
  of a presented handle, and revocation. The lemmas relate the table to the history of grants and
  revocations and show that validation accepts exactly the grants that were not revoked.
\<close>

section \<open>The table\<close>

datatype CapabilityError =
    CapabilityTableFull | InvalidHandle | CapabilityRevoked | WrongHolder | WrongResource | MissingRights

record CapabilityHandle =
  ch_slot :: u32
  ch_generation :: u32

datatype CapabilityGrant = Created CapabilityHandle | Existing CapabilityHandle

fun grant_handle :: "CapabilityGrant \<Rightarrow> CapabilityHandle" where
  "grant_handle (Created handle) = handle"
| "grant_handle (Existing handle) = handle"

fun is_created :: "CapabilityGrant \<Rightarrow> bool" where
  "is_created (Created _) = True"
| "is_created (Existing _) = False"

type_synonym ResourceId = u64
type_synonym RightsMask = u32

definition RIGHT_READ :: RightsMask where "RIGHT_READ = 1"
definition RIGHT_WRITE :: RightsMask where "RIGHT_WRITE = 2"
definition RIGHT_SEND :: RightsMask where "RIGHT_SEND = 4"
definition RIGHT_LOG :: RightsMask where "RIGHT_LOG = 8"
definition RIGHT_INPUT :: RightsMask where "RIGHT_INPUT = 16"
definition RIGHT_APPEND :: RightsMask where "RIGHT_APPEND = 32"

definition rights_contains :: "RightsMask \<Rightarrow> RightsMask \<Rightarrow> bool" where
  "rights_contains self required \<longleftrightarrow> self AND required = required"

definition CAPABILITY_TABLE_SLOTS :: usize where "CAPABILITY_TABLE_SLOTS = 32"

datatype CapabilityState = Active | Revoked

record CapabilityEntry =
  ce_holder :: ServiceId
  ce_resource :: ResourceId
  ce_rights :: RightsMask
  ce_generation :: u32
  ce_state :: CapabilityState

record CapabilityTable =
  ct_entries :: "CapabilityEntry option list"

definition capability_new :: CapabilityTable where
  "capability_new = \<lparr>ct_entries = replicate CAPABILITY_TABLE_SLOTS None\<rparr>"

definition capability_clear :: "CapabilityTable \<Rightarrow> CapabilityTable" where
  "capability_clear t = t\<lparr>ct_entries := replicate CAPABILITY_TABLE_SLOTS None\<rparr>"

definition same_grant ::
    "ServiceId \<Rightarrow> ResourceId \<Rightarrow> RightsMask \<Rightarrow> CapabilityEntry option \<Rightarrow> bool" where
  "same_grant holder resource rights entry =
     (case entry of
        None \<Rightarrow> False
      | Some e \<Rightarrow> ce_state e = Active \<and> ce_holder e = holder \<and> ce_resource e = resource
                  \<and> ce_rights e = rights)"

definition grant_with_provenance ::
    "ServiceId \<Rightarrow> ResourceId \<Rightarrow> RightsMask \<Rightarrow> (CapabilityTable, CapabilityError, CapabilityGrant) op" where
  "grant_with_provenance holder resource rights t =
     (case position (same_grant holder resource rights) (ct_entries t) of
        Some slot \<Rightarrow>
          (Ok (Existing \<lparr>ch_slot = of_nat slot,
                         ch_generation = ce_generation (the (ct_entries t ! slot))\<rparr>), t)
      | None \<Rightarrow>
          (case position (\<lambda>entry. entry = None) (ct_entries t) of
             None \<Rightarrow> (Err CapabilityTableFull, t)
           | Some slot \<Rightarrow>
               let handle = \<lparr>ch_slot = of_nat slot, ch_generation = 1\<rparr> in
               (Ok (Created handle),
                t\<lparr>ct_entries := (ct_entries t)[slot := Some
                  \<lparr>ce_holder = holder, ce_resource = resource, ce_rights = rights,
                   ce_generation = ch_generation handle, ce_state = Active\<rparr>]\<rparr>)))"

definition grant ::
    "ServiceId \<Rightarrow> ResourceId \<Rightarrow> RightsMask \<Rightarrow> (CapabilityTable, CapabilityError, CapabilityHandle) op" where
  "grant holder resource rights t =
     (case grant_with_provenance holder resource rights t of
        (r, t') \<Rightarrow> (bindR r (\<lambda>g. Ok (grant_handle g)), t'))"

definition entry_at :: "CapabilityTable \<Rightarrow> u32 \<Rightarrow> CapabilityEntry option" where
  "entry_at t slot =
     (if unat slot < length (ct_entries t) then ct_entries t ! unat slot else None)"

definition validate ::
    "CapabilityTable \<Rightarrow> ServiceId \<Rightarrow> CapabilityHandle \<Rightarrow> ResourceId \<Rightarrow> RightsMask \<Rightarrow>
     (CapabilityError, unit) result" where
  "validate t caller handle resource required_rights =
     bindR (ok_or (entry_at t (ch_slot handle)) InvalidHandle) (\<lambda>entry.
     bindR (ensure (\<not> ce_generation entry \<noteq> ch_generation handle) InvalidHandle) (\<lambda>_.
     bindR (ensure (\<not> ce_state entry \<noteq> Active) CapabilityRevoked) (\<lambda>_.
     bindR (ensure (\<not> ce_holder entry \<noteq> caller) WrongHolder) (\<lambda>_.
     bindR (ensure (\<not> ce_resource entry \<noteq> resource) WrongResource) (\<lambda>_.
     ensure (rights_contains (ce_rights entry) required_rights) MissingRights)))))"

definition revoke :: "CapabilityHandle \<Rightarrow> (CapabilityTable, CapabilityError, unit) op" where
  "revoke handle t =
     (case entry_at t (ch_slot handle) of
        None \<Rightarrow> (Err InvalidHandle, t)
      | Some entry \<Rightarrow>
          if ce_generation entry \<noteq> ch_generation handle then (Err InvalidHandle, t)
          else (Ok (), t\<lparr>ct_entries := (ct_entries t)[unat (ch_slot handle) :=
            Some (entry\<lparr>ce_state := Revoked, ce_generation := ce_generation entry + 1\<rparr>)]\<rparr>))"

section \<open>Histories\<close>

text \<open>What a run of the table granted and revoked, latest first.\<close>

datatype cap_event =
    Granted ServiceId ResourceId RightsMask CapabilityHandle
  | Withdrawn CapabilityHandle

inductive cap_run :: "CapabilityTable \<Rightarrow> cap_event list \<Rightarrow> bool" where
  cap_start: "cap_run capability_new []"
| cap_grant: "cap_run t es \<Longrightarrow> grant_with_provenance c r q t = (Ok g, t') \<Longrightarrow>
    cap_run t' (Granted c r q (grant_handle g) # es)"
| cap_revoke: "cap_run t es \<Longrightarrow> revoke h t = (Ok (), t') \<Longrightarrow> cap_run t' (Withdrawn h # es)"

text \<open>Every slot tells the history of the one grant that was ever made in it.\<close>

definition first_handle :: "nat \<Rightarrow> CapabilityHandle" where
  "first_handle i = \<lparr>ch_slot = of_nat i, ch_generation = 1\<rparr>"

definition slot_history :: "cap_event list \<Rightarrow> nat \<Rightarrow> CapabilityEntry option \<Rightarrow> bool" where
  "slot_history es i entry =
     (case entry of
        None \<Rightarrow> (\<forall>c r q. Granted c r q (first_handle i) \<notin> set es) \<and> Withdrawn (first_handle i) \<notin> set es
      | Some e \<Rightarrow>
          (\<forall>c r q. Granted c r q (first_handle i) \<in> set es \<longleftrightarrow>
             c = ce_holder e \<and> r = ce_resource e \<and> q = ce_rights e) \<and>
          (ce_state e = Active \<longleftrightarrow> Withdrawn (first_handle i) \<notin> set es) \<and>
          (ce_state e = Active \<longrightarrow> ce_generation e = 1))"

definition cap_inv :: "CapabilityTable \<Rightarrow> cap_event list \<Rightarrow> bool" where
  "cap_inv t es \<longleftrightarrow>
     length (ct_entries t) = CAPABILITY_TABLE_SLOTS \<and>
     (\<forall>c r q h. Granted c r q h \<in> set es \<longrightarrow> (\<exists>i < CAPABILITY_TABLE_SLOTS. h = first_handle i)) \<and>
     (\<forall>i < CAPABILITY_TABLE_SLOTS. slot_history es i (ct_entries t ! i))"

lemma first_handle_eq:
  assumes "i < CAPABILITY_TABLE_SLOTS"
  shows "unat (ch_slot (first_handle i)) = i"
    and "j < CAPABILITY_TABLE_SLOTS \<Longrightarrow> first_handle i = first_handle j \<longleftrightarrow> i = j"
proof -
  have u: "unat (of_nat k :: u32) = k" if "k < CAPABILITY_TABLE_SLOTS" for k
    using that by (simp add: CAPABILITY_TABLE_SLOTS_def unat_of_nat)
  have slot: "unat (ch_slot (first_handle k)) = k" if "k < CAPABILITY_TABLE_SLOTS" for k
    using u [OF that] by (simp add: first_handle_def)
  show "unat (ch_slot (first_handle i)) = i" by (rule slot [OF assms])
  show "first_handle i = first_handle j \<longleftrightarrow> i = j" if "j < CAPABILITY_TABLE_SLOTS"
  proof
    assume "first_handle i = first_handle j"
    then have "unat (ch_slot (first_handle i)) = unat (ch_slot (first_handle j))" by simp
    then show "i = j" by (simp only: slot [OF assms] slot [OF that])
  qed simp
qed

lemma cap_inv_new: "cap_inv capability_new []"
  by (simp add: cap_inv_def capability_new_def slot_history_def)

lemma slot_history_other:
  assumes "slot_history es i entry" and "h \<noteq> first_handle i"
  shows "slot_history (Granted c r q h # es) i entry" and "slot_history (Withdrawn h # es) i entry"
  using assms by (auto simp: slot_history_def split: option.splits)

lemma grant_cases:
  assumes "grant_with_provenance c r q t = (Ok g, t')"
  obtains (old) i e where "i < length (ct_entries t)" "ct_entries t ! i = Some e" "ce_state e = Active"
      "ce_holder e = c" "ce_resource e = r" "ce_rights e = q" "t' = t"
      "g = Existing \<lparr>ch_slot = of_nat i, ch_generation = ce_generation e\<rparr>"
    | (new) i where "i < length (ct_entries t)" "ct_entries t ! i = None" "g = Created (first_handle i)"
      "t' = t\<lparr>ct_entries := (ct_entries t)[i := Some \<lparr>ce_holder = c, ce_resource = r, ce_rights = q,
         ce_generation = 1, ce_state = Active\<rparr>]\<rparr>"
proof (cases "position (same_grant c r q) (ct_entries t)")
  case (Some i)
  then have "i < length (ct_entries t)" "same_grant c r q (ct_entries t ! i)" by (simp_all add: position_Some)
  then obtain e where e: "ct_entries t ! i = Some e" "ce_state e = Active" "ce_holder e = c"
    "ce_resource e = r" "ce_rights e = q"
    by (auto simp: same_grant_def split: option.splits)
  have "t' = t" "g = Existing \<lparr>ch_slot = of_nat i, ch_generation = ce_generation e\<rparr>"
    using assms Some e(1) by (simp_all add: grant_with_provenance_def)
  then show thesis by (rule old [OF \<open>i < length (ct_entries t)\<close> e])
next
  case None
  then obtain i where p: "position (\<lambda>e. e = None) (ct_entries t) = Some i"
    using assms by (auto simp: grant_with_provenance_def split: option.splits)
  then have "i < length (ct_entries t)" "ct_entries t ! i = None" by (simp_all add: position_Some)
  moreover have "g = Created (first_handle i)"
    "t' = t\<lparr>ct_entries := (ct_entries t)[i := Some \<lparr>ce_holder = c, ce_resource = r, ce_rights = q,
       ce_generation = 1, ce_state = Active\<rparr>]\<rparr>"
    using assms None p by (simp_all add: grant_with_provenance_def first_handle_def Let_def)
  ultimately show thesis by (rule new)
qed

lemma cap_invD:
  assumes "cap_inv t es" and "i < length (ct_entries t)"
  shows "i < CAPABILITY_TABLE_SLOTS" and "slot_history es i (ct_entries t ! i)"
  using assms by (simp_all add: cap_inv_def)

lemma slot_history_set: "set es' = set es \<Longrightarrow> slot_history es' i entry = slot_history es i entry"
  by (cases entry) (simp_all add: slot_history_def)

lemma cap_inv_same_events:
  assumes "cap_inv t es" "set es' = set es"
  shows "cap_inv t es'"
  using assms(1) unfolding cap_inv_def slot_history_set [OF assms(2)] assms(2) .

lemma cap_inv_grant:
  assumes inv: "cap_inv t es" and grant: "grant_with_provenance c r q t = (Ok g, t')"
  shows "cap_inv t' (Granted c r q (grant_handle g) # es)"
  using grant
proof (cases rule: grant_cases)
  case (old i e)
  note i = cap_invD [OF inv old(1)]
  have "ce_generation e = 1" using i(2) old by (simp add: slot_history_def)
  then have h: "grant_handle g = first_handle i" by (simp add: old first_handle_def)
  have "Granted c r q (first_handle i) \<in> set es" using i(2) old by (simp add: slot_history_def)
  then have "set (Granted c r q (first_handle i) # es) = set es" by auto
  then show ?thesis unfolding h old(7) by (rule cap_inv_same_events [OF inv])
next
  case (new i)
  note i = cap_invD [OF inv new(1)]
  have "slot_history (Granted c r q (first_handle i) # es) k (ct_entries t' ! k)"
    if k: "k < CAPABILITY_TABLE_SLOTS" for k
  proof (cases "k = i")
    case True
    then show ?thesis using i new by (auto simp: slot_history_def)
  next
    case False
    then have "first_handle i \<noteq> first_handle k" using first_handle_eq(2) i(1) k by blast
    then show ?thesis
      using False inv k slot_history_other(1) by (simp add: cap_inv_def new)
  qed
  moreover have "\<exists>k < CAPABILITY_TABLE_SLOTS. h = first_handle k"
    if "Granted c' r' q' h \<in> set (Granted c r q (first_handle i) # es)" for c' r' q' h
    using that inv i(1) unfolding cap_inv_def by auto
  moreover have "length (ct_entries t') = CAPABILITY_TABLE_SLOTS" using inv by (simp add: cap_inv_def new)
  ultimately show ?thesis unfolding cap_inv_def new(3) grant_handle.simps by blast
qed

lemma revoke_Ok:
  "revoke h t = (Ok u, t') \<longleftrightarrow>
     (\<exists>e. unat (ch_slot h) < length (ct_entries t) \<and> ct_entries t ! unat (ch_slot h) = Some e \<and>
        ce_generation e = ch_generation h \<and>
        t' = t\<lparr>ct_entries := (ct_entries t)[unat (ch_slot h) :=
          Some (e\<lparr>ce_state := Revoked, ce_generation := ce_generation e + 1\<rparr>)]\<rparr>)"
  by (auto simp: revoke_def entry_at_def split: option.splits if_splits)

lemma handle_at_slot:
  assumes "unat (ch_slot h) = i"
  shows "h = first_handle i \<longleftrightarrow> ch_generation h = 1"
proof -
  have "ch_slot h = of_nat i" using assms by auto
  then show ?thesis by (cases h) (simp add: first_handle_def)
qed

lemma cap_inv_revoke:
  assumes inv: "cap_inv t es" and rev: "revoke h t = (Ok u, t')"
  shows "cap_inv t' (Withdrawn h # es)"
proof -
  let ?i = "unat (ch_slot h)"
  obtain e where i: "?i < length (ct_entries t)" and e: "ct_entries t ! ?i = Some e"
    and g: "ce_generation e = ch_generation h"
    and t': "t' = t\<lparr>ct_entries := (ct_entries t)[?i :=
      Some (e\<lparr>ce_state := Revoked, ce_generation := ce_generation e + 1\<rparr>)]\<rparr>"
    using rev by (auto simp: revoke_Ok)
  note old = cap_invD [OF inv i]
  have here: "slot_history (Withdrawn h # es) ?i (Some (e\<lparr>ce_state := Revoked,
      ce_generation := ce_generation e + 1\<rparr>))"
  proof (cases "ce_state e")
    case Active
    then have "h = first_handle ?i" using old(2) e g handle_at_slot by (simp add: slot_history_def)
    then show ?thesis using old(2) e by (simp add: slot_history_def)
  next
    case Revoked
    then have "Withdrawn (first_handle ?i) \<in> set es" using old(2) e by (simp add: slot_history_def)
    then show ?thesis using old(2) e Revoked by (simp add: slot_history_def)
  qed
  have "slot_history (Withdrawn h # es) k (ct_entries t' ! k)" if k: "k < CAPABILITY_TABLE_SLOTS" for k
  proof (cases "k = ?i")
    case True
    then show ?thesis using here i by (simp add: t')
  next
    case False
    then have "h \<noteq> first_handle k" using first_handle_eq(1) [OF k] by auto
    then show ?thesis using False inv k slot_history_other(2) by (simp add: cap_inv_def t')
  qed
  then show ?thesis using inv unfolding cap_inv_def by (simp add: t')
qed

lemma cap_run_inv: "cap_run t es \<Longrightarrow> cap_inv t es"
  by (induction rule: cap_run.induct) (auto intro: cap_inv_new cap_inv_grant cap_inv_revoke)

section \<open>What validation decides\<close>

lemma validate_Ok:
  "validate t c h r q = Ok () \<longleftrightarrow>
     (\<exists>e. entry_at t (ch_slot h) = Some e \<and> ce_generation e = ch_generation h \<and> ce_state e = Active \<and>
        ce_holder e = c \<and> ce_resource e = r \<and> rights_contains (ce_rights e) q)"
  by (auto simp: validate_def)

lemma settled_validate [simp]: "settled (validate t c h r q)"
  unfolding validate_def by (intro settled_intros)

lemma validate_history:
  assumes inv: "cap_inv t es"
  shows "validate t c h r q = Ok () \<longleftrightarrow>
    (\<exists>q'. Granted c r q' h \<in> set es \<and> Withdrawn h \<notin> set es \<and> rights_contains q' q)"
proof
  assume "validate t c h r q = Ok ()"
  then obtain e where i: "unat (ch_slot h) < length (ct_entries t)"
    and e: "ct_entries t ! unat (ch_slot h) = Some e" "ce_generation e = ch_generation h"
      "ce_state e = Active" "ce_holder e = c" "ce_resource e = r" "rights_contains (ce_rights e) q"
    by (auto simp: validate_Ok entry_at_def split: if_splits)
  note hist = cap_invD(2) [OF inv i]
  have "h = first_handle (unat (ch_slot h))"
    using hist e handle_at_slot [OF refl] by (simp add: slot_history_def)
  then show "\<exists>q'. Granted c r q' h \<in> set es \<and> Withdrawn h \<notin> set es \<and> rights_contains q' q"
    using hist e by (auto simp: slot_history_def)
next
  assume "\<exists>q'. Granted c r q' h \<in> set es \<and> Withdrawn h \<notin> set es \<and> rights_contains q' q"
  then obtain q' where g: "Granted c r q' h \<in> set es" and w: "Withdrawn h \<notin> set es"
    and q: "rights_contains q' q" by blast
  obtain i where i: "i < CAPABILITY_TABLE_SLOTS" and h: "h = first_handle i"
    using inv g unfolding cap_inv_def by blast
  have len: "length (ct_entries t) = CAPABILITY_TABLE_SLOTS" and hist: "slot_history es i (ct_entries t ! i)"
    using inv i by (simp_all add: cap_inv_def)
  from hist g obtain e where e: "ct_entries t ! i = Some e" by (auto simp: slot_history_def h split: option.splits)
  have "entry_at t (ch_slot h) = Some e"
    using i len e first_handle_eq(1) [OF i] by (simp add: entry_at_def h)
  moreover have "ce_state e = Active" "ce_holder e = c" "ce_resource e = r" "ce_rights e = q'"
    using hist e g w by (auto simp: slot_history_def h)
  moreover have "ce_generation e = ch_generation h"
    using hist e calculation(2) by (simp add: slot_history_def h first_handle_def)
  ultimately show "validate t c h r q = Ok ()" using q by (auto simp: validate_Ok)
qed

section \<open>The contract of the table\<close>

text \<open>
  What the clients of a capability table rely on: a history of grants and withdrawals that every
  grant extends by a live grant, and a check that accepts exactly the live grants of the history.
\<close>

locale authority =
  fixes history :: "'t \<Rightarrow> cap_event list \<Rightarrow> bool"
    and issue :: "ServiceId \<Rightarrow> ResourceId \<Rightarrow> RightsMask \<Rightarrow> ('t, CapabilityError, CapabilityHandle) op"
    and withdraw :: "CapabilityHandle \<Rightarrow> ('t, CapabilityError, unit) op"
    and permits :: "'t \<Rightarrow> ServiceId \<Rightarrow> CapabilityHandle \<Rightarrow> ResourceId \<Rightarrow> RightsMask \<Rightarrow> (CapabilityError, unit) result"
  assumes issue_history: "history t es \<Longrightarrow> issue c r q t = (Ok h, t') \<Longrightarrow>
      history t' (Granted c r q h # es) \<and> Withdrawn h \<notin> set es"
    and issue_denied: "issue c r q t = (Err e, t') \<Longrightarrow> t' = t"
    and issue_settled: "settled (fst (issue c r q t))"
    and withdraw_history: "history t es \<Longrightarrow> withdraw h t = (Ok (), t') \<Longrightarrow> history t' (Withdrawn h # es)"
    and permits_history: "history t es \<Longrightarrow> permits t c h r q = Ok () \<longleftrightarrow>
      (\<exists>q'. Granted c r q' h \<in> set es \<and> Withdrawn h \<notin> set es \<and> rights_contains q' q)"
    and one_grant: "history t es \<Longrightarrow> Granted c r q h \<in> set es \<Longrightarrow> Granted c' r' q' h \<in> set es \<Longrightarrow>
      c' = c \<and> r' = r \<and> q' = q"
    and permits_fails: "history t es \<Longrightarrow> Granted c r q' h \<in> set es \<Longrightarrow> Withdrawn h \<notin> set es \<Longrightarrow>
      \<not> rights_contains q' q \<Longrightarrow> permits t c h r q = Err MissingRights"
begin

lemma issue_permits:
  assumes "history t es" and "issue c r q t = (Ok h, t')" and "rights_contains q q'"
  shows "permits t' c h r q' = Ok ()"
proof -
  have "history t' (Granted c r q h # es)" "Withdrawn h \<notin> set es"
    using issue_history [OF assms(1,2)] by simp_all
  then show ?thesis using assms(3) by (auto simp: permits_history)
qed

lemma issue_keeps_permits:
  assumes "history t es" and "issue c r q t = (Ok h, t')" and "permits t c' h' r' q' = Ok ()"
  shows "permits t' c' h' r' q' = Ok ()"
proof -
  have "history t' (Granted c r q h # es)" "Withdrawn h \<notin> set es"
    using issue_history [OF assms(1,2)] by simp_all
  then show ?thesis using assms(1,3) by (auto simp: permits_history)
qed

lemma withdraw_final:
  assumes "history t es" and "Withdrawn h \<in> set es"
  shows "permits t c h r q \<noteq> Ok ()"
  using assms by (simp add: permits_history)

end

lemma grant_Ok: "grant c r q t = (Ok h, t') \<longleftrightarrow>
    (\<exists>g. grant_with_provenance c r q t = (Ok g, t') \<and> h = grant_handle g)"
  by (auto simp: grant_def split: prod.splits)

lemma grant_full: "grant_with_provenance c r q t = (Err e, t') \<Longrightarrow> t' = t \<and> e = CapabilityTableFull"
  by (auto simp: grant_with_provenance_def Let_def split: option.splits)

lemma settled_grant: "settled (fst (grant_with_provenance c r q t))"
  by (simp add: grant_with_provenance_def Let_def split: option.splits)

lemma grant_not_withdrawn:
  assumes inv: "cap_inv t es" and grant: "grant_with_provenance c r q t = (Ok g, t')"
  shows "Withdrawn (grant_handle g) \<notin> set es"
  using grant
proof (cases rule: grant_cases)
  case (old i e)
  have "ce_generation e = 1" "Withdrawn (first_handle i) \<notin> set es"
    using cap_invD(2) [OF inv old(1)] old by (simp_all add: slot_history_def)
  then show ?thesis by (simp add: old first_handle_def)
next
  case (new i)
  then show ?thesis using cap_invD(2) [OF inv new(1)] by (simp add: slot_history_def)
qed

lemma granted_slot:
  assumes inv: "cap_inv t es" and "Granted c r q h \<in> set es"
  obtains i e where "i < CAPABILITY_TABLE_SLOTS" "h = first_handle i" "ct_entries t ! i = Some e"
    "ce_holder e = c" "ce_resource e = r" "ce_rights e = q"
    "ce_state e = Active \<longleftrightarrow> Withdrawn h \<notin> set es" "ce_state e = Active \<longrightarrow> ce_generation e = 1"
    "length (ct_entries t) = CAPABILITY_TABLE_SLOTS"
proof -
  obtain i where i: "i < CAPABILITY_TABLE_SLOTS" and h: "h = first_handle i"
    using assms unfolding cap_inv_def by blast
  have len: "length (ct_entries t) = CAPABILITY_TABLE_SLOTS" using inv by (simp add: cap_inv_def)
  have hist: "slot_history es i (ct_entries t ! i)" using inv i by (simp add: cap_inv_def)
  then obtain e where e: "ct_entries t ! i = Some e"
    using assms(2) by (auto simp: slot_history_def h split: option.splits)
  show thesis
    by (rule that [OF i h e _ _ _ _ _ len]) (use hist e assms(2) in \<open>simp_all add: slot_history_def h\<close>)
qed

lemma validate_missing_rights:
  assumes inv: "cap_inv t es" and g: "Granted c r q' h \<in> set es" and "Withdrawn h \<notin> set es"
    and "\<not> rights_contains q' q"
  shows "validate t c h r q = Err MissingRights"
proof -
  obtain i e where i: "i < CAPABILITY_TABLE_SLOTS" "h = first_handle i" "ct_entries t ! i = Some e"
    and e: "ce_holder e = c" "ce_resource e = r" "ce_rights e = q'"
      "ce_state e = Active \<longleftrightarrow> Withdrawn h \<notin> set es" "ce_state e = Active \<longrightarrow> ce_generation e = 1"
      "length (ct_entries t) = CAPABILITY_TABLE_SLOTS"
    by (rule granted_slot [OF inv g])
  have "entry_at t (ch_slot h) = Some e"
    using i e first_handle_eq(1) [OF i(1)] by (simp add: entry_at_def)
  moreover have "ch_generation h = 1" by (simp add: i first_handle_def)
  ultimately show ?thesis using e assms(3,4) by (simp add: validate_def)
qed

interpretation kernel_capabilities: authority cap_inv grant revoke validate
proof
  show "cap_inv t' (Granted c r q h # es) \<and> Withdrawn h \<notin> set es"
    if "cap_inv t es" "grant c r q t = (Ok h, t')" for t es c r q h t'
    using that cap_inv_grant grant_not_withdrawn unfolding grant_Ok by blast
  show "t' = t" if "grant c r q t = (Err e, t')" for c r q t e t'
    using that grant_full by (fastforce simp: grant_def bindR_eq_Err split: prod.splits)
  show "settled (fst (grant c r q t))" for c r q t
    using settled_grant [of c r q t]
    by (cases "fst (grant_with_provenance c r q t)") (auto simp: grant_def split: prod.splits)
  show "cap_inv t' (Withdrawn h # es)" if "cap_inv t es" "revoke h t = (Ok (), t')" for t es h t'
    using that by (rule cap_inv_revoke)
  show "validate t c h r q = Ok () \<longleftrightarrow>
      (\<exists>q'. Granted c r q' h \<in> set es \<and> Withdrawn h \<notin> set es \<and> rights_contains q' q)"
    if "cap_inv t es" for t es c h r q
    using that by (rule validate_history)
  show "c' = c \<and> r' = r \<and> q' = q"
    if inv: "cap_inv t es" and g: "Granted c r q h \<in> set es" and g': "Granted c' r' q' h \<in> set es"
    for t es c r q h c' r' q'
  proof -
    obtain i e where i: "i < CAPABILITY_TABLE_SLOTS" "h = first_handle i" "ct_entries t ! i = Some e"
      and e: "ce_holder e = c" "ce_resource e = r" "ce_rights e = q"
      by (rule granted_slot [OF inv g])
    have "slot_history es i (Some e)" using inv i by (auto simp: cap_inv_def)
    then show ?thesis using g' e i(2) by (simp add: slot_history_def)
  qed
  show "validate t c h r q = Err MissingRights"
    if "cap_inv t es" "Granted c r q' h \<in> set es" "Withdrawn h \<notin> set es" "\<not> rights_contains q' q"
    for t es c r q' h q
    using that by (rule validate_missing_rights)
qed

section \<open>Properties\<close>

definition granted_handles :: "cap_event list \<Rightarrow> CapabilityHandle set" where
  "granted_handles es = {h. \<exists>c r q. Granted c r q h \<in> set es}"

lemma granted_handles_slots:
  assumes inv: "cap_inv t es"
  shows "granted_handles es = first_handle ` {i. i < CAPABILITY_TABLE_SLOTS \<and> ct_entries t ! i \<noteq> None}"
proof (intro equalityI subsetI)
  fix h
  assume "h \<in> granted_handles es"
  then obtain c r q where g: "Granted c r q h \<in> set es" by (auto simp: granted_handles_def)
  obtain i e where "i < CAPABILITY_TABLE_SLOTS" "h = first_handle i" "ct_entries t ! i = Some e"
    by (rule granted_slot [OF inv g])
  then show "h \<in> first_handle ` {i. i < CAPABILITY_TABLE_SLOTS \<and> ct_entries t ! i \<noteq> None}" by auto
next
  fix h
  assume "h \<in> first_handle ` {i. i < CAPABILITY_TABLE_SLOTS \<and> ct_entries t ! i \<noteq> None}"
  then obtain i e where i: "i < CAPABILITY_TABLE_SLOTS" "h = first_handle i" "ct_entries t ! i = Some e" by auto
  then have "slot_history es i (Some e)" using inv by (auto simp: cap_inv_def)
  then show "h \<in> granted_handles es" using i by (auto simp: slot_history_def granted_handles_def)
qed

lemma card_granted_handles:
  assumes inv: "cap_inv t es"
  shows "card (granted_handles es) = card {i. i < CAPABILITY_TABLE_SLOTS \<and> ct_entries t ! i \<noteq> None}"
  unfolding granted_handles_slots [OF inv]
  by (rule card_image) (auto simp: inj_on_def first_handle_eq(2))

text \<open>
  C17. The lifetime of a capability. In every run of grants and revocations, validation of a presented
  handle succeeds exactly when that handle was granted to the caller on the resource, with rights
  that contain the required ones, and was never revoked.
\<close>

theorem capability_lifetime:
  assumes "cap_run t es"
  shows "validate t c h r q = Ok () \<longleftrightarrow>
    (\<exists>q'. Granted c r q' h \<in> set es \<and> Withdrawn h \<notin> set es \<and> rights_contains q' q)"
  by (rule validate_history [OF cap_run_inv [OF assms]])

text \<open>A grant of read and write on resource 5 to service 1, and its revocation.\<close>

definition demo_entry :: CapabilityEntry where
  "demo_entry = \<lparr>ce_holder = 1, ce_resource = 5, ce_rights = 3, ce_generation = 1, ce_state = Active\<rparr>"

definition demo_table :: CapabilityTable where
  "demo_table = \<lparr>ct_entries = (replicate 32 None)[0 := Some demo_entry]\<rparr>"

definition demo_table_revoked :: CapabilityTable where
  "demo_table_revoked = snd (revoke (first_handle 0) demo_table)"

lemma demo_granted: "cap_run demo_table [Granted 1 5 3 (first_handle 0)]"
proof -
  have "grant_with_provenance 1 5 3 capability_new = (Ok (Created (first_handle 0)), demo_table)"
    by (simp add: grant_with_provenance_def capability_new_def CAPABILITY_TABLE_SLOTS_def same_grant_def
        first_handle_def demo_table_def demo_entry_def)
  then show ?thesis using cap_grant [OF cap_start] by fastforce
qed

lemma demo_revoked: "cap_run demo_table_revoked [Withdrawn (first_handle 0), Granted 1 5 3 (first_handle 0)]"
proof -
  have "revoke (first_handle 0) demo_table = (Ok (), demo_table_revoked)"
    by (simp add: revoke_def entry_at_def first_handle_def demo_table_def demo_entry_def demo_table_revoked_def)
  then show ?thesis by (rule cap_revoke [OF demo_granted])
qed

theorem capability_lifetime_witness:
  "validate demo_table 1 (first_handle 0) 5 1 = Ok () \<and> validate demo_table 2 (first_handle 0) 5 1 \<noteq> Ok () \<and>
   validate demo_table_revoked 1 (first_handle 0) 5 1 \<noteq> Ok ()"
  using capability_lifetime [OF demo_granted] capability_lifetime [OF demo_revoked]
  by (simp add: rights_contains_def)

text \<open>
  C18. Slots are never returned. A run issues at most as many handles as the table has slots, also when
  handles are revoked; once that many were issued, a request returns a capability that exists already
  or is refused, and the table stays as it is.
\<close>

theorem capability_slots_never_reused:
  assumes run: "cap_run t es"
  shows "card (granted_handles es) \<le> CAPABILITY_TABLE_SLOTS \<and>
    (card (granted_handles es) = CAPABILITY_TABLE_SLOTS \<longrightarrow>
       grant_with_provenance c r q t = (Err CapabilityTableFull, t) \<or>
       (\<exists>h. grant_with_provenance c r q t = (Ok (Existing h), t)))"
proof (intro conjI impI)
  have inv: "cap_inv t es" by (rule cap_run_inv [OF run])
  let ?used = "{i. i < CAPABILITY_TABLE_SLOTS \<and> ct_entries t ! i \<noteq> None}"
  have sub: "?used \<subseteq> {..<CAPABILITY_TABLE_SLOTS}" by auto
  have card: "card (granted_handles es) = card ?used" by (rule card_granted_handles [OF inv])
  show "card (granted_handles es) \<le> CAPABILITY_TABLE_SLOTS"
    using card_mono [OF _ sub] by (simp add: card)
  assume "card (granted_handles es) = CAPABILITY_TABLE_SLOTS"
  then have "?used = {..<CAPABILITY_TABLE_SLOTS}" using card_subset_eq [OF _ sub] by (simp add: card)
  then have "ct_entries t ! i \<noteq> None" if "i < length (ct_entries t)" for i
    using that inv by (auto simp: cap_inv_def)
  then have "position (\<lambda>entry. entry = None) (ct_entries t) = None"
    by (auto simp: position_None in_set_conv_nth)
  then show "grant_with_provenance c r q t = (Err CapabilityTableFull, t) \<or>
      (\<exists>h. grant_with_provenance c r q t = (Ok (Existing h), t))"
    by (cases "position (same_grant c r q) (ct_entries t)") (simp_all add: grant_with_provenance_def)
qed

theorem capability_slots_never_reused_witness:
  "card (granted_handles [Withdrawn (first_handle 0), Granted 1 5 3 (first_handle 0)]) \<le> CAPABILITY_TABLE_SLOTS"
  using capability_slots_never_reused [OF demo_revoked] by simp

end
