(* ===== verification/Kernel_Processes.thy ===== *)
theory Kernel_Processes
  imports Kernel_Capabilities
begin

text \<open>
  Dynamically created processes, \<open>core/src/dynamic_capabilities.rs\<close>: a process is registered with
  the identity table, receives the grants its creator names, and uses them through the capability
  table. The lemmas follow the three tables through a run and show that a process holds no authority
  its creator did not name.
\<close>

section \<open>Processes and their creation\<close>

definition MAX_DYNAMIC_PROCESSES :: usize where "MAX_DYNAMIC_PROCESSES = 4"
definition MAX_PROCESS_CAPABILITIES :: usize where "MAX_PROCESS_CAPABILITIES = 4"

datatype DynamicCapabilityError =
    ProcessTableFull | DuplicateTask | ProcessIdExhausted | CapabilityInventoryFull
  | ServiceIdentity ServiceIdentityError | Capability CapabilityError | NoGrant | ProofFailed

record InitialGrant =
  ig_resource :: ResourceId
  ig_rights :: RightsMask

record CreatorGrantPolicy =
  cgp_grants :: "InitialGrant option list"
  cgp_grant_count :: usize

definition policy_empty :: CreatorGrantPolicy where
  "policy_empty = \<lparr>cgp_grants = replicate MAX_PROCESS_CAPABILITIES None, cgp_grant_count = 0\<rparr>"

definition policy_single :: "InitialGrant \<Rightarrow> CreatorGrantPolicy" where
  "policy_single g =
     \<lparr>cgp_grants = (cgp_grants policy_empty)[0 := Some g], cgp_grant_count = 1\<rparr>"

record ProcessCapability =
  pc_handle :: CapabilityHandle
  pc_resource :: ResourceId
  pc_rights :: RightsMask

record DynamicProcess =
  dp_id :: u64
  dp_task_id :: TaskId
  dp_service_id :: ServiceId
  dp_capabilities :: "ProcessCapability option list"
  dp_capability_count :: usize

definition process_new :: "u64 \<Rightarrow> TaskId \<Rightarrow> ServiceId \<Rightarrow> DynamicProcess" where
  "process_new pid task_id service_id =
     \<lparr>dp_id = pid, dp_task_id = task_id, dp_service_id = service_id,
      dp_capabilities = replicate MAX_PROCESS_CAPABILITIES None, dp_capability_count = 0\<rparr>"

text \<open>The scan of \<open>use_capability\<close>, from slot \<open>index\<close> with the flag \<open>saw_resource\<close>.\<close>

function use_from ::
    "DynamicProcess \<Rightarrow> CapabilityTable \<Rightarrow> ResourceId \<Rightarrow> RightsMask \<Rightarrow> bool \<Rightarrow> usize \<Rightarrow>
     (DynamicCapabilityError, CapabilityHandle) result" where
  "use_from p table resource required_rights saw_resource index =
     (if index < dp_capability_count p then
        (if index < length (dp_capabilities p) then
           (case dp_capabilities p ! index of
              None \<Rightarrow> use_from p table resource required_rights saw_resource (index + 1)
            | Some pc \<Rightarrow>
                if pc_resource pc = resource then
                  (case validate table (dp_service_id p) (pc_handle pc) resource required_rights of
                     Ok _ \<Rightarrow> Ok (pc_handle pc)
                   | Err MissingRights \<Rightarrow> use_from p table resource required_rights True (index + 1)
                   | Err error \<Rightarrow> Err (Capability error)
                   | Panic \<Rightarrow> Panic
                   | Diverge \<Rightarrow> Diverge)
                else use_from p table resource required_rights saw_resource (index + 1))
         else Panic)
      else if saw_resource then Err (Capability MissingRights) else Err NoGrant)"
  by pat_completeness auto
termination
  by (relation "measure (\<lambda>(p, _, _, _, _, index). dp_capability_count p - index)") auto

declare use_from.simps [simp del]

definition use_capability ::
    "DynamicProcess \<Rightarrow> CapabilityTable \<Rightarrow> ResourceId \<Rightarrow> RightsMask \<Rightarrow>
     (DynamicCapabilityError, CapabilityHandle) result" where
  "use_capability p table resource required_rights = use_from p table resource required_rights False 0"

definition add_initial_grant ::
    "InitialGrant \<Rightarrow> DynamicProcess \<Rightarrow> (CapabilityTable, DynamicCapabilityError, DynamicProcess) op" where
  "add_initial_grant g p =
     bindS (readS (\<lambda>_. ensure (\<not> MAX_PROCESS_CAPABILITIES \<le> dp_capability_count p) CapabilityInventoryFull)) (\<lambda>_.
     bindS (onS (\<lambda>t. t) (\<lambda>f. f) Capability (grant (dp_service_id p) (ig_resource g) (ig_rights g))) (\<lambda>handle.
     readS (\<lambda>_. Ok (p\<lparr>dp_capabilities := (dp_capabilities p)[dp_capability_count p := Some
         \<lparr>pc_handle = handle, pc_resource = ig_resource g, pc_rights = ig_rights g\<rparr>],
       dp_capability_count := dp_capability_count p + 1\<rparr>))))"

text \<open>The grant loop of \<open>spawn\<close>.\<close>

function add_grants ::
    "CreatorGrantPolicy \<Rightarrow> usize \<Rightarrow> DynamicProcess \<Rightarrow> (CapabilityTable, DynamicCapabilityError, DynamicProcess) op" where
  "add_grants policy grant_index p t =
     (if grant_index < cgp_grant_count policy then
        (if grant_index < length (cgp_grants policy) then
           (case cgp_grants policy ! grant_index of
              None \<Rightarrow> (Err NoGrant, t)
            | Some g \<Rightarrow>
                (case add_initial_grant g p t of
                   (Ok p', t') \<Rightarrow> add_grants policy (grant_index + 1) p' t'
                 | (Err e, t') \<Rightarrow> (Err e, t')
                 | (Panic, t') \<Rightarrow> (Panic, t')
                 | (Diverge, t') \<Rightarrow> (Diverge, t')))
         else (Panic, t))
      else (Ok p, t))"
  by pat_completeness auto
termination
  by (relation "measure (\<lambda>(policy, grant_index, _, _). cgp_grant_count policy - grant_index)") auto

declare add_grants.simps [simp del]

record DynamicProcessTable =
  dpt_processes :: "DynamicProcess option list"
  dpt_next_id :: u64

definition processes_new :: DynamicProcessTable where
  "processes_new = \<lparr>dpt_processes = replicate MAX_DYNAMIC_PROCESSES None, dpt_next_id = 1\<rparr>"

text \<open>The three tables \<open>spawn\<close> works on.\<close>

record kernel_tables =
  kt_identities :: ServiceIdentityTable
  kt_capabilities :: CapabilityTable
  kt_processes :: DynamicProcessTable

definition has_task :: "TaskId \<Rightarrow> DynamicProcess option \<Rightarrow> bool" where
  "has_task task_id entry = (case entry of None \<Rightarrow> False | Some p \<Rightarrow> dp_task_id p = task_id)"

definition take_process_id :: "(DynamicProcessTable, DynamicCapabilityError, u64) op" where
  "take_process_id t =
     (case checked_add_word (dpt_next_id t) 1 of
        None \<Rightarrow> (Err ProcessIdExhausted, t)
      | Some n \<Rightarrow> (Ok (dpt_next_id t), t\<lparr>dpt_next_id := n\<rparr>))"

definition spawn ::
    "TaskId \<Rightarrow> CreatorGrantPolicy \<Rightarrow> (kernel_tables, DynamicCapabilityError, DynamicProcess) op" where
  "spawn task_id grant_policy =
     bindS (readS (\<lambda>k. ensure (\<not> list_ex (has_task task_id) (dpt_processes (kt_processes k))) DuplicateTask)) (\<lambda>_.
     bindS (readS (\<lambda>k. ok_or (position (\<lambda>entry. entry = None) (dpt_processes (kt_processes k))) ProcessTableFull)) (\<lambda>slot.
     bindS (onS kt_identities kt_identities_update ServiceIdentity (register_task task_id)) (\<lambda>service_id.
     bindS (onS kt_processes kt_processes_update (\<lambda>e. e) take_process_id) (\<lambda>process_id.
     bindS (onS kt_capabilities kt_capabilities_update (\<lambda>e. e)
       (add_grants grant_policy 0 (process_new process_id task_id service_id))) (\<lambda>process.
     bindS (modifyS (kt_processes_update (\<lambda>t. t\<lparr>dpt_processes := (dpt_processes t)[slot := Some process]\<rparr>))) (\<lambda>_.
     readS (\<lambda>_. Ok process)))))))"

section \<open>Runs of the three tables\<close>

text \<open>
  A run starts with empty tables and spawns processes, revokes capabilities and retires identities.
  It records every identity that was registered for a task under a policy, also when the creation
  failed afterwards, the handles that were revoked and the identities that were retired.
\<close>

definition kernel_start :: kernel_tables where
  "kernel_start = \<lparr>kt_identities = identity_new, kt_capabilities = capability_new, kt_processes = processes_new\<rparr>"

type_synonym creation = "ServiceId \<times> TaskId \<times> CreatorGrantPolicy"

inductive kernel_run ::
    "kernel_tables \<Rightarrow> creation list \<Rightarrow> CapabilityHandle set \<Rightarrow> ServiceId set \<Rightarrow> bool" where
  kernel_start: "kernel_run kernel_start [] {} {}"
| kernel_spawn: "kernel_run k cs W R \<Longrightarrow> spawn task policy k = (r, k') \<Longrightarrow>
    kernel_run k' (if kt_identities k' = kt_identities k then cs
                   else (sit_next_id (kt_identities k), task, policy) # cs) W R"
| kernel_revoke: "kernel_run k cs W R \<Longrightarrow> revoke h (kt_capabilities k) = (Ok (), t) \<Longrightarrow>
    kernel_run (k\<lparr>kt_capabilities := t\<rparr>) cs (insert h W) R"
| kernel_retire: "kernel_run k cs W R \<Longrightarrow> unregister s (kt_identities k) = (Ok (), t) \<Longrightarrow>
    kernel_run (k\<lparr>kt_identities := t\<rparr>) cs W (insert s R)"

definition policy_grants :: "CreatorGrantPolicy \<Rightarrow> InitialGrant set" where
  "policy_grants policy = {g. Some g \<in> set (take (cgp_grant_count policy) (cgp_grants policy))}"


definition inventory :: "DynamicProcess \<Rightarrow> cap_event list \<Rightarrow> bool" where
  "inventory p es \<longleftrightarrow>
     length (dp_capabilities p) = MAX_PROCESS_CAPABILITIES \<and> dp_capability_count p \<le> MAX_PROCESS_CAPABILITIES \<and>
     (\<forall>i < dp_capability_count p. \<exists>pc. dp_capabilities p ! i = Some pc \<and>
        Granted (dp_service_id p) (pc_resource pc) (pc_rights pc) (pc_handle pc) \<in> set es)"

lemma inventory_mono: "inventory p es \<Longrightarrow> set es \<subseteq> set es' \<Longrightarrow> inventory p es'"
  unfolding inventory_def by blast

lemma inventory_Cons: "inventory p es \<Longrightarrow> inventory p (ev # es)"
  by (erule inventory_mono) auto

lemma inventory_new: "inventory (process_new i task s) es"
  by (simp add: inventory_def process_new_def)

lemma add_initial_grant_Ok:
  "add_initial_grant g p t = (Ok p', t') \<longleftrightarrow>
     dp_capability_count p < MAX_PROCESS_CAPABILITIES \<and>
     (\<exists>h. grant (dp_service_id p) (ig_resource g) (ig_rights g) t = (Ok h, t') \<and>
        p' = p\<lparr>dp_capabilities := (dp_capabilities p)[dp_capability_count p := Some
            \<lparr>pc_handle = h, pc_resource = ig_resource g, pc_rights = ig_rights g\<rparr>],
          dp_capability_count := dp_capability_count p + 1\<rparr>)"
  by (auto simp: add_initial_grant_def op_simps)

lemma add_initial_grant_fails:
  assumes "add_initial_grant g p t = (r, t')" and "\<And>p'. r \<noteq> Ok p'"
  shows "t' = t" and "settled r"
proof -
  obtain r' u where g: "grant (dp_service_id p) (ig_resource g) (ig_rights g) t = (r', u)" by fastforce
  have "settled r'" using kernel_capabilities.issue_settled [of "dp_service_id p" "ig_resource g" "ig_rights g" t] g
    by simp
  moreover have "u = t" if "r' = Err e" for e using kernel_capabilities.issue_denied g that by blast
  ultimately show "t' = t" "settled r"
    using assms g
    by (cases r'; auto simp: add_initial_grant_def bindS_def readS_def onS_def ensure_def split: if_splits)+
qed

lemma inventory_grant:
  assumes "inventory p es" and "add_initial_grant g p t = (Ok p', t')"
    and "grant (dp_service_id p) (ig_resource g) (ig_rights g) t = (Ok h, t')"
  shows "inventory p' (Granted (dp_service_id p) (ig_resource g) (ig_rights g) h # es)"
proof -
  have p': "p' = p\<lparr>dp_capabilities := (dp_capabilities p)[dp_capability_count p := Some
            \<lparr>pc_handle = h, pc_resource = ig_resource g, pc_rights = ig_rights g\<rparr>],
          dp_capability_count := dp_capability_count p + 1\<rparr>"
    and count: "dp_capability_count p < MAX_PROCESS_CAPABILITIES"
    using assms(2,3) by (auto simp: add_initial_grant_Ok)
  show ?thesis using assms(1) count unfolding p' inventory_def
    by (auto simp: nth_list_update less_Suc_eq)
qed

text \<open>What the grant loop adds to the history: grants of the policy, to the new process.\<close>

definition grants_to :: "DynamicProcess \<Rightarrow> CreatorGrantPolicy \<Rightarrow> cap_event set" where
  "grants_to p policy =
     {Granted (dp_service_id p) (ig_resource g) (ig_rights g) h | g h. g \<in> policy_grants policy}"

lemma policy_grants_nth:
  "i < cgp_grant_count policy \<Longrightarrow> i < length (cgp_grants policy) \<Longrightarrow> cgp_grants policy ! i = Some g \<Longrightarrow>
   g \<in> policy_grants policy"
  by (auto simp: policy_grants_def in_set_conv_nth intro!: exI [of _ i])

definition same_process :: "DynamicProcess \<Rightarrow> DynamicProcess \<Rightarrow> bool" where
  "same_process p p' \<longleftrightarrow>
     dp_id p' = dp_id p \<and> dp_task_id p' = dp_task_id p \<and> dp_service_id p' = dp_service_id p"

lemma add_grants_history:
  assumes "cap_inv t es" and "add_grants policy i p t = (r, t')"
  shows "\<exists>es'. cap_inv t' es' \<and> set es \<subseteq> set es' \<and> set es' \<subseteq> set es \<union> grants_to p policy \<and>
    (\<forall>p'. r = Ok p' \<longrightarrow> same_process p p' \<and> (inventory p es \<longrightarrow> inventory p' es'))"
  using assms
proof (induction policy i p t arbitrary: es r t' rule: add_grants.induct)
  case (1 policy i p t)
  note run = "1.prems"(2) [unfolded add_grants.simps [of policy i]]
  show ?case
  proof (cases "\<exists>g p' t1. i < cgp_grant_count policy \<and> i < length (cgp_grants policy) \<and>
      cgp_grants policy ! i = Some g \<and> add_initial_grant g p t = (Ok p', t1)")
    case False
    then have "t' = t" and "r = Ok p' \<Longrightarrow> p' = p" for p'
      using run add_initial_grant_fails(1)
      by (auto split: if_splits option.splits prod.splits result.splits)
    then show ?thesis using "1.prems"(1) by (intro exI [of _ es]) (auto simp: same_process_def)
  next
    case True
    then obtain g p1 t1 where i: "i < cgp_grant_count policy" "i < length (cgp_grants policy)"
      and g: "cgp_grants policy ! i = Some g" and add: "add_initial_grant g p t = (Ok p1, t1)" by blast
    from add obtain h where h: "grant (dp_service_id p) (ig_resource g) (ig_rights g) t = (Ok h, t1)"
      by (auto simp: add_initial_grant_Ok)
    let ?ev = "Granted (dp_service_id p) (ig_resource g) (ig_rights g) h"
    have s: "same_process p p1" using add by (auto simp: add_initial_grant_Ok same_process_def)
    have inv: "cap_inv t1 (?ev # es)" using kernel_capabilities.issue_history [OF "1.prems"(1) h] by simp
    have rest: "add_grants policy (i + 1) p1 t1 = (r, t')" using run i g add by simp
    obtain es' where es': "cap_inv t' es'" "set (?ev # es) \<subseteq> set es'"
      "set es' \<subseteq> set (?ev # es) \<union> grants_to p1 policy"
      "\<forall>p'. r = Ok p' \<longrightarrow> same_process p1 p' \<and> (inventory p1 (?ev # es) \<longrightarrow> inventory p' es')"
      using "1.IH" [OF i g add [symmetric] refl inv rest] by blast
    have "?ev \<in> grants_to p policy" "grants_to p1 policy = grants_to p policy"
      using policy_grants_nth [OF i g] s by (auto simp: grants_to_def same_process_def)
    moreover have "inventory p es \<Longrightarrow> inventory p1 (?ev # es)" using add h by (intro inventory_grant)
    moreover have "same_process p1 p' \<Longrightarrow> same_process p p'" for p' using s by (simp add: same_process_def)
    ultimately show ?thesis using es' by (intro exI [of _ es']) auto
  qed
qed


lemma take_process_id_cases:
  assumes "take_process_id t = (r, t')"
  obtains (taken) n where "checked_add_word (dpt_next_id t) 1 = Some n" "r = Ok (dpt_next_id t)"
      "t' = t\<lparr>dpt_next_id := n\<rparr>"
    | (exhausted) "checked_add_word (dpt_next_id t) 1 = None" "r = Err ProcessIdExhausted" "t' = t"
  using assms by (auto simp: take_process_id_def split: option.splits)

lemma spawn_cases:
  assumes "spawn task policy k = (r, k')"
  obtains (refused) e where "r = Err e" "k' = k"
      "e = DuplicateTask \<or> e = ProcessTableFull \<or> (\<exists>x. e = ServiceIdentity x)"
    | (exhausted) s ids where "register_task task (kt_identities k) = (Ok s, ids)"
      "k' = k\<lparr>kt_identities := ids\<rparr>" "r = Err ProcessIdExhausted"
    | (granting) s ids n slot r' caps where "register_task task (kt_identities k) = (Ok s, ids)"
      "\<not> list_ex (has_task task) (dpt_processes (kt_processes k))"
      "position (\<lambda>entry. entry = None) (dpt_processes (kt_processes k)) = Some slot"
      "checked_add_word (dpt_next_id (kt_processes k)) 1 = Some n"
      "add_grants policy 0 (process_new (dpt_next_id (kt_processes k)) task s) (kt_capabilities k) = (r', caps)"
      "k' = k\<lparr>kt_identities := ids, kt_capabilities := caps, kt_processes := (kt_processes k)
         \<lparr>dpt_next_id := n, dpt_processes := (case r' of Ok p \<Rightarrow> (dpt_processes (kt_processes k))[slot := Some p]
            | _ \<Rightarrow> dpt_processes (kt_processes k))\<rparr>\<rparr>"
      "r = r'"
proof (cases "list_ex (has_task task) (dpt_processes (kt_processes k))")
  case True
  then show thesis using assms by (intro refused) (auto simp: spawn_def bindS_def readS_def)
next
  case new: False
  show thesis
  proof (cases "position (\<lambda>entry. entry = None) (dpt_processes (kt_processes k))")
    case None
    then show thesis using assms new by (intro refused) (auto simp: spawn_def bindS_def readS_def)
  next
    case slot: (Some slot)
    obtain ri ids where reg: "register_task task (kt_identities k) = (ri, ids)" by fastforce
    show thesis
    proof (cases ri)
      case (Err x)
      have "ids = kt_identities k" using reg register_task_Err unfolding Err by blast
      then show thesis using assms new slot reg Err
        by (intro refused) (auto simp: spawn_def bindS_def readS_def onS_def)
    next
      case (Ok s)
      obtain rp procs where take: "take_process_id (kt_processes k) = (rp, procs)" by fastforce
      from take show thesis
      proof (cases rule: take_process_id_cases)
        case (taken n)
        obtain r' caps where add: "add_grants policy 0 (process_new (dpt_next_id (kt_processes k)) task s)
            (kt_capabilities k) = (r', caps)" by fastforce
        show thesis
          by (rule granting [OF _ new slot taken(1) add])
            (use assms new slot reg Ok take taken add in
              \<open>auto simp: spawn_def bindS_def readS_def onS_def modifyS_def split: result.splits\<close>)
      next
        case exhausted
        then show thesis using assms new slot reg Ok take
          by (intro that(2)) (auto simp: spawn_def bindS_def readS_def onS_def)
      qed
    qed (use settled_register_task [OF reg] in simp_all)
  qed
qed


definition distinct_processes :: "DynamicProcess \<Rightarrow> DynamicProcess \<Rightarrow> bool" where
  "distinct_processes p q \<longleftrightarrow>
     dp_id p \<noteq> dp_id q \<and> dp_task_id p \<noteq> dp_task_id q \<and> dp_service_id p \<noteq> dp_service_id q"

definition process_table_inv :: "DynamicProcessTable \<Rightarrow> bool" where
  "process_table_inv t \<longleftrightarrow>
     length (dpt_processes t) = MAX_DYNAMIC_PROCESSES \<and>
     slots_apart distinct_processes (dpt_processes t) \<and>
     (\<forall>p. Some p \<in> set (dpt_processes t) \<longrightarrow> dp_id p < dpt_next_id t)"

definition created_as :: "creation list \<Rightarrow> DynamicProcess \<Rightarrow> bool" where
  "created_as cs p \<longleftrightarrow> (\<exists>policy. (dp_service_id p, dp_task_id p, policy) \<in> set cs)"

definition grant_named :: "creation list \<Rightarrow> cap_event \<Rightarrow> bool" where
  "grant_named cs ev =
     (case ev of
        Granted c r q h \<Rightarrow> \<exists>task policy g. (c, task, policy) \<in> set cs \<and> g \<in> policy_grants policy \<and>
          ig_resource g = r \<and> ig_rights g = q
      | Withdrawn h \<Rightarrow> True)"

definition kernel_inv ::
    "kernel_tables \<Rightarrow> creation list \<Rightarrow> CapabilityHandle set \<Rightarrow> ServiceId set \<Rightarrow> cap_event list \<Rightarrow> bool" where
  "kernel_inv k cs W R es \<longleftrightarrow>
     id_inv (kt_identities k) (map fst cs) R \<and> cap_inv (kt_capabilities k) es \<and>
     Withdrawn ` W \<subseteq> set es \<and> (\<forall>ev \<in> set es. grant_named cs ev) \<and> process_table_inv (kt_processes k) \<and>
     (\<forall>p. Some p \<in> set (dpt_processes (kt_processes k)) \<longrightarrow> inventory p es \<and> created_as cs p)"

lemma grant_named_Cons: "grant_named cs ev \<Longrightarrow> grant_named (c # cs) ev"
  unfolding grant_named_def by (cases ev) (simp_all, blast)

lemma created_as_Cons: "created_as cs p \<Longrightarrow> created_as (c # cs) p"
  unfolding created_as_def by auto

lemma grants_to_named:
  assumes "ev \<in> grants_to p policy" and "(dp_service_id p, task, policy) \<in> set cs"
  shows "grant_named cs ev"
proof -
  obtain g h where "ev = Granted (dp_service_id p) (ig_resource g) (ig_rights g) h" "g \<in> policy_grants policy"
    using assms(1) by (auto simp: grants_to_def)
  then show ?thesis using assms(2) by (simp add: grant_named_def) blast
qed

lemma kernel_inv_start: "kernel_inv kernel_start [] {} {} []"
  using id_inv_new cap_inv_new
  by (simp add: kernel_inv_def kernel_start_def processes_new_def process_table_inv_def)

lemma kernel_inv_identity:
  assumes "kernel_inv k cs W R es" and reg: "register_task task (kt_identities k) = (Ok s, ids)"
  shows "id_inv ids (map fst ((s, task, policy) # cs)) R" and "s = sit_next_id (kt_identities k)"
    and "ids \<noteq> kt_identities k" and "created_as cs p \<Longrightarrow> dp_service_id p \<noteq> s"
proof -
  have inv: "id_inv (kt_identities k) (map fst cs) R" using assms(1) by (simp add: kernel_inv_def)
  show new: "id_inv ids (map fst ((s, task, policy) # cs)) R" using id_inv_register [OF inv reg] by simp
  show "s = sit_next_id (kt_identities k)" using reg by (auto simp: register_task_Ok)
  show "ids \<noteq> kt_identities k"
    using register_names_task [OF inv reg] by auto
  show "dp_service_id p \<noteq> s" if "created_as cs p"
  proof -
    have "dp_service_id p \<in> set (map fst cs)"
      using that unfolding created_as_def by (metis fst_conv image_eqI list.set_map)
    then show ?thesis using new by (auto simp: id_inv_def)
  qed
qed

lemma process_table_inv_store:
  assumes inv: "process_table_inv t" and slot: "position (\<lambda>e. e = None) (dpt_processes t) = Some slot"
    and n: "checked_add_word (dpt_next_id t) 1 = Some n"
    and task: "\<not> list_ex (has_task (dp_task_id p)) (dpt_processes t)"
    and pid: "dp_id p = dpt_next_id t"
    and service: "\<And>q. Some q \<in> set (dpt_processes t) \<Longrightarrow> dp_service_id q \<noteq> dp_service_id p"
  shows "process_table_inv (t\<lparr>dpt_next_id := n, dpt_processes := (dpt_processes t)[slot := Some p]\<rparr>)"
proof -
  have lt: "dpt_next_id t < n" using checked_add_1(2) [OF n] .
  have old: "dp_id q < dpt_next_id t" "distinct_processes q p" "distinct_processes p q"
    if q: "Some q \<in> set (dpt_processes t)" for q
  proof -
    show less: "dp_id q < dpt_next_id t" using q inv by (simp add: process_table_inv_def)
    have "dp_task_id q \<noteq> dp_task_id p"
      using q task by (force simp: list_ex_iff has_task_def)
    then show "distinct_processes q p" "distinct_processes p q"
      using service [OF q] less pid by (auto simp: distinct_processes_def)
  qed
  have "slots_apart distinct_processes ((dpt_processes t)[slot := Some p])"
    using inv old by (intro slots_apart_store) (simp_all add: process_table_inv_def)
  moreover have "dp_id q < n" if "Some q \<in> set ((dpt_processes t)[slot := Some p])" for q
    using stored_in [OF that] old(1) pid lt by (auto dest: order.strict_trans)
  ultimately show ?thesis using inv by (simp add: process_table_inv_def)
qed


lemma kernel_invD:
  assumes "kernel_inv k cs W R es"
  shows "id_inv (kt_identities k) (map fst cs) R" and "cap_inv (kt_capabilities k) es"
    and "Withdrawn ` W \<subseteq> set es" and "ev \<in> set es \<Longrightarrow> grant_named cs ev"
    and "process_table_inv (kt_processes k)"
    and "Some p \<in> set (dpt_processes (kt_processes k)) \<Longrightarrow> inventory p es"
    and "Some p \<in> set (dpt_processes (kt_processes k)) \<Longrightarrow> created_as cs p"
  using assms by (simp_all add: kernel_inv_def)

lemma kernel_inv_granting:
  assumes inv: "kernel_inv k cs W R es" and reg: "register_task task (kt_identities k) = (Ok s, ids)"
    and new: "\<not> list_ex (has_task task) (dpt_processes (kt_processes k))"
    and slot: "position (\<lambda>e. e = None) (dpt_processes (kt_processes k)) = Some slot"
    and n: "checked_add_word (dpt_next_id (kt_processes k)) 1 = Some n"
    and add: "add_grants policy 0 (process_new (dpt_next_id (kt_processes k)) task s) (kt_capabilities k) = (r, caps)"
    and k': "k' = k\<lparr>kt_identities := ids, kt_capabilities := caps, kt_processes := (kt_processes k)
         \<lparr>dpt_next_id := n, dpt_processes := (case r of Ok p \<Rightarrow> (dpt_processes (kt_processes k))[slot := Some p]
            | _ \<Rightarrow> dpt_processes (kt_processes k))\<rparr>\<rparr>"
  shows "\<exists>es'. kernel_inv k' ((s, task, policy) # cs) W R es'"
proof -
  let ?p = "process_new (dpt_next_id (kt_processes k)) task s" and ?cs = "(s, task, policy) # cs"
  let ?t = "kt_processes k"
  note old = kernel_invD [OF inv] and ident = kernel_inv_identity [OF inv reg]
  obtain es' where es': "cap_inv caps es'" "set es \<subseteq> set es'" "set es' \<subseteq> set es \<union> grants_to ?p policy"
    and loop: "\<forall>p. r = Ok p \<longrightarrow> same_process ?p p \<and> (inventory ?p es \<longrightarrow> inventory p es')"
    using add_grants_history [OF old(2) add] by metis
  have made: "same_process ?p p \<and> inventory p es'" if "r = Ok p" for p
    using loop that inventory_new by simp
  have "dp_service_id ?p = s" by (simp add: process_new_def)
  then have named: "\<forall>ev \<in> set es'. grant_named ?cs ev"
    using es'(3) grant_named_Cons [OF old(4)] grants_to_named [of _ ?p policy task ?cs]
    by (metis UnE list.set_intros(1) subsetD)
  have before: "inventory p es' \<and> created_as ?cs p" if "Some p \<in> set (dpt_processes ?t)" for p
    using inventory_mono [OF old(6) [OF that] es'(2)] created_as_Cons [OF old(7) [OF that]] ..
  have service: "dp_service_id q \<noteq> s" if "Some q \<in> set (dpt_processes ?t)" for q
    using ident(4) [OF old(7) [OF that]] .
  have base: "id_inv ids (map fst ?cs) R" "Withdrawn ` W \<subseteq> set es'"
    using ident(1) order.trans [OF old(3) es'(2)] by simp_all
  show ?thesis
  proof (cases "\<exists>p. r = Ok p")
    case True
    then obtain p where p: "r = Ok p" by blast
    have same: "dp_id p = dpt_next_id ?t" "dp_task_id p = task" "dp_service_id p = s"
      using made [OF p] by (simp_all add: same_process_def process_new_def)
    have "process_table_inv (?t\<lparr>dpt_next_id := n, dpt_processes := (dpt_processes ?t)[slot := Some p]\<rparr>)"
      by (rule process_table_inv_store [OF old(5) slot n]) (use new same service in auto)
    moreover have created: "created_as ?cs p" by (auto simp: created_as_def same)
    have "inventory q es' \<and> created_as ?cs q" if "Some q \<in> set ((dpt_processes ?t)[slot := Some p])" for q
      using stored_in [OF that] before made [OF p] created by blast
    ultimately show ?thesis
      using base es'(1) named by (intro exI [of _ es']) (simp add: kernel_inv_def k' p)
  next
    case False
    then have procs: "kt_processes k' = ?t\<lparr>dpt_next_id := n\<rparr>" by (simp add: k' split: result.splits)
    have "process_table_inv (?t\<lparr>dpt_next_id := n\<rparr>)"
      using old(5) checked_add_1(2) [OF n] by (auto simp: process_table_inv_def dest: order.strict_trans)
    then show ?thesis
      using base es'(1) named before procs by (intro exI [of _ es']) (simp add: kernel_inv_def k')
  qed
qed

lemma kernel_run_inv: "kernel_run k cs W R \<Longrightarrow> \<exists>es. kernel_inv k cs W R es"
proof (induction rule: kernel_run.induct)
  case kernel_start
  then show ?case using kernel_inv_start by blast
next
  case (kernel_spawn k cs W R task policy r k')
  then obtain es where inv: "kernel_inv k cs W R es" by blast
  from kernel_spawn(2) show ?case
  proof (cases rule: spawn_cases)
    case (refused e)
    then show ?thesis using inv by auto
  next
    case (exhausted s ids)
    note ident = kernel_inv_identity [OF inv exhausted(1)] and old = kernel_invD [OF inv]
    let ?cs = "(s, task, policy) # cs"
    have "kernel_inv k' ?cs W R es"
      using ident(1) old(2,3,5,6) grant_named_Cons [OF old(4)] created_as_Cons [OF old(7)]
      by (simp add: kernel_inv_def exhausted)
    then show ?thesis using ident(2,3) exhausted(2) by auto
  next
    case (granting s ids n slot r' caps)
    note ident = kernel_inv_identity [OF inv granting(1)]
    have "\<exists>es'. kernel_inv k' ((s, task, policy) # cs) W R es'"
      by (rule kernel_inv_granting [OF inv granting(1-6)])
    then show ?thesis using ident(2,3) by (simp add: granting(6))
  qed
next
  case (kernel_revoke k cs W R h t)
  then obtain es where inv: "kernel_inv k cs W R es" by blast
  note old = kernel_invD [OF inv]
  have "kernel_inv (k\<lparr>kt_capabilities := t\<rparr>) cs (insert h W) R (Withdrawn h # es)"
    using old(1,3,4,5,7) cap_inv_revoke [OF old(2) kernel_revoke(2)] inventory_Cons [OF old(6)]
    by (auto simp: kernel_inv_def grant_named_def [of _ "Withdrawn h"])
  then show ?case by blast
next
  case (kernel_retire k cs W R s t)
  then obtain es where inv: "kernel_inv k cs W R es" by blast
  have "kernel_inv (k\<lparr>kt_identities := t\<rparr>) cs W (insert s R) es"
    using kernel_invD(2-7) [OF inv] id_inv_unregister [OF kernel_invD(1) [OF inv] kernel_retire(2)]
    by (simp add: kernel_inv_def)
  then show ?case by blast
qed

section \<open>What a process can use\<close>

lemma use_from_Ok:
  assumes "use_from p t r q saw i = Ok h"
  shows "validate t (dp_service_id p) h r q = Ok ()"
  using assms
proof (induction p t r q saw i rule: use_from.induct)
  case (1 p t r q saw i)
  then show ?case
    unfolding use_from.simps [of p t r q saw i]
    by (auto split: if_splits option.splits result.splits CapabilityError.splits)
qed

lemma use_from_found:
  assumes "inventory p es" and "cap_inv t es" and live: "\<And>h. Withdrawn h \<in> set es \<Longrightarrow>
      \<forall>i < dp_capability_count p. \<forall>pc. dp_capabilities p ! i = Some pc \<longrightarrow> pc_handle pc \<noteq> h"
    and "i \<le> j" and "j < dp_capability_count p" and "dp_capabilities p ! j = Some pc"
    and "rights_contains (pc_rights pc) q"
  shows "\<exists>h. use_from p t (pc_resource pc) q saw i = Ok h"
  using assms(4)
proof (induction i arbitrary: saw rule: inc_induct)
  case base
  have "Granted (dp_service_id p) (pc_resource pc) (pc_rights pc) (pc_handle pc) \<in> set es"
    using assms(1,5,6) by (auto simp: inventory_def)
  moreover have "Withdrawn (pc_handle pc) \<notin> set es" using live assms(5,6) by blast
  ultimately have "validate t (dp_service_id p) (pc_handle pc) (pc_resource pc) q = Ok ()"
    using validate_history [OF assms(2)] assms(7) by blast
  then show ?case
    using assms(1,5,6) unfolding use_from.simps [of p t _ q saw j] by (simp add: inventory_def)
next
  case (step i)
  have i: "i < dp_capability_count p" "i < length (dp_capabilities p)"
    using step assms(1,5) by (auto simp: inventory_def)
  obtain d where d: "dp_capabilities p ! i = Some d"
    and g: "Granted (dp_service_id p) (pc_resource d) (pc_rights d) (pc_handle d) \<in> set es"
    using assms(1) i by (auto simp: inventory_def)
  have w: "Withdrawn (pc_handle d) \<notin> set es" using live i d by blast
  show ?case
  proof (cases "pc_resource d = pc_resource pc \<and> rights_contains (pc_rights d) q")
    case True
    then have "validate t (dp_service_id p) (pc_handle d) (pc_resource pc) q = Ok ()"
      using validate_history [OF assms(2)] g w by auto
    then show ?thesis using i d True unfolding use_from.simps [of p t _ q saw i] by simp
  next
    case False
    then have "pc_resource d = pc_resource pc \<Longrightarrow>
        validate t (dp_service_id p) (pc_handle d) (pc_resource pc) q = Err MissingRights"
      using validate_missing_rights [OF assms(2) g w] by auto
    then show ?thesis
      using i d step.IH unfolding use_from.simps [of p t _ q saw i] by simp
  qed
qed


definition live :: "DynamicProcess \<Rightarrow> cap_event list \<Rightarrow> bool" where
  "live p es \<longleftrightarrow> (\<forall>i < dp_capability_count p. \<forall>pc. dp_capabilities p ! i = Some pc \<longrightarrow>
     Withdrawn (pc_handle pc) \<notin> set es)"

lemma live_Granted [simp]: "live p (Granted c r q h # es) = live p es"
  by (simp add: live_def)

text \<open>The first \<open>n\<close> grants of the policy are in the inventory.\<close>

definition holds_grants :: "DynamicProcess \<Rightarrow> CreatorGrantPolicy \<Rightarrow> nat \<Rightarrow> bool" where
  "holds_grants p policy n \<longleftrightarrow> (\<forall>j < n. \<forall>g. cgp_grants policy ! j = Some g \<longrightarrow>
     (\<exists>m < dp_capability_count p. \<exists>pc. dp_capabilities p ! m = Some pc \<and>
        pc_resource pc = ig_resource g \<and> pc_rights pc = ig_rights g))"

lemma add_initial_grant_live:
  assumes "cap_inv t es" and "inventory p es" and "live p es" and "add_initial_grant g p t = (Ok p', t')"
  shows "live p' es"
proof -
  obtain h where h: "grant (dp_service_id p) (ig_resource g) (ig_rights g) t = (Ok h, t')"
    and p': "p' = p\<lparr>dp_capabilities := (dp_capabilities p)[dp_capability_count p := Some
            \<lparr>pc_handle = h, pc_resource = ig_resource g, pc_rights = ig_rights g\<rparr>],
          dp_capability_count := dp_capability_count p + 1\<rparr>"
    and count: "dp_capability_count p < MAX_PROCESS_CAPABILITIES"
    using assms(4) by (auto simp: add_initial_grant_Ok)
  have "Withdrawn h \<notin> set es" using kernel_capabilities.issue_history [OF assms(1) h] by simp
  then show ?thesis using assms(2,3) count unfolding live_def p' inventory_def
    by (auto simp: nth_list_update less_Suc_eq)
qed

lemma add_initial_grant_holds:
  assumes "holds_grants p policy i" and "cgp_grants policy ! i = Some g"
    and "length (dp_capabilities p) = MAX_PROCESS_CAPABILITIES" and "add_initial_grant g p t = (Ok p', t')"
  shows "holds_grants p' policy (i + 1)"
  unfolding holds_grants_def
proof (intro allI impI)
  fix j g'
  assume j: "j < i + 1" and g': "cgp_grants policy ! j = Some g'"
  let ?c = "dp_capability_count p"
  obtain h where p': "p' = p\<lparr>dp_capabilities := (dp_capabilities p)[?c := Some
            \<lparr>pc_handle = h, pc_resource = ig_resource g, pc_rights = ig_rights g\<rparr>],
          dp_capability_count := ?c + 1\<rparr>" and c: "?c < MAX_PROCESS_CAPABILITIES"
    using assms(4) by (auto simp: add_initial_grant_Ok)
  show "\<exists>m < dp_capability_count p'. \<exists>pc. dp_capabilities p' ! m = Some pc \<and>
      pc_resource pc = ig_resource g' \<and> pc_rights pc = ig_rights g'"
  proof (cases "j = i")
    case True
    then show ?thesis using assms(2,3) g' c by (intro exI [of _ ?c]) (simp add: p')
  next
    case False
    then obtain m pc where "m < ?c" "dp_capabilities p ! m = Some pc"
      "pc_resource pc = ig_resource g'" "pc_rights pc = ig_rights g'"
      using assms(1) g' j unfolding holds_grants_def by (metis Suc_eq_plus1 less_SucE)
    then show ?thesis by (intro exI [of _ m]) (simp add: p')
  qed
qed

lemma add_grants_usable:
  assumes "cap_inv t es" and "inventory p es" and "live p es" and "holds_grants p policy i"
    and "i \<le> cgp_grant_count policy" and "add_grants policy i p t = (Ok p', t')"
  shows "live p' es \<and> holds_grants p' policy (cgp_grant_count policy)"
  using assms
proof (induction policy i p t arbitrary: es p' t' rule: add_grants.induct)
  case (1 policy i p t)
  note run = "1.prems"(6) [unfolded add_grants.simps [of policy i]]
  show ?case
  proof (cases "i < cgp_grant_count policy")
    case False
    then show ?thesis using "1.prems" run by simp
  next
    case True
    then obtain g p1 t1 where i: "i < length (cgp_grants policy)" and g: "cgp_grants policy ! i = Some g"
      and add: "add_initial_grant g p t = (Ok p1, t1)" and rest: "add_grants policy (i + 1) p1 t1 = (Ok p', t')"
      using run by (auto split: if_splits option.splits prod.splits result.splits)
    from add obtain h where h: "grant (dp_service_id p) (ig_resource g) (ig_rights g) t = (Ok h, t1)"
      by (auto simp: add_initial_grant_Ok)
    let ?ev = "Granted (dp_service_id p) (ig_resource g) (ig_rights g) h"
    have "cap_inv t1 (?ev # es)" using kernel_capabilities.issue_history [OF "1.prems"(1) h] by simp
    moreover have "inventory p1 (?ev # es)" by (rule inventory_grant [OF "1.prems"(2) add h])
    moreover have "live p1 (?ev # es)" using add_initial_grant_live [OF "1.prems"(1-3) add] by simp
    moreover have "holds_grants p1 policy (i + 1)"
      using add_initial_grant_holds [OF "1.prems"(4) g _ add] "1.prems"(2) by (simp add: inventory_def)
    ultimately have "live p' (?ev # es) \<and> holds_grants p' policy (cgp_grant_count policy)"
      by (intro "1.IH" [OF True i g add [symmetric] refl _ _ _ _ _ rest]) (use True in simp_all)
    then show ?thesis by simp
  qed
qed


lemma creation_unique:
  assumes "kernel_inv k cs W R es" and "(s, x) \<in> set cs" and "(s, y) \<in> set cs"
  shows "x = y"
proof -
  have "distinct (map fst cs)" using kernel_invD(1) [OF assms(1)] by (simp add: id_inv_def)
  then show ?thesis using assms(2,3) by (rule eq_key_imp_eq_value)
qed

lemma identity_valid_run:
  assumes "kernel_run k cs W R"
  shows "identity_valid (kt_identities k)"
  using kernel_run_inv [OF assms] kernel_invD(1) unfolding identity_valid_def by blast

lemma created_tasks:
  "kernel_run k cs W R \<Longrightarrow> (s, task, policy) \<in> set cs \<Longrightarrow> s \<notin> R \<Longrightarrow> task_for (kt_identities k) s = Some task"
proof (induction arbitrary: s task policy rule: kernel_run.induct)
  case (kernel_spawn k cs W R task' policy' r k')
  obtain es where inv: "kernel_inv k cs W R es" using kernel_run_inv [OF kernel_spawn(1)] by blast
  note valid = identity_valid_run [OF kernel_spawn(1)]
  show ?case
  proof (cases "kt_identities k' = kt_identities k")
    case True
    then show ?thesis using kernel_spawn by simp
  next
    case False
    obtain s' where reg: "register_task task' (kt_identities k) = (Ok s', kt_identities k')"
      using kernel_spawn(2)
    proof (cases rule: spawn_cases)
      case (refused e) then show thesis using False by simp
    next
      case (exhausted u ids) then show thesis using that by simp
    next
      case (granting u ids n slot r' caps) then show thesis using that by simp
    qed
    have s': "s' = sit_next_id (kt_identities k)" using kernel_inv_identity(2) [OF inv reg] .
    have known: "task_for (kt_identities k') s = Some task" if "(s, task, policy) \<in> set cs"
    proof -
      have old: "task_for (kt_identities k) s = Some task" using kernel_spawn that by blast
      then have "s \<noteq> s'" using kernel_identities.register_new [OF valid reg] by auto
      then show ?thesis using kernel_identities.register_keeps [OF valid reg] old by simp
    qed
    show ?thesis
      using kernel_spawn(4) False known kernel_identities.register_names [OF valid reg] s' by auto
  qed
next
  case (kernel_retire k cs W R s' t)
  then have "s \<noteq> s'" "task_for (kt_identities k) s = Some task" by auto
  then show ?case
    using kernel_identities.retire_keeps [OF identity_valid_run [OF kernel_retire(1)] kernel_retire(2)] by simp
qed simp_all

lemma spawn_Ok_run:
  assumes run: "kernel_run k cs W R" and ok: "spawn task policy k = (Ok p, k')"
  obtains es where "inventory p es" "cap_inv (kt_capabilities k') es" "live p es"
    "holds_grants p policy (cgp_grant_count policy)"
    "dp_task_id p = task" "Some p \<in> set (dpt_processes (kt_processes k'))"
proof -
  obtain es where inv: "kernel_inv k cs W R es" using kernel_run_inv [OF run] by blast
  note old = kernel_invD [OF inv]
  from ok show thesis
  proof (cases rule: spawn_cases)
    case (granting s ids n slot r' caps)
    let ?p = "process_new (dpt_next_id (kt_processes k)) task s"
    have add: "add_grants policy 0 ?p (kt_capabilities k) = (Ok p, caps)" using granting by simp
    obtain es' where es': "cap_inv caps es'" "set es \<subseteq> set es'" "set es' \<subseteq> set es \<union> grants_to ?p policy"
      and same: "same_process ?p p" and "inventory ?p es \<longrightarrow> inventory p es'"
      using add_grants_history [OF old(2) add] by auto
    then have p: "inventory p es'" using inventory_new by simp
    have "live ?p es" "holds_grants ?p policy 0" by (simp_all add: live_def holds_grants_def process_new_def)
    then have use: "live p es \<and> holds_grants p policy (cgp_grant_count policy)"
      by (intro add_grants_usable [OF old(2) inventory_new _ _ _ add]) simp_all
    have w: "Withdrawn h \<in> set es' \<longleftrightarrow> Withdrawn h \<in> set es" for h
      using es'(2,3) by (auto simp: grants_to_def)
    have task: "dp_task_id p = task" using same by (simp add: same_process_def process_new_def)
    have stored: "Some p \<in> set (dpt_processes (kt_processes k'))"
      using position_lt [OF granting(3)] unfolding granting(6) granting(7) [symmetric]
      by (simp add: set_update_memI)
    show thesis
      by (rule that [OF p _ _ _ task stored]) (use use es'(1) w granting in \<open>simp_all add: live_def\<close>)
  qed (use ok in simp_all)
qed

lemma policy_grants_index:
  assumes "g \<in> policy_grants policy"
  obtains j where "j < cgp_grant_count policy" "cgp_grants policy ! j = Some g"
  using assms unfolding policy_grants_def mem_Collect_eq in_set_conv_nth by auto


lemma add_grants_Err:
  assumes "add_grants policy i p t = (Err e, t')"
  shows "e = NoGrant \<or> e = CapabilityInventoryFull \<or> (\<exists>x. e = Capability x)"
  using assms
proof (induction policy i p t arbitrary: t' rule: add_grants.induct)
  case (1 policy i p t)
  have one: "e' = CapabilityInventoryFull \<or> (\<exists>x. e' = Capability x)"
    if "add_initial_grant g p t = (Err e', u)" for g e' u
  proof -
    obtain r w where g: "grant (dp_service_id p) (ig_resource g) (ig_rights g) t = (r, w)" by fastforce
    then show ?thesis
      using that by (cases r) (auto simp: add_initial_grant_def bindS_def readS_def onS_def ensure_def split: if_splits)
  qed
  note run = "1.prems" [unfolded add_grants.simps [of policy i]]
  show ?case
    using run "1.IH" one by (fastforce split: if_splits option.splits prod.splits result.splits)
qed

lemma settled_add_initial_grant: "add_initial_grant g p t = (r, t') \<Longrightarrow> settled r"
  using add_initial_grant_fails(2) [of g p t r t'] by (cases r) auto

lemma add_grants_settled:
  "cgp_grant_count policy \<le> length (cgp_grants policy) \<Longrightarrow> settled (fst (add_grants policy i p t))"
proof (induction policy i p t rule: add_grants.induct)
  case (1 policy i p t)
  show ?case
  proof (cases "\<exists>g p1 t1. i < cgp_grant_count policy \<and> cgp_grants policy ! i = Some g \<and>
      add_initial_grant g p t = (Ok p1, t1)")
    case True
    then show ?thesis using 1 unfolding add_grants.simps [of policy i] by auto
  next
    case False
    then show ?thesis
      using "1.prems" unfolding add_grants.simps [of policy i]
      by (auto split: option.splits prod.splits result.splits dest: settled_add_initial_grant)
  qed
qed

lemma use_from_settled:
  "dp_capability_count p \<le> length (dp_capabilities p) \<Longrightarrow> settled (use_from p t r q saw i)"
proof (induction p t r q saw i rule: use_from.induct)
  case (1 p t r q saw i)
  have "settled (validate t (dp_service_id p) h r q)" for h by simp
  then show ?case
    using 1 unfolding use_from.simps [of p t r q saw i]
    by (auto simp: settled_def split: option.splits result.splits CapabilityError.splits)
qed

text \<open>A run with one process that may read and write resource 5.\<close>

definition demo_policy :: CreatorGrantPolicy where
  "demo_policy = policy_single \<lparr>ig_resource = 5, ig_rights = 3\<rparr>"

definition demo_process :: DynamicProcess where
  "demo_process = \<lparr>dp_id = 1, dp_task_id = 7, dp_service_id = 1,
     dp_capabilities = (replicate 4 None)[0 := Some \<lparr>pc_handle = first_handle 0, pc_resource = 5, pc_rights = 3\<rparr>],
     dp_capability_count = 1\<rparr>"

definition demo_kernel :: kernel_tables where
  "demo_kernel =
     \<lparr>kt_identities = \<lparr>sit_records = (replicate 8 service_record_empty)[0 :=
        \<lparr>sr_service_id = 1, sr_task_id = 7, sr_active = True\<rparr>], sit_next_id = 2\<rparr>,
      kt_capabilities = \<lparr>ct_entries = (replicate 32 None)[0 := Some \<lparr>ce_holder = 1, ce_resource = 5,
        ce_rights = 3, ce_generation = 1, ce_state = Active\<rparr>]\<rparr>,
      kt_processes = \<lparr>dpt_processes = (replicate 4 None)[0 := Some demo_process], dpt_next_id = 2\<rparr>\<rparr>"

lemma demo_grants: 
  "add_grants demo_policy 0 (process_new 1 7 1) capability_new = (Ok demo_process, kt_capabilities demo_kernel)"
  unfolding add_grants.simps [of demo_policy 0] add_grants.simps [of demo_policy "0 + 1"]
  by (simp add: demo_policy_def demo_process_def demo_kernel_def policy_single_def policy_empty_def
     MAX_PROCESS_CAPABILITIES_def process_new_def capability_new_def CAPABILITY_TABLE_SLOTS_def
     add_initial_grant_def bindS_def readS_def onS_def grant_def grant_with_provenance_def same_grant_def first_handle_def)

lemma demo_spawn: "spawn 7 demo_policy kernel_start = (Ok demo_process, demo_kernel)"
  using demo_grants
  by (simp add: spawn_def demo_kernel_def kernel_start_def bindS_def readS_def onS_def modifyS_def
     processes_new_def identity_new_def MAX_DYNAMIC_PROCESSES_def MAX_SERVICES_def register_task_def
     service_record_empty_def checked_add_word_def FIRST_SERVICE_ID_def take_process_id_def has_task_def list_ex_iff)

lemma demo_policy_grants: "\<lparr>ig_resource = 5, ig_rights = 3\<rparr> \<in> policy_grants demo_policy"
  by (rule policy_grants_nth [of 0]) (simp_all add: demo_policy_def policy_single_def policy_empty_def
     MAX_PROCESS_CAPABILITIES_def)

lemma demo_stored: "Some demo_process \<in> set (dpt_processes (kt_processes demo_kernel))"
  by (simp add: demo_kernel_def set_update_memI)

lemma demo_names: "dp_service_id demo_process = 1" "dp_task_id demo_process = 7"
  by (simp_all add: demo_process_def)

lemma demo_run: "kernel_run demo_kernel [(1, 7, demo_policy)] {} {}"
  using kernel_spawn [OF kernel_start demo_spawn] 
  by (simp add: demo_kernel_def kernel_start_def identity_new_def FIRST_SERVICE_ID_def)

lemma demo_use: "use_capability demo_process (kt_capabilities demo_kernel) 5 1 = Ok (first_handle 0)"
  unfolding use_capability_def use_from.simps [of demo_process _ 5 1 False 0]
  by (simp add: demo_process_def demo_kernel_def validate_def entry_at_def first_handle_def rights_contains_def)

text \<open>
  C20. Confinement of authority. In every run of process creations, revocations and retirements of
  identities from the empty tables, a process that succeeds in using a capability on a resource does
  so under a grant on that resource which its own creator named in the policy of its creation, with
  at least the rights used, and the handle it used was never revoked. No two creations share an identity.
\<close>

theorem authority_confined:
  assumes run: "kernel_run k cs W R" and p: "Some p \<in> set (dpt_processes (kt_processes k))"
    and use: "use_capability p (kt_capabilities k) resource rights = Ok h"
  shows "(\<exists>policy g. (dp_service_id p, dp_task_id p, policy) \<in> set cs \<and> g \<in> policy_grants policy \<and>
      ig_resource g = resource \<and> rights_contains (ig_rights g) rights) \<and> h \<notin> W \<and> distinct (map fst cs)"
proof -
  obtain es where inv: "kernel_inv k cs W R es" using kernel_run_inv [OF run] by blast
  note old = kernel_invD [OF inv]
  have "validate (kt_capabilities k) (dp_service_id p) h resource rights = Ok ()"
    using use use_from_Ok by (simp add: use_capability_def)
  then obtain q where g: "Granted (dp_service_id p) resource q h \<in> set es" and w: "Withdrawn h \<notin> set es"
    and q: "rights_contains q rights"
    using kernel_capabilities.permits_history [OF old(2)] by blast
  obtain task policy g where c: "(dp_service_id p, task, policy) \<in> set cs" and "g \<in> policy_grants policy"
    "ig_resource g = resource" "ig_rights g = q"
    using old(4) [OF g] by (auto simp: grant_named_def)
  moreover obtain policy' where "(dp_service_id p, dp_task_id p, policy') \<in> set cs"
    using old(7) [OF p] by (auto simp: created_as_def)
  with creation_unique [OF inv c] have "task = dp_task_id p" by blast
  ultimately show ?thesis using q w old(1,3) unfolding id_inv_def by blast
qed

theorem authority_confined_witness:
  "(\<exists>policy g. (1, 7, policy) \<in> set [(1, 7, demo_policy)] \<and> g \<in> policy_grants policy \<and>
      ig_resource g = 5 \<and> rights_contains (ig_rights g) 1) \<and> first_handle 0 \<notin> {} \<and>
    distinct (map fst [(1 :: ServiceId, 7 :: TaskId, demo_policy)])"
  using authority_confined [OF demo_run _ demo_use] demo_stored demo_names by simp

text \<open>
  C21. A creator's grants take effect. When a creation succeeds in a run, the new process is in the
  table for its task, and for every grant of the policy it can use the granted resource with any rights
  the grant contains.
\<close>

theorem spawn_grants_usable:
  assumes run: "kernel_run k cs W R" and ok: "spawn task policy k = (Ok p, k')"
  shows "Some p \<in> set (dpt_processes (kt_processes k')) \<and> dp_task_id p = task \<and>
    (\<forall>g rights. g \<in> policy_grants policy \<longrightarrow> rights_contains (ig_rights g) rights \<longrightarrow>
       (\<exists>h. use_capability p (kt_capabilities k') (ig_resource g) rights = Ok h))"
proof -
  obtain es where inv: "inventory p es" "cap_inv (kt_capabilities k') es" and live: "live p es"
    and holds: "holds_grants p policy (cgp_grant_count policy)"
    and stored: "dp_task_id p = task" "Some p \<in> set (dpt_processes (kt_processes k'))"
    by (rule spawn_Ok_run [OF run ok])
  have "\<exists>h. use_capability p (kt_capabilities k') (ig_resource g) rights = Ok h"
    if g: "g \<in> policy_grants policy" and rights: "rights_contains (ig_rights g) rights" for g rights
  proof -
    obtain j where "j < cgp_grant_count policy" "cgp_grants policy ! j = Some g"
      by (rule policy_grants_index [OF g])
    then obtain m pc where m: "m < dp_capability_count p" "dp_capabilities p ! m = Some pc"
      and pc: "pc_resource pc = ig_resource g" "pc_rights pc = ig_rights g"
      using holds unfolding holds_grants_def by blast
    have "\<exists>h. use_from p (kt_capabilities k') (pc_resource pc) rights False 0 = Ok h"
      by (rule use_from_found [OF inv _ _ m]) (use live rights pc in \<open>auto simp: live_def\<close>)
    then show ?thesis by (simp add: use_capability_def pc)
  qed
  then show ?thesis using stored by blast
qed

theorem spawn_grants_usable_witness:
  "\<exists>h. use_capability demo_process (kt_capabilities demo_kernel) 5 2 = Ok h"
  using spawn_grants_usable [OF kernel_start demo_spawn] demo_policy_grants
  by (auto simp: rights_contains_def dest!: spec [of _ "\<lparr>ig_resource = 5, ig_rights = 3\<rparr>"])


text \<open>
  C22. What a failed creation leaves behind. A creation refused for a known task, a full process
  table or by the identity table changes nothing. Every later failure, of the grants or of the process
  counter, also stores no process but leaves a fresh identity registered for the task.
\<close>

theorem spawn_failure_effects:
  assumes valid: "identity_valid (kt_identities k)" and fail: "spawn task policy k = (Err e, k')"
  shows "dpt_processes (kt_processes k') = dpt_processes (kt_processes k) \<and>
    (if e = DuplicateTask \<or> e = ProcessTableFull \<or> (\<exists>x. e = ServiceIdentity x) then k' = k
     else \<exists>s. task_for (kt_identities k) s = None \<and> task_for (kt_identities k') s = Some task)"
  using fail
proof (cases rule: spawn_cases)
  case (refused e')
  then show ?thesis by auto
next
  case (exhausted s ids)
  then show ?thesis
    using kernel_identities.register_new [OF valid exhausted(1)]
      kernel_identities.register_names [OF valid exhausted(1)] by auto
next
  case (granting s ids n slot r' caps)
  then have "r' = Err e" by simp
  then have "e = NoGrant \<or> e = CapabilityInventoryFull \<or> (\<exists>x. e = Capability x)"
    using granting(5) add_grants_Err by blast
  moreover have "task_for (kt_identities k) s = None" "task_for ids s = Some task"
    using kernel_identities.register_new [OF valid granting(1)]
      kernel_identities.register_names [OF valid granting(1)] by auto
  ultimately show ?thesis using granting(6) \<open>r' = Err e\<close> by auto
qed

text \<open>A kernel whose capability table is full, so that the grant of the policy fails.\<close>

definition full_kernel :: kernel_tables where
  "full_kernel = kernel_start\<lparr>kt_capabilities := \<lparr>ct_entries = replicate 32 (Some \<lparr>ce_holder = 9,
     ce_resource = 9, ce_rights = 1, ce_generation = 1, ce_state = Active\<rparr>)\<rparr>\<rparr>"

lemma full_spawn: "fst (spawn 7 demo_policy full_kernel) = Err (Capability CapabilityTableFull)"
proof -
  have "add_grants demo_policy 0 (process_new 1 7 1) (kt_capabilities full_kernel) =
      (Err (Capability CapabilityTableFull), kt_capabilities full_kernel)"
    unfolding add_grants.simps [of demo_policy 0]
    by (simp add: demo_policy_def full_kernel_def policy_single_def policy_empty_def
       MAX_PROCESS_CAPABILITIES_def process_new_def add_initial_grant_def bindS_def readS_def onS_def
       grant_def grant_with_provenance_def same_grant_def)
  then show ?thesis
    by (simp add: spawn_def full_kernel_def kernel_start_def bindS_def readS_def onS_def modifyS_def
       processes_new_def identity_new_def MAX_DYNAMIC_PROCESSES_def MAX_SERVICES_def register_task_def
       service_record_empty_def checked_add_word_def FIRST_SERVICE_ID_def take_process_id_def has_task_def list_ex_iff)
qed

lemma identity_valid_start: "identity_valid (kt_identities full_kernel)"
  using id_inv_new unfolding identity_valid_def full_kernel_def kernel_start_def by auto

theorem spawn_failure_effects_witness:
  "\<exists>s. task_for (kt_identities full_kernel) s = None \<and>
     task_for (kt_identities (snd (spawn 7 demo_policy full_kernel))) s = Some 7"
  using spawn_failure_effects [OF identity_valid_start, of 7 demo_policy "Capability CapabilityTableFull"] full_spawn
  by (simp add: prod_eq_iff)

text \<open>
  C23. Processes and identities agree. In every run the processes of the table have pairwise different
  process ids, tasks and identities, and the identity of a process names the process's task for as long as the
  identity is not retired; a retired identity names no task.
\<close>

theorem process_identities:
  assumes run: "kernel_run k cs W R"
  shows "slots_apart distinct_processes (dpt_processes (kt_processes k)) \<and>
    (\<forall>p. Some p \<in> set (dpt_processes (kt_processes k)) \<longrightarrow>
       task_for (kt_identities k) (dp_service_id p) = (if dp_service_id p \<in> R then None else Some (dp_task_id p)))"
proof -
  obtain es where inv: "kernel_inv k cs W R es" using kernel_run_inv [OF run] by blast
  note old = kernel_invD [OF inv]
  have "task_for (kt_identities k) (dp_service_id p) = (if dp_service_id p \<in> R then None else Some (dp_task_id p))"
    if p: "Some p \<in> set (dpt_processes (kt_processes k))" for p
  proof -
    obtain policy where c: "(dp_service_id p, dp_task_id p, policy) \<in> set cs"
      using old(7) [OF p] by (auto simp: created_as_def)
    show ?thesis using created_tasks [OF run c] task_for_retired [OF old(1)] by auto
  qed
  then show ?thesis using old(5) by (simp add: process_table_inv_def)
qed

theorem process_identities_witness:
  "task_for (kt_identities demo_kernel) (dp_service_id demo_process) = Some (dp_task_id demo_process)"
  using process_identities [OF demo_run] demo_stored by auto

text \<open>
  Process operations return. Creation under a policy built by the constructors of the source, and the
  use of a capability by a process of a run, end with a value or an error and never index outside an array.
\<close>

lemma process_operations_settled:
  assumes run: "kernel_run k cs W R" and policy: "policy \<in> {policy_empty, policy_single g}"
    and p: "Some p \<in> set (dpt_processes (kt_processes k))"
  shows "settled (fst (spawn task policy k)) \<and> settled (use_capability p (kt_capabilities k) resource rights)"
proof
  show "settled (fst (spawn task policy k))"
  proof -
    obtain r k' where sp: "spawn task policy k = (r, k')" by fastforce
    have "settled r" using sp
    proof (cases rule: spawn_cases)
      case (granting s ids n slot r' caps)
      moreover have "cgp_grant_count policy \<le> length (cgp_grants policy)"
        using policy by (auto simp: policy_single_def policy_empty_def MAX_PROCESS_CAPABILITIES_def)
      ultimately show ?thesis using add_grants_settled by (metis fst_conv)
    qed simp_all
    then show ?thesis by (simp add: sp)
  qed
  obtain es where "kernel_inv k cs W R es" using kernel_run_inv [OF run] by blast
  then have "inventory p es" using p by (rule kernel_invD(6))
  then show "settled (use_capability p (kt_capabilities k) resource rights)"
    unfolding use_capability_def by (intro use_from_settled) (simp add: inventory_def)
qed

end
