(* ===== verification/Ring_Buffer.thy ===== *)
theory Ring_Buffer
  imports Main
begin

text \<open>
  Ring buffers as lists: the slots of a ring in the order that starts at its head, and what storing
  behind the used slots and clearing the head do to that order.
\<close>

definition ring_list :: "'a list \<Rightarrow> nat \<Rightarrow> 'a list" where
  "ring_list q h = map (\<lambda>i. q ! ((h + i) mod length q)) [0..<length q]"

lemma length_ring_list [simp]: "length (ring_list q h) = length q"
  by (simp add: ring_list_def)

lemma ring_list_nth: "i < length q \<Longrightarrow> ring_list q h ! i = q ! ((h + i) mod length q)"
  by (simp add: ring_list_def)

lemma mod_lt: "i < n \<Longrightarrow> k mod n < (n :: nat)"
  by (cases n) simp_all

lemma set_ring_list: "set (ring_list q h) \<subseteq> set q"
proof
  fix x
  assume "x \<in> set (ring_list q h)"
  then obtain i where "i < length q" "x = q ! ((h + i) mod length q)" by (auto simp: ring_list_def)
  then show "x \<in> set q" using mod_lt [of i "length q"] nth_mem by blast
qed

lemma ring_list_head: "h < length q \<Longrightarrow> ring_list q h ! 0 = q ! h"
  by (cases q) (simp_all add: ring_list_nth)

lemma ring_list_replicate [simp]: "ring_list (replicate n x) h = replicate n x"
  by (intro nth_equalityI) (simp_all add: ring_list_nth)

lemma ring_index_inj:
  assumes "i < n" and "j < n" and "(h + i) mod n = (h + j) mod (n :: nat)"
  shows "i = j"
proof -
  have le: "i = j" if "i \<le> j" "i < n" "j < n" "(h + i) mod n = (h + j) mod n" for i j
  proof -
    have "n dvd (h + j) - (h + i)" using that by (metis mod_eq_dvd_iff_nat add_le_cancel_left)
    then have "n dvd j - i" by simp
    then show ?thesis using that by (metis dvd_imp_le diff_is_0_eq le_antisym less_imp_diff_less not_le zero_less_diff)
  qed
  show ?thesis using le [of i j] le [of j i] assms by (metis nat_le_linear)
qed

lemma ring_store:
  assumes "l < length q"
  shows "ring_list (q[(h + l) mod length q := x]) h = (ring_list q h)[l := x]"
proof (intro nth_equalityI)
  fix i
  assume "i < length (ring_list (q[(h + l) mod length q := x]) h)"
  then have i: "i < length q" by simp
  then have bound: "(h + k) mod length q < length q" for k by (intro mod_less_divisor) linarith
  show "ring_list (q[(h + l) mod length q := x]) h ! i = (ring_list q h)[l := x] ! i"
  proof (cases "i = l")
    case True
    then show ?thesis using i bound by (simp add: ring_list_nth)
  next
    case False
    then have "(h + l) mod length q \<noteq> (h + i) mod length q" using ring_index_inj [OF assms i, of h] by blast
    then show ?thesis using False i by (simp add: ring_list_nth)
  qed
qed simp

lemma ring_advance:
  assumes h: "h < length q"
  shows "ring_list (q[h := x]) (Suc h mod length q) = tl (ring_list q h) @ [x]"
proof (intro nth_equalityI)
  fix i
  assume "i < length (ring_list (q[h := x]) (Suc h mod length q))"
  then have i: "i < length q" by simp
  have pos: "(Suc h mod length q + i) mod length q = (h + Suc i) mod length q" by (simp add: mod_simps)
  show "ring_list (q[h := x]) (Suc h mod length q) ! i = (tl (ring_list q h) @ [x]) ! i"
  proof (cases "Suc i = length q")
    case True
    then have "(h + Suc i) mod length q = h" using h by simp
    moreover have "\<not> i < length q - Suc 0" using True by simp
    ultimately show ?thesis using i h True pos by (simp add: ring_list_nth nth_append)
  next
    case False
    then have s: "Suc i < length q" using i by simp
    have "0 < length q" using h by linarith
    then have "(h + Suc i) mod length q \<noteq> (h + 0) mod length q" using ring_index_inj [OF s, of 0 h] by blast
    then have "(h + Suc i) mod length q \<noteq> h" using h by simp
    moreover have "i < length q - Suc 0" using s by simp
    ultimately show ?thesis using i s pos by (simp add: ring_list_nth nth_append nth_tl)
  qed
qed (use h in auto)

text \<open>The slots in use come first: the shape every operation keeps.\<close>

lemma used_store:
  assumes "length ms < n"
  shows "(map Some ms @ replicate (n - length ms) None)[length ms := Some m] =
    map Some (ms @ [m]) @ replicate (n - length (ms @ [m])) None"
  using assms by (cases "n - length ms") (auto simp: list_update_append)

lemma used_advance:
  assumes "Suc (length ms) \<le> n"
  shows "tl (map Some (m # ms) @ replicate (n - length (m # ms)) None) @ [None] =
    map Some ms @ replicate (n - length ms) None"
  using assms by (simp add: Suc_diff_Suc flip: replicate_append_same) (metis Suc_diff_le Suc_le_eq diff_Suc_Suc replicate_Suc replicate_append_same)

end
