(* ===== verification/Kernel_Ipc.thy ===== *)
theory Kernel_Ipc
  imports Kernel_Identity Ring_Buffer
begin

text \<open>
  The fixed IPC channels of \<open>core/src/ipc_channels.rs\<close>: messages with a checksum, and a channel between
  two services whose queue is a ring of two slots. The lemmas show that the ring implements a bounded
  queue, that messages arrive once, unchanged and in order, and what the timed receive computes.
\<close>

section \<open>Messages and channels\<close>

definition MAX_MESSAGE_SIZE :: usize where "MAX_MESSAGE_SIZE = 16"
definition CHANNEL_QUEUE_DEPTH :: usize where "CHANNEL_QUEUE_DEPTH = 2"

datatype IpcError =
    InvalidEndpoint | MessageTooLarge | QueueFull | QueueEmpty | ReplyTimeout | PayloadCorrupt

record IpcMessage =
  im_type_id :: u16
  im_length :: usize
  im_payload :: "u8 list"
  im_checksum :: u32

definition ipc_checksum :: "u8 list \<Rightarrow> u32" where
  "ipc_checksum bytes = fold (\<lambda>byte sum. sum + ucast byte) bytes 0"

definition ipc_message_new :: "u16 \<Rightarrow> u8 list \<Rightarrow> (IpcError, IpcMessage) result" where
  "ipc_message_new type_id bytes =
     bindR (ensure (\<not> MAX_MESSAGE_SIZE < length bytes) MessageTooLarge) (\<lambda>_.
     let payload = bytes @ drop (length bytes) (replicate MAX_MESSAGE_SIZE 0) in
     Ok \<lparr>im_type_id = type_id, im_length = length bytes, im_payload = payload,
         im_checksum = ipc_checksum bytes\<rparr>)"

definition ipc_verify :: "IpcMessage \<Rightarrow> (IpcError, unit) result" where
  "ipc_verify m =
     bindR (ensure (\<not> MAX_MESSAGE_SIZE < im_length m) PayloadCorrupt) (\<lambda>_.
     ensure (\<not> ipc_checksum (take (im_length m) (im_payload m)) \<noteq> im_checksum m) PayloadCorrupt)"

record QueuedMessage =
  qm_from :: ServiceId
  qm_to :: ServiceId
  qm_message :: IpcMessage

record IpcChannel =
  ic_owner :: ServiceId
  ic_peer :: ServiceId
  ic_queue :: "QueuedMessage option list"
  ic_head :: usize
  ic_length :: usize

definition ipc_channel_new :: "ServiceId \<Rightarrow> ServiceId \<Rightarrow> IpcChannel" where
  "ipc_channel_new owner peer =
     \<lparr>ic_owner = owner, ic_peer = peer, ic_queue = replicate CHANNEL_QUEUE_DEPTH None,
      ic_head = 0, ic_length = 0\<rparr>"

definition has_endpoint_pair :: "IpcChannel \<Rightarrow> ServiceId \<Rightarrow> ServiceId \<Rightarrow> bool" where
  "has_endpoint_pair c from to \<longleftrightarrow>
     (from = ic_owner c \<and> to = ic_peer c) \<or> (from = ic_peer c \<and> to = ic_owner c)"

definition ipc_send :: "ServiceId \<Rightarrow> ServiceId \<Rightarrow> IpcMessage \<Rightarrow> (IpcChannel, IpcError, unit) op" where
  "ipc_send from to message =
     bindS (readS (\<lambda>c. ensure (has_endpoint_pair c from to) InvalidEndpoint)) (\<lambda>_.
     bindS (readS (\<lambda>_. ipc_verify message)) (\<lambda>_.
     bindS (readS (\<lambda>c. ensure (\<not> ic_length c = CHANNEL_QUEUE_DEPTH) QueueFull)) (\<lambda>_.
     modifyS (\<lambda>c.
       let tail = (ic_head c + ic_length c) mod CHANNEL_QUEUE_DEPTH in
       c\<lparr>ic_queue := (ic_queue c)[tail := Some \<lparr>qm_from = from, qm_to = to, qm_message = message\<rparr>],
         ic_length := ic_length c + 1\<rparr>))))"

text \<open>
  \<open>length -= 1\<close> is a subtraction that may underflow; the abort it would be is a \<open>Panic\<close> here, and the
  channel invariant excludes it.
\<close>

definition ipc_receive :: "ServiceId \<Rightarrow> (IpcChannel, IpcError, IpcMessage) op" where
  "ipc_receive receiver =
     bindS (readS (\<lambda>c. ensure (\<not> (receiver \<noteq> ic_owner c \<and> receiver \<noteq> ic_peer c)) InvalidEndpoint)) (\<lambda>_.
     bindS (readS (\<lambda>c. if ic_head c < length (ic_queue c)
                       then ok_or (ic_queue c ! ic_head c) QueueEmpty else Panic)) (\<lambda>queued.
     bindS (readS (\<lambda>_. ensure (\<not> qm_to queued \<noteq> receiver) QueueEmpty)) (\<lambda>_.
     bindS (modifyS (\<lambda>c. c\<lparr>ic_queue := (ic_queue c)[ic_head c := None],
                           ic_head := (ic_head c + 1) mod CHANNEL_QUEUE_DEPTH\<rparr>)) (\<lambda>_.
     bindS (readS (\<lambda>c. if ic_length c = 0 then Panic else Ok ())) (\<lambda>_.
     bindS (modifyS (\<lambda>c. c\<lparr>ic_length := ic_length c - 1\<rparr>)) (\<lambda>_.
     bindS (readS (\<lambda>_. ipc_verify (qm_message queued))) (\<lambda>_.
     readS (\<lambda>_. Ok (qm_message queued)))))))))"

fun receive_ticks :: "nat \<Rightarrow> ServiceId \<Rightarrow> (IpcChannel, IpcError, IpcMessage) op" where
  "receive_ticks 0 receiver c = (Err ReplyTimeout, c)"
| "receive_ticks (Suc n) receiver c =
     (case ipc_receive receiver c of
        (Err QueueEmpty, c') \<Rightarrow> receive_ticks n receiver c'
      | (r, c') \<Rightarrow> (r, c'))"

definition receive_reply_or_timeout :: "ServiceId \<Rightarrow> u64 \<Rightarrow> (IpcChannel, IpcError, IpcMessage) op" where
  "receive_reply_or_timeout receiver timeout_ticks = receive_ticks (unat timeout_ticks) receiver"

section \<open>Messages\<close>

lemma ipc_message_new_Ok:
  "ipc_message_new type_id bytes = Ok m \<longleftrightarrow> length bytes \<le> MAX_MESSAGE_SIZE \<and>
     m = \<lparr>im_type_id = type_id, im_length = length bytes,
       im_payload = bytes @ replicate (MAX_MESSAGE_SIZE - length bytes) 0, im_checksum = ipc_checksum bytes\<rparr>"
  by (auto simp: ipc_message_new_def Let_def)

lemma ipc_message_new_verifies: "ipc_message_new type_id bytes = Ok m \<Longrightarrow> ipc_verify m = Ok ()"
  by (auto simp: ipc_message_new_Ok ipc_verify_def)

lemma settled_ipc_verify [simp]: "settled (ipc_verify m)"
  unfolding ipc_verify_def by (intro settled_intros)

lemma ipc_receive_empty: "ipc_receive receiver c = (Err QueueEmpty, c') \<Longrightarrow> c' = c"
  by (auto simp: ipc_receive_def bindS_Err readS_eq modifyS_eq bindS_Ok ipc_verify_def bindR_eq_Err split: if_splits)

section \<open>Bounded queues\<close>

text \<open>
  The queue as the services see it: a list of messages in flight, oldest first, of bounded length.
  A message goes to the end, and only the addressee of the first message may take it.
\<close>

definition spec_send ::
    "ServiceId \<Rightarrow> ServiceId \<Rightarrow> ServiceId \<Rightarrow> ServiceId \<Rightarrow> IpcMessage \<Rightarrow> (QueuedMessage list, IpcError, unit) op" where
  "spec_send owner peer from to m q =
     (if {from, to} \<noteq> {owner, peer} then (Err InvalidEndpoint, q)
      else if ipc_verify m \<noteq> Ok () then (Err PayloadCorrupt, q)
      else if length q = CHANNEL_QUEUE_DEPTH then (Err QueueFull, q)
      else (Ok (), q @ [\<lparr>qm_from = from, qm_to = to, qm_message = m\<rparr>]))"

definition spec_receive :: "ServiceId \<Rightarrow> ServiceId \<Rightarrow> ServiceId \<Rightarrow> (QueuedMessage list, IpcError, IpcMessage) op" where
  "spec_receive owner peer receiver q =
     (if receiver \<notin> {owner, peer} then (Err InvalidEndpoint, q)
      else case q of
        [] \<Rightarrow> (Err QueueEmpty, q)
      | queued # rest \<Rightarrow>
          if qm_to queued = receiver then (Ok (qm_message queued), rest) else (Err QueueEmpty, q))"

lemma settled_spec: "settled (fst (spec_send owner peer from to m q))" "settled (fst (spec_receive owner peer receiver q))"
  by (simp add: spec_send_def, simp add: spec_receive_def split: list.splits)

text \<open>
  The ring holds the messages in flight from the head on and nothing behind them, and every message
  in it passed its check.
\<close>

definition holds :: "IpcChannel \<Rightarrow> QueuedMessage list \<Rightarrow> bool" where
  "holds c q \<longleftrightarrow>
     length (ic_queue c) = CHANNEL_QUEUE_DEPTH \<and> ic_head c < CHANNEL_QUEUE_DEPTH \<and>
     ic_length c = length q \<and> length q \<le> CHANNEL_QUEUE_DEPTH \<and>
     ring_list (ic_queue c) (ic_head c) = map Some q @ replicate (CHANNEL_QUEUE_DEPTH - length q) None \<and>
     (\<forall>m \<in> set q. ipc_verify (qm_message m) = Ok ())"

lemma holds_new: "holds (ipc_channel_new owner peer) []"
  by (simp add: holds_def ipc_channel_new_def CHANNEL_QUEUE_DEPTH_def)

lemma holds_head:
  assumes "holds c q"
  shows "ic_head c < length (ic_queue c)"
    and "ic_queue c ! ic_head c = (case q of [] \<Rightarrow> None | m # _ \<Rightarrow> Some m)"
proof -
  show h: "ic_head c < length (ic_queue c)" using assms by (simp add: holds_def)
  have "ring_list (ic_queue c) (ic_head c) ! 0 = (case q of [] \<Rightarrow> None | m # _ \<Rightarrow> Some m)"
    using assms by (auto simp: holds_def CHANNEL_QUEUE_DEPTH_def split: list.splits)
  then show "ic_queue c ! ic_head c = (case q of [] \<Rightarrow> None | m # _ \<Rightarrow> Some m)"
    by (simp add: ring_list_head [OF h])
qed

lemma holds_store:
  assumes "holds c q" and "length q < CHANNEL_QUEUE_DEPTH" and "ipc_verify (qm_message m) = Ok ()"
  shows "holds (c\<lparr>ic_queue := (ic_queue c)[(ic_head c + ic_length c) mod CHANNEL_QUEUE_DEPTH := Some m],
    ic_length := ic_length c + 1\<rparr>) (q @ [m])"
proof -
  have len: "length (ic_queue c) = CHANNEL_QUEUE_DEPTH" "ic_length c = length q"
    using assms(1) by (simp_all add: holds_def)
  have "ring_list ((ic_queue c)[(ic_head c + length q) mod CHANNEL_QUEUE_DEPTH := Some m]) (ic_head c) =
      map Some (q @ [m]) @ replicate (CHANNEL_QUEUE_DEPTH - length (q @ [m])) None"
    using ring_store [of "length q" "ic_queue c" "ic_head c" "Some m"] assms(1,2) used_store [OF assms(2), of m]
    by (simp add: holds_def len)
  then show ?thesis using assms unfolding holds_def by (simp add: len)
qed

lemma holds_advance:
  assumes "holds c (m # q)"
  shows "holds (c\<lparr>ic_queue := (ic_queue c)[ic_head c := None],
    ic_head := (ic_head c + 1) mod CHANNEL_QUEUE_DEPTH, ic_length := ic_length c - 1\<rparr>) q"
proof -
  have len: "length (ic_queue c) = CHANNEL_QUEUE_DEPTH" "ic_head c < length (ic_queue c)"
      "Suc (length q) \<le> CHANNEL_QUEUE_DEPTH"
    using assms by (simp_all add: holds_def)
  have "ring_list ((ic_queue c)[ic_head c := None]) (Suc (ic_head c) mod CHANNEL_QUEUE_DEPTH) =
      map Some q @ replicate (CHANNEL_QUEUE_DEPTH - length q) None"
    using ring_advance [OF len(2), of None] used_advance [OF len(3), of m] assms by (simp add: holds_def len(1))
  then show ?thesis using assms len unfolding holds_def by (auto simp: CHANNEL_QUEUE_DEPTH_def)
qed

lemma holds_unique:
  assumes "holds c q" and "holds c q'"
  shows "q = q'"
proof -
  have "take (ic_length c) (ring_list (ic_queue c) (ic_head c)) = map Some x" if "holds c x" for x
    using that by (simp add: holds_def)
  from this [OF assms(1)] this [OF assms(2)] show ?thesis by (simp add: inj_map_eq_map)
qed

text \<open>Each operation of the channel is the operation of the queue it holds.\<close>

lemma ipc_send_refines:
  assumes "holds c q" and run: "ipc_send from to m c = (r, c')"
  shows "\<exists>q'. spec_send (ic_owner c) (ic_peer c) from to m q = (r, q') \<and> holds c' q' \<and>
    ic_owner c' = ic_owner c \<and> ic_peer c' = ic_peer c"
proof -
  have len: "ic_length c = length q" using assms(1) by (simp add: holds_def)
  have pair: "has_endpoint_pair c from to \<longleftrightarrow> {from, to} = {ic_owner c, ic_peer c}"
    by (auto simp: has_endpoint_pair_def doubleton_eq_iff)
  have check: "ipc_verify m = Ok () \<or> ipc_verify m = Err PayloadCorrupt" by (auto simp: ipc_verify_def ensure_def)
  let ?bad = "\<not> has_endpoint_pair c from to \<or> ipc_verify m = Err PayloadCorrupt \<or> length q = CHANNEL_QUEUE_DEPTH"
  show ?thesis
  proof (cases ?bad)
    case True
    then have "c' = c" "spec_send (ic_owner c) (ic_peer c) from to m q = (r, q)"
      using run check unfolding ipc_send_def spec_send_def pair [symmetric]
      by (auto simp: bindS_def readS_def ensure_def len pair split: if_splits)
    then show ?thesis using assms(1) by simp
  next
    case False
    let ?m = "\<lparr>qm_from = from, qm_to = to, qm_message = m\<rparr>"
    have "length q < CHANNEL_QUEUE_DEPTH" using False assms(1) by (simp add: holds_def)
    moreover have v: "ipc_verify m = Ok ()" using False check by blast
    ultimately have "holds (c\<lparr>ic_queue := (ic_queue c)[(ic_head c + ic_length c) mod CHANNEL_QUEUE_DEPTH := Some ?m],
        ic_length := ic_length c + 1\<rparr>) (q @ [?m])" by (intro holds_store [OF assms(1)]) simp_all
    moreover have "spec_send (ic_owner c) (ic_peer c) from to m q = (Ok (), q @ [?m])"
      using False v pair unfolding spec_send_def by simp
    ultimately show ?thesis
      using run False v by (auto simp: ipc_send_def bindS_def readS_def modifyS_def len Let_def)
  qed
qed

lemma ipc_receive_refines:
  assumes "holds c q" and run: "ipc_receive receiver c = (r, c')"
  shows "\<exists>q'. spec_receive (ic_owner c) (ic_peer c) receiver q = (r, q') \<and> holds c' q' \<and>
    ic_owner c' = ic_owner c \<and> ic_peer c' = ic_peer c"
proof (cases q)
  case Nil
  then show ?thesis
    using assms holds_head [OF assms(1)] unfolding ipc_receive_def spec_receive_def
    by (auto simp: bindS_def readS_def modifyS_def ensure_def split: if_splits)
next
  case (Cons m rest)
  have "ipc_verify (qm_message m) = Ok ()" "ic_length c \<noteq> 0" using assms(1) by (simp_all add: holds_def Cons)
  then show ?thesis
    using assms holds_head [OF assms(1)] holds_advance [OF assms(1) [unfolded Cons]]
    unfolding ipc_receive_def spec_receive_def Cons
    by (auto simp: bindS_def readS_def modifyS_def ensure_def Cons split: if_splits)
qed


text \<open>
  What two services rely on: the messages in flight are a bounded queue, a send appends to it or changes
  nothing, and a receive takes the first message, addressed to the receiver, or changes nothing.
\<close>

locale mailbox =
  fixes send :: "ServiceId \<Rightarrow> ServiceId \<Rightarrow> IpcMessage \<Rightarrow> ('c, IpcError, unit) op"
    and receive :: "ServiceId \<Rightarrow> ('c, IpcError, IpcMessage) op"
    and flight :: "'c \<Rightarrow> QueuedMessage list \<Rightarrow> bool"
    and depth :: nat
  assumes flight_bounded: "flight c q \<Longrightarrow> length q \<le> depth"
    and send_flight: "flight c q \<Longrightarrow> send from to m c = (r, c') \<Longrightarrow>
      flight c' (if r = Ok () then q @ [\<lparr>qm_from = from, qm_to = to, qm_message = m\<rparr>] else q)"
    and receive_flight: "flight c q \<Longrightarrow> receive to c = (Ok m, c') \<Longrightarrow>
      \<exists>from q'. q = \<lparr>qm_from = from, qm_to = to, qm_message = m\<rparr> # q' \<and> flight c' q'"
    and receive_fails: "flight c q \<Longrightarrow> receive to c = (res, c') \<Longrightarrow> (\<And>m. res \<noteq> Ok m) \<Longrightarrow> flight c' q"

text \<open>A sequence of sends and receives, with the messages accepted and the messages delivered.\<close>

datatype mail_op = Send ServiceId ServiceId IpcMessage | Receive ServiceId

fun mail_run ::
    "(ServiceId \<Rightarrow> ServiceId \<Rightarrow> IpcMessage \<Rightarrow> ('c, IpcError, unit) op) \<Rightarrow>
     (ServiceId \<Rightarrow> ('c, IpcError, IpcMessage) op) \<Rightarrow> mail_op list \<Rightarrow> 'c \<Rightarrow>
     QueuedMessage list \<times> (ServiceId \<times> IpcMessage) list \<times> 'c" where
  "mail_run send receive [] c = ([], [], c)"
| "mail_run send receive (Send from to m # ops) c =
     (case send from to m c of
        (r, c') \<Rightarrow> (case mail_run send receive ops c' of
          (sent, received, c'') \<Rightarrow>
            (if r = Ok () then \<lparr>qm_from = from, qm_to = to, qm_message = m\<rparr> # sent else sent, received, c'')))"
| "mail_run send receive (Receive to # ops) c =
     (case receive to c of
        (r, c') \<Rightarrow> (case mail_run send receive ops c' of
          (sent, received, c'') \<Rightarrow> (sent, (case r of Ok m \<Rightarrow> (to, m) # received | _ \<Rightarrow> received), c'')))"

definition addressed :: "QueuedMessage \<Rightarrow> ServiceId \<times> IpcMessage" where
  "addressed m = (qm_to m, qm_message m)"

context mailbox
begin

lemma delivery:
  assumes "flight c q" and "mail_run send receive ops c = (sent, received, c')"
  shows "\<exists>q'. flight c' q' \<and> map addressed (q @ sent) = received @ map addressed q'"
  using assms
proof (induction ops arbitrary: c q sent received)
  case Nil
  then show ?case by auto
next
  case (Cons x ops)
  show ?case
  proof (cases x)
    case (Send src dst m)
    obtain r c1 where s: "send src dst m c = (r, c1)" by fastforce
    obtain sent1 where rest: "mail_run send receive ops c1 = (sent1, received, c')"
      and sent: "sent = (if r = Ok () then \<lparr>qm_from = src, qm_to = dst, qm_message = m\<rparr> # sent1 else sent1)"
      using Cons.prems(2) s by (auto simp: Send split: prod.splits)
    show ?thesis using Cons.IH [OF send_flight [OF Cons.prems(1) s] rest] by (simp add: sent split: if_splits)
  next
    case (Receive to)
    obtain r c1 where s: "receive to c = (r, c1)" by fastforce
    obtain received1 where rest: "mail_run send receive ops c1 = (sent, received1, c')"
      and received: "received = (case r of Ok m \<Rightarrow> (to, m) # received1 | _ \<Rightarrow> received1)"
      using Cons.prems(2) s by (auto simp: Receive split: prod.splits)
    show ?thesis
    proof (cases "\<exists>m. r = Ok m")
      case True
      then obtain m where m: "r = Ok m" by blast
      obtain src q1 where q: "q = \<lparr>qm_from = src, qm_to = to, qm_message = m\<rparr> # q1" and f: "flight c1 q1"
        using receive_flight [OF Cons.prems(1) s [unfolded m]] by blast
      show ?thesis using Cons.IH [OF f rest] by (simp add: q received m addressed_def)
    next
      case False
      then have "received = received1" by (simp add: received split: result.splits)
      then show ?thesis using Cons.IH [OF receive_fails [OF Cons.prems(1) s] rest] False by auto
    qed
  qed
qed

end

lemma queued_from: "qm_to x = t \<Longrightarrow> \<exists>src. x = \<lparr>qm_from = src, qm_to = t, qm_message = qm_message x\<rparr>"
  by (cases x) auto

interpretation ipc_mailbox: mailbox ipc_send ipc_receive holds CHANNEL_QUEUE_DEPTH
proof
  show "length q \<le> CHANNEL_QUEUE_DEPTH" if "holds c q" for c q using that by (simp add: holds_def)
  show "holds c' (if r = Ok () then q @ [\<lparr>qm_from = src, qm_to = dst, qm_message = m\<rparr>] else q)"
    if "holds c q" "ipc_send src dst m c = (r, c')" for c q src dst m r c'
    using ipc_send_refines [OF that] by (auto simp: spec_send_def split: if_splits)
  show "\<exists>from q'. q = \<lparr>qm_from = from, qm_to = to, qm_message = m\<rparr> # q' \<and> holds c' q'"
    if "holds c q" "ipc_receive to c = (Ok m, c')" for c q to m c'
    using ipc_receive_refines [OF that] queued_from
    by (auto simp: spec_receive_def split: if_splits list.splits)
  show "holds c' q" if "holds c q" "ipc_receive to c = (r, c')" "\<And>m. r \<noteq> Ok m" for c q to r c'
    using ipc_receive_refines [OF that(1,2)] that(3)
    by (auto simp: spec_receive_def split: if_splits list.splits)
qed

section \<open>Properties\<close>

text \<open>
  C25. The ring is a bounded queue. On a channel that holds a queue of checked messages, sending and
  receiving give the results of the queue operations on every branch, leave a channel that holds the
  resulting queue, and do not abort.
\<close>

theorem ipc_refines_queue:
  assumes "holds c q"
  shows "(\<exists>q'. spec_send (ic_owner c) (ic_peer c) from to m q = (fst (ipc_send from to m c), q') \<and>
      holds (snd (ipc_send from to m c)) q') \<and>
    (\<exists>q'. spec_receive (ic_owner c) (ic_peer c) receiver q = (fst (ipc_receive receiver c), q') \<and>
      holds (snd (ipc_receive receiver c)) q') \<and>
    settled (fst (ipc_send from to m c)) \<and> settled (fst (ipc_receive receiver c))"
proof -
  obtain rs cs where s: "ipc_send from to m c = (rs, cs)" by fastforce
  obtain rr cr where r: "ipc_receive receiver c = (rr, cr)" by fastforce
  obtain qs where qs: "spec_send (ic_owner c) (ic_peer c) from to m q = (rs, qs)" "holds cs qs"
    using ipc_send_refines [OF assms s] by blast
  obtain qr where qr: "spec_receive (ic_owner c) (ic_peer c) receiver q = (rr, qr)" "holds cr qr"
    using ipc_receive_refines [OF assms r] by blast
  have "settled rs" "settled rr" using settled_spec qs(1) qr(1) by (metis fst_conv)+
  then show ?thesis using qs qr by (simp add: s r)
qed

definition demo_message :: IpcMessage where
  "demo_message = \<lparr>im_type_id = 1, im_length = 2, im_payload = [80, 89] @ replicate 14 0, im_checksum = 169\<rparr>"

lemma demo_message_new: "ipc_message_new 1 [80, 89] = Ok demo_message"
  by (simp add: ipc_message_new_Ok demo_message_def MAX_MESSAGE_SIZE_def ipc_checksum_def)

theorem ipc_refines_queue_witness:
  "holds (snd (ipc_send 1 2 demo_message (ipc_channel_new 1 2))) [\<lparr>qm_from = 1, qm_to = 2, qm_message = demo_message\<rparr>]"
  using ipc_refines_queue [OF holds_new [of 1 2], of 1 2 demo_message] ipc_message_new_verifies [OF demo_message_new]
  by (auto simp: spec_send_def ipc_channel_new_def CHANNEL_QUEUE_DEPTH_def)

text \<open>
  C26. Delivery. In every sequence of sends and receives on a new channel, the messages delivered are
  the messages accepted, in the order of acceptance and each to its addressee; those not delivered yet
  are the at most two messages in flight. No message is lost, duplicated, reordered or changed.
\<close>

theorem ipc_delivery:
  assumes "mail_run ipc_send ipc_receive ops (ipc_channel_new owner peer) = (sent, received, c)"
  shows "\<exists>q. holds c q \<and> length q \<le> CHANNEL_QUEUE_DEPTH \<and> map addressed sent = received @ map addressed q"
  using ipc_mailbox.delivery [OF holds_new assms] ipc_mailbox.flight_bounded by auto

theorem ipc_delivery_witness:
  "\<exists>c q. mail_run ipc_send ipc_receive [Send 1 2 demo_message, Receive 1, Receive 2] (ipc_channel_new 1 2) =
       ([\<lparr>qm_from = 1, qm_to = 2, qm_message = demo_message\<rparr>], [(2, demo_message)], c) \<and> holds c q \<and>
     [(2, demo_message)] = [(2, demo_message)] @ map addressed q"
proof -
  have v: "ipc_verify demo_message = Ok ()" by (rule ipc_message_new_verifies [OF demo_message_new])
  obtain sent received c where run: "mail_run ipc_send ipc_receive [Send 1 2 demo_message, Receive 1, Receive 2]
      (ipc_channel_new 1 2) = (sent, received, c)" using prod_cases3 by blast
  then have "sent = [\<lparr>qm_from = 1, qm_to = 2, qm_message = demo_message\<rparr>]" "received = [(2, demo_message)]"
    using v by (auto simp: ipc_send_def ipc_receive_def bindS_def readS_def modifyS_def has_endpoint_pair_def
        ipc_channel_new_def CHANNEL_QUEUE_DEPTH_def)
  then show ?thesis using ipc_delivery [OF run] run by (auto simp: addressed_def)
qed

text \<open>
  The timed receive is one poll. The loop of \<open>receive_reply_or_timeout\<close> returns after at most
  one receive that changes the channel: with no ticks it times out, and otherwise it is a single receive
  in which an empty queue is reported as a timeout.
\<close>

lemma receive_reply_or_timeout_eq:
  "receive_reply_or_timeout receiver ticks c =
    (if ticks = 0 then (Err ReplyTimeout, c)
     else case ipc_receive receiver c of (Err QueueEmpty, _) \<Rightarrow> (Err ReplyTimeout, c) | (r, c') \<Rightarrow> (r, c'))"
proof -
  have poll: "receive_ticks (Suc n) receiver c =
      (case ipc_receive receiver c of (Err QueueEmpty, _) \<Rightarrow> (Err ReplyTimeout, c) | (r, c') \<Rightarrow> (r, c'))" for n
  proof (induction n)
    case 0
    then show ?case
      using ipc_receive_empty [of receiver c] by (auto split: prod.splits result.splits IpcError.splits)
  next
    case (Suc n)
    then show ?case
      using ipc_receive_empty [of receiver c] unfolding receive_ticks.simps(2) [of "Suc n"]
      by (auto split: prod.splits result.splits IpcError.splits)
  qed
  show ?thesis
  proof (cases "ticks = 0")
    case False
    then obtain n where "unat ticks = Suc n" by (metis not0_implies_Suc unat_eq_zero)
    then show ?thesis using False poll by (simp add: receive_reply_or_timeout_def)
  qed (simp add: receive_reply_or_timeout_def)
qed

end
