(* ===== verification/Kernel_Quotas.thy ===== *)
theory Kernel_Quotas
  imports Kernel_Identity
begin

text \<open>
  Service quotas: pages and processor ticks of \<open>core/src/resource_quotas.rs\<close> and storage blocks of
  \<open>core/src/storage_quotas.rs\<close>. The three tables share one shape and one contract, an account with a
  limit for each registered service; the contract is a locale and the three tables are its instances.
\<close>

section \<open>Tables of quota records\<close>

text \<open>
  \<open>MemoryQuotaRecord\<close>, \<open>CpuQuotaRecord\<close> and \<open>StorageQuotaRecord\<close> have the same four fields, with
  \<open>max\<close> and \<open>used\<close> counting pages, ticks and blocks.
\<close>

record QuotaRecord =
  qr_service_id :: ServiceId
  qr_max :: u64
  qr_used :: u64
  qr_active :: bool

type_synonym QuotaTable = "QuotaRecord list"

definition quota_record_empty :: QuotaRecord where
  "quota_record_empty =
     \<lparr>qr_service_id = INVALID_SERVICE_ID, qr_max = 0, qr_used = 0, qr_active = False\<rparr>"

definition quota_of :: "ServiceId \<Rightarrow> QuotaRecord \<Rightarrow> bool" where
  "quota_of service_id record \<longleftrightarrow> qr_active record \<and> qr_service_id record = service_id"

definition quota_register :: "'e \<Rightarrow> 'e \<Rightarrow> ServiceId \<Rightarrow> u64 \<Rightarrow> (QuotaTable, 'e, unit) op" where
  "quota_register duplicate full service_id limit =
     bindS (readS (\<lambda>t. ensure (\<not> list_ex (quota_of service_id) t) duplicate)) (\<lambda>_.
     bindS (readS (\<lambda>t. ok_or (position (\<lambda>record. \<not> qr_active record) t) full)) (\<lambda>i.
     modifyS (\<lambda>t. t[i := \<lparr>qr_service_id = service_id, qr_max = limit, qr_used = 0, qr_active = True\<rparr>])))"

definition quota_charge :: "'e \<Rightarrow> 'e \<Rightarrow> 'e \<Rightarrow> ServiceId \<Rightarrow> u64 \<Rightarrow> (QuotaTable, 'e, unit) op" where
  "quota_charge unknown overflow exceeded service_id amount =
     bindS (readS (\<lambda>t. ok_or (position (quota_of service_id) t) unknown)) (\<lambda>i.
     bindS (readS (\<lambda>t. ok_or (checked_add_word (qr_used (t ! i)) amount) overflow)) (\<lambda>next_used.
     bindS (readS (\<lambda>t. ensure (\<not> qr_max (t ! i) < next_used) exceeded)) (\<lambda>_.
     modifyS (\<lambda>t. t[i := (t ! i)\<lparr>qr_used := next_used\<rparr>]))))"

definition quota_used :: "'e \<Rightarrow> QuotaTable \<Rightarrow> ServiceId \<Rightarrow> ('e, u64) result" where
  "quota_used unknown t service_id =
     ok_or (map_option (\<lambda>i. qr_used (t ! i)) (position (quota_of service_id) t)) unknown"

section \<open>Memory and processor quotas\<close>

definition MAX_QUOTA_RECORDS :: usize where "MAX_QUOTA_RECORDS = 4"

datatype QuotaError =
    QuotaTableFull | QuotaUnknownService | MemoryQuotaExceeded | CpuQuotaExceeded | QuotaCounterOverflow
  | IdentityRegistrationFailed

definition memory_quota_new :: QuotaTable where
  "memory_quota_new = replicate MAX_QUOTA_RECORDS quota_record_empty"

definition memory_register :: "ServiceId \<Rightarrow> u64 \<Rightarrow> (QuotaTable, QuotaError, unit) op" where
  "memory_register = quota_register QuotaTableFull QuotaTableFull"

definition charge_pages :: "ServiceId \<Rightarrow> u64 \<Rightarrow> (QuotaTable, QuotaError, unit) op" where
  "charge_pages = quota_charge QuotaUnknownService QuotaCounterOverflow MemoryQuotaExceeded"

definition used_pages :: "QuotaTable \<Rightarrow> ServiceId \<Rightarrow> (QuotaError, u64) result" where
  "used_pages = quota_used QuotaUnknownService"

definition cpu_quota_new :: QuotaTable where
  "cpu_quota_new = replicate MAX_QUOTA_RECORDS quota_record_empty"

definition cpu_register :: "ServiceId \<Rightarrow> u64 \<Rightarrow> (QuotaTable, QuotaError, unit) op" where
  "cpu_register = quota_register QuotaTableFull QuotaTableFull"

definition charge_tick :: "ServiceId \<Rightarrow> (QuotaTable, QuotaError, unit) op" where
  "charge_tick service_id = quota_charge QuotaUnknownService QuotaCounterOverflow CpuQuotaExceeded service_id 1"

definition used_ticks :: "QuotaTable \<Rightarrow> ServiceId \<Rightarrow> (QuotaError, u64) result" where
  "used_ticks = quota_used QuotaUnknownService"

section \<open>Storage quotas\<close>

definition MAX_STORAGE_QUOTAS :: usize where "MAX_STORAGE_QUOTAS = 4"

datatype StorageQuotaError =
    StorageTableFull | DuplicateService | StorageUnknownService | StorageQuotaExceeded
  | StorageCounterOverflow | StorageIdentity ServiceIdentityError

definition storage_quota_new :: QuotaTable where
  "storage_quota_new = replicate MAX_STORAGE_QUOTAS quota_record_empty"

definition storage_register :: "ServiceId \<Rightarrow> u64 \<Rightarrow> (QuotaTable, StorageQuotaError, unit) op" where
  "storage_register = quota_register DuplicateService StorageTableFull"

definition charge_blocks :: "ServiceId \<Rightarrow> u64 \<Rightarrow> (QuotaTable, StorageQuotaError, unit) op" where
  "charge_blocks = quota_charge StorageUnknownService StorageCounterOverflow StorageQuotaExceeded"

definition ensure_minimum_limit :: "ServiceId \<Rightarrow> u64 \<Rightarrow> (QuotaTable, StorageQuotaError, unit) op" where
  "ensure_minimum_limit service_id min_blocks =
     bindS (readS (\<lambda>t. ok_or (position (quota_of service_id) t) StorageUnknownService)) (\<lambda>i.
     modifyS (\<lambda>t. if qr_max (t ! i) < min_blocks then t[i := (t ! i)\<lparr>qr_max := min_blocks\<rparr>] else t))"

definition checked_sub_word :: "'w::len word \<Rightarrow> 'w word \<Rightarrow> 'w word option" where
  "checked_sub_word a b = (if b \<le> a then Some (a - b) else None)"

definition release_blocks :: "ServiceId \<Rightarrow> u64 \<Rightarrow> (QuotaTable, StorageQuotaError, unit) op" where
  "release_blocks service_id blocks =
     bindS (readS (\<lambda>t. ok_or (position (quota_of service_id) t) StorageUnknownService)) (\<lambda>i.
     bindS (readS (\<lambda>t. ok_or (checked_sub_word (qr_used (t ! i)) blocks) StorageCounterOverflow)) (\<lambda>used.
     modifyS (\<lambda>t. t[i := (t ! i)\<lparr>qr_used := used\<rparr>])))"

definition used_blocks :: "QuotaTable \<Rightarrow> ServiceId \<Rightarrow> (StorageQuotaError, u64) result" where
  "used_blocks = quota_used StorageUnknownService"

section \<open>Accounts\<close>

text \<open>
  A quota table as its services see it: for each registered service the limit and the use. The
  invariant has one record for each registered service and no use above its limit.
\<close>

type_synonym account_map = "ServiceId \<Rightarrow> (nat \<times> nat) option"

definition accounts_of :: "QuotaTable \<Rightarrow> account_map" where
  "accounts_of t s =
     map_option (\<lambda>i. (unat (qr_max (t ! i)), unat (qr_used (t ! i)))) (position (quota_of s) t)"

definition quota_inv :: "QuotaTable \<Rightarrow> bool" where
  "quota_inv t \<longleftrightarrow>
     (\<forall>i < length t. \<forall>j < length t. qr_active (t ! i) \<longrightarrow> qr_active (t ! j) \<longrightarrow>
        qr_service_id (t ! i) = qr_service_id (t ! j) \<longrightarrow> i = j) \<and>
     (\<forall>i < length t. qr_active (t ! i) \<longrightarrow> qr_used (t ! i) \<le> qr_max (t ! i))"

lemma quota_position:
  assumes "quota_inv t" and "i < length t" and "quota_of s (t ! i)"
  shows "position (quota_of s) t = Some i"
proof (rule position_unique)
  show "i < length t" "quota_of s (t ! i)" by (rule assms)+
  show "j = i" if "j < length t" "quota_of s (t ! j)" for j
    using assms that unfolding quota_inv_def quota_of_def by blast
qed

lemma accounts_of_Some:
  assumes "quota_inv t" and "i < length t" and "quota_of s (t ! i)"
  shows "accounts_of t s = Some (unat (qr_max (t ! i)), unat (qr_used (t ! i)))"
  by (simp add: accounts_of_def quota_position [OF assms])

lemma accounts_of_None: "accounts_of t s = None \<longleftrightarrow> (\<forall>i < length t. \<not> quota_of s (t ! i))"
  by (simp add: accounts_of_def position_None all_set_conv_all_nth)

text \<open>Replacing one record of a service, or an inactive record, by a record of that service.\<close>

lemma quota_store:
  assumes inv: "quota_inv t" and i: "i < length t" and r: "quota_of s r" "qr_used r \<le> qr_max r"
    and free: "quota_of s (t ! i) \<or> (\<not> qr_active (t ! i) \<and> accounts_of t s = None)"
  shows "quota_inv (t[i := r]) \<and>
    accounts_of (t[i := r]) = (accounts_of t)(s \<mapsto> (unat (qr_max r), unat (qr_used r)))"
proof -
  have other: "\<not> quota_of s (t ! j)" if "j < length t" "j \<noteq> i" for j
  proof (cases "quota_of s (t ! i)")
    case True
    then show ?thesis using inv that i unfolding quota_inv_def quota_of_def by blast
  next
    case False
    then show ?thesis using free that(1) by (simp add: accounts_of_None)
  qed
  have keep: "quota_of s' (t ! j) \<longleftrightarrow> quota_of s' (t[i := r] ! j)" if "s' \<noteq> s" "j < length t" for s' j
    using that r free by (cases "j = i") (auto simp: quota_of_def)
  have inv': "quota_inv (t[i := r])"
    unfolding quota_inv_def length_list_update
  proof (intro conjI allI impI)
    fix j k
    assume "j < length t" "k < length t" "qr_active (t[i := r] ! j)" "qr_active (t[i := r] ! k)"
      "qr_service_id (t[i := r] ! j) = qr_service_id (t[i := r] ! k)"
    then show "j = k"
      using inv r other i unfolding quota_inv_def quota_of_def
      by (cases "j = i"; cases "k = i") (auto simp: nth_list_update)
  next
    fix j
    assume "j < length t" "qr_active (t[i := r] ! j)"
    then show "qr_used (t[i := r] ! j) \<le> qr_max (t[i := r] ! j)"
      using inv r(2) unfolding quota_inv_def by (cases "j = i") auto
  qed
  have "accounts_of (t[i := r]) s' = ((accounts_of t)(s \<mapsto> (unat (qr_max r), unat (qr_used r)))) s'" for s'
  proof (cases "s' = s")
    case True
    have "quota_of s (t[i := r] ! i)" using i r by simp
    then show ?thesis using accounts_of_Some [OF inv', of i s] i True by simp
  next
    case False
    show ?thesis
    proof (cases "\<exists>j < length t. quota_of s' (t ! j)")
      case True
      then obtain j where j: "j < length t" "quota_of s' (t ! j)" by blast
      then have "t[i := r] ! j = t ! j" using keep [OF False j(1)] r False
        by (cases "j = i") (auto simp: quota_of_def)
      then show ?thesis
        using accounts_of_Some [OF inv j] accounts_of_Some [OF inv', of j s'] j False by simp
    next
      case none: False
      then have "accounts_of t s' = None" "accounts_of (t[i := r]) s' = None"
        using keep [OF False] by (auto simp: accounts_of_None)
      then show ?thesis using False by simp
    qed
  qed
  then show ?thesis using inv' by blast
qed


text \<open>The operations on accounts.\<close>

definition spec_register :: "'e \<Rightarrow> 'e \<Rightarrow> nat \<Rightarrow> ServiceId \<Rightarrow> u64 \<Rightarrow> (account_map, 'e, unit) op" where
  "spec_register duplicate full slots s limit A =
     (if s \<in> dom A then (Err duplicate, A)
      else if card (dom A) = slots then (Err full, A)
      else (Ok (), A(s \<mapsto> (unat limit, 0))))"

definition spec_charge :: "'e \<Rightarrow> 'e \<Rightarrow> 'e \<Rightarrow> ServiceId \<Rightarrow> u64 \<Rightarrow> (account_map, 'e, unit) op" where
  "spec_charge unknown overflow exceeded s amount A =
     (case A s of
        None \<Rightarrow> (Err unknown, A)
      | Some (limit, use) \<Rightarrow>
          if 2 ^ 64 \<le> use + unat amount then (Err overflow, A)
          else if limit < use + unat amount then (Err exceeded, A)
          else (Ok (), A(s \<mapsto> (limit, use + unat amount))))"

definition spec_release :: "'e \<Rightarrow> 'e \<Rightarrow> ServiceId \<Rightarrow> u64 \<Rightarrow> (account_map, 'e, unit) op" where
  "spec_release unknown underflow s amount A =
     (case A s of
        None \<Rightarrow> (Err unknown, A)
      | Some (limit, use) \<Rightarrow>
          if use < unat amount then (Err underflow, A)
          else (Ok (), A(s \<mapsto> (limit, use - unat amount))))"

definition spec_raise :: "'e \<Rightarrow> ServiceId \<Rightarrow> u64 \<Rightarrow> (account_map, 'e, unit) op" where
  "spec_raise unknown s minimum A =
     (case A s of
        None \<Rightarrow> (Err unknown, A)
      | Some (limit, use) \<Rightarrow> (Ok (), A(s \<mapsto> (max limit (unat minimum), use))))"

definition valid_quotas :: "nat \<Rightarrow> QuotaTable \<Rightarrow> bool" where
  "valid_quotas slots t \<longleftrightarrow> length t = slots \<and> quota_inv t"

lemma card_accounts:
  assumes "quota_inv t"
  shows "card (dom (accounts_of t)) = card {i. i < length t \<and> qr_active (t ! i)}"
proof -
  have "dom (accounts_of t) = (\<lambda>i. qr_service_id (t ! i)) ` {i. i < length t \<and> qr_active (t ! i)}"
    unfolding dom_def accounts_of_None by (auto simp: quota_of_def)
  moreover have "inj_on (\<lambda>i. qr_service_id (t ! i)) {i. i < length t \<and> qr_active (t ! i)}"
    using assms unfolding quota_inv_def inj_on_def by blast
  ultimately show ?thesis by (simp add: card_image)
qed

lemma quotas_full:
  assumes "quota_inv t"
  shows "position (\<lambda>r. \<not> qr_active r) t = None \<longleftrightarrow> card (dom (accounts_of t)) = length t"
proof -
  let ?A = "{i. i < length t \<and> qr_active (t ! i)}"
  have sub: "?A \<subseteq> {..<length t}" by auto
  have "card ?A = length t \<longleftrightarrow> ?A = {..<length t}"
  proof
    assume "card ?A = length t"
    then show "?A = {..<length t}" by (intro card_subset_eq [OF _ sub]) simp_all
  qed (metis card_lessThan)
  moreover have "position (\<lambda>r. \<not> qr_active r) t = None \<longleftrightarrow> (\<forall>i < length t. qr_active (t ! i))"
    by (simp add: position_None all_set_conv_all_nth)
  moreover have "(\<forall>i < length t. qr_active (t ! i)) \<longleftrightarrow> ?A = {..<length t}" by auto
  ultimately show ?thesis by (simp only: card_accounts [OF assms])
qed

lemma valid_quotas_new: "valid_quotas n (replicate n quota_record_empty)"
  by (simp add: valid_quotas_def quota_inv_def quota_record_empty_def)

lemma quota_known:
  assumes "position (quota_of s) t = Some i" and "quota_inv t"
  shows "i < length t" and "quota_of s (t ! i)" and "qr_used (t ! i) \<le> qr_max (t ! i)"
    and "accounts_of t s = Some (unat (qr_max (t ! i)), unat (qr_used (t ! i)))"
  using assms by (auto simp: position_Some accounts_of_def quota_inv_def quota_of_def)

lemma quota_used_account:
  "quota_inv t \<Longrightarrow> quota_used unknown t s = (case accounts_of t s of None \<Rightarrow> Err unknown | Some (_, use) \<Rightarrow> Ok (of_nat use))"
  by (simp add: quota_used_def accounts_of_def ok_or_def split: option.splits)

lemma quota_update:
  assumes "position (quota_of s) t = Some i" and "valid_quotas n t"
    and "quota_of s r" and "qr_used r \<le> qr_max r"
  shows "valid_quotas n (t[i := r]) \<and>
    accounts_of (t[i := r]) = (accounts_of t)(s \<mapsto> (unat (qr_max r), unat (qr_used r)))"
proof -
  have inv: "quota_inv t" using assms(2) by (simp add: valid_quotas_def)
  show ?thesis
    using quota_store [OF inv quota_known(1) [OF assms(1) inv] assms(3,4)] quota_known(2) [OF assms(1) inv] assms(2)
    by (simp add: valid_quotas_def)
qed

lemma register_refines:
  "refines (valid_quotas n) accounts_of (quota_register duplicate full s limit) (spec_register duplicate full n s limit)"
proof (rule refinesI)
  fix t r t'
  assume v: "valid_quotas n t" and run: "quota_register duplicate full s limit t = (r, t')"
  then have inv: "quota_inv t" and n: "length t = n" by (simp_all add: valid_quotas_def)
  have known: "list_ex (quota_of s) t \<longleftrightarrow> s \<in> dom (accounts_of t)"
    unfolding dom_def mem_Collect_eq accounts_of_None by (auto simp: list_ex_length)
  show "valid_quotas n t' \<and> spec_register duplicate full n s limit (accounts_of t) = (r, accounts_of t')"
  proof (cases "list_ex (quota_of s) t")
    case True
    then show ?thesis
      using run v known by (simp add: quota_register_def bindS_def readS_def spec_register_def)
  next
    case new: False
    show ?thesis
    proof (cases "position (\<lambda>r. \<not> qr_active r) t")
      case None
      then show ?thesis
        using run v new known quotas_full [OF inv] n by (simp add: quota_register_def bindS_def readS_def spec_register_def)
    next
      case (Some i)
      let ?r = "\<lparr>qr_service_id = s, qr_max = limit, qr_used = 0, qr_active = True\<rparr>"
      have "i < length t" "\<not> qr_active (t ! i)" using Some by (simp_all add: position_Some)
      moreover have "accounts_of t s = None" using new known by auto
      ultimately have "quota_inv (t[i := ?r])" "accounts_of (t[i := ?r]) = (accounts_of t)(s \<mapsto> (unat limit, 0))"
        using quota_store [OF inv, of i s ?r] by (simp_all add: quota_of_def)
      moreover have "card (dom (accounts_of t)) \<noteq> n" using quotas_full [OF inv] Some n by simp
      ultimately show ?thesis
        using run new known Some n
        by (auto simp: quota_register_def bindS_def readS_def modifyS_def spec_register_def valid_quotas_def)
    qed
  qed
qed


lemma charge_refines:
  "refines (valid_quotas n) accounts_of (quota_charge unknown overflow exceeded s amount)
     (spec_charge unknown overflow exceeded s amount)"
proof (rule refinesI)
  fix t r t'
  assume v: "valid_quotas n t" and run: "quota_charge unknown overflow exceeded s amount t = (r, t')"
  then have inv: "quota_inv t" by (simp add: valid_quotas_def)
  show "valid_quotas n t' \<and> spec_charge unknown overflow exceeded s amount (accounts_of t) = (r, accounts_of t')"
  proof (cases "position (quota_of s) t")
    case None
    then show ?thesis
      using run v by (simp add: quota_charge_def bindS_def readS_def spec_charge_def accounts_of_def)
  next
    case (Some i)
    note known = quota_known [OF Some inv]
    let ?sum = "unat (qr_used (t ! i)) + unat amount"
    show ?thesis
    proof (cases "?sum < 2 ^ 64 \<and> ?sum \<le> unat (qr_max (t ! i))")
      case True
      let ?next = "qr_used (t ! i) + amount"
      have add: "checked_add_word (qr_used (t ! i)) amount = Some ?next" "unat ?next = ?sum"
        using True by (simp_all add: checked_add_word_def unat_word_ariths)
      have le: "?next \<le> qr_max (t ! i)" using True add(2) by (simp add: word_le_nat_alt)
      have up: "valid_quotas n (t[i := (t ! i)\<lparr>qr_used := ?next\<rparr>]) \<and>
          accounts_of (t[i := (t ! i)\<lparr>qr_used := ?next\<rparr>]) = (accounts_of t)(s \<mapsto> (unat (qr_max (t ! i)), ?sum))"
        using quota_update [OF Some v, of "(t ! i)\<lparr>qr_used := ?next\<rparr>"] known(2) le add(2)
        by (simp add: quota_of_def)
      have "t' = t[i := (t ! i)\<lparr>qr_used := ?next\<rparr>]" "r = Ok ()"
        using run Some add(1) leD [OF le] by (auto simp: quota_charge_def bindS_def readS_def modifyS_def)
      then show ?thesis using up known(4) True by (simp add: spec_charge_def)
    next
      case False
      have "r = (if ?sum < 2 ^ 64 then Err exceeded else Err overflow) \<and> t' = t"
      proof (cases "?sum < 2 ^ 64")
        case True
        then have "qr_max (t ! i) < qr_used (t ! i) + amount"
          using False by (simp add: word_less_nat_alt unat_word_ariths)
        then show ?thesis using run Some True
          by (auto simp: quota_charge_def bindS_def readS_def checked_add_word_def)
      next
        case False
        then show ?thesis using run Some
          by (auto simp: quota_charge_def bindS_def readS_def checked_add_word_def)
      qed
      then show ?thesis using v known(4) False by (auto simp: spec_charge_def)
    qed
  qed
qed

lemma release_refines:
  "refines (valid_quotas n) accounts_of (release_blocks s amount)
     (spec_release StorageUnknownService StorageCounterOverflow s amount)"
proof (rule refinesI)
  fix t r t'
  assume v: "valid_quotas n t" and run: "release_blocks s amount t = (r, t')"
  then have inv: "quota_inv t" by (simp add: valid_quotas_def)
  show "valid_quotas n t' \<and>
      spec_release StorageUnknownService StorageCounterOverflow s amount (accounts_of t) = (r, accounts_of t')"
  proof (cases "position (quota_of s) t")
    case None
    then show ?thesis
      using run v by (simp add: release_blocks_def bindS_def readS_def spec_release_def accounts_of_def)
  next
    case (Some i)
    note known = quota_known [OF Some inv]
    show ?thesis
    proof (cases "amount \<le> qr_used (t ! i)")
      case True
      let ?r = "(t ! i)\<lparr>qr_used := qr_used (t ! i) - amount\<rparr>"
      have sub: "unat (qr_used (t ! i) - amount) = unat (qr_used (t ! i)) - unat amount"
        using True by (rule unat_sub)
      then have "qr_used (t ! i) - amount \<le> qr_max (t ! i)"
        using known(3) by (simp add: word_le_nat_alt)
      then have "valid_quotas n (t[i := ?r]) \<and> accounts_of (t[i := ?r]) =
          (accounts_of t)(s \<mapsto> (unat (qr_max (t ! i)), unat (qr_used (t ! i)) - unat amount))"
        using quota_update [OF Some v, of ?r] known(2) sub by (simp add: quota_of_def)
      moreover have "t' = t[i := ?r]" "r = Ok ()"
        using run Some True by (auto simp: release_blocks_def bindS_def readS_def modifyS_def checked_sub_word_def)
      ultimately show ?thesis using known(4) True by (simp add: spec_release_def word_le_nat_alt not_less)
    next
      case False
      then show ?thesis using run v Some known(4)
        by (auto simp: release_blocks_def bindS_def readS_def checked_sub_word_def spec_release_def word_le_nat_alt)
    qed
  qed
qed

lemma raise_refines:
  "refines (valid_quotas n) accounts_of (ensure_minimum_limit s minimum) (spec_raise StorageUnknownService s minimum)"
proof (rule refinesI)
  fix t r t'
  assume v: "valid_quotas n t" and run: "ensure_minimum_limit s minimum t = (r, t')"
  then have inv: "quota_inv t" by (simp add: valid_quotas_def)
  show "valid_quotas n t' \<and> spec_raise StorageUnknownService s minimum (accounts_of t) = (r, accounts_of t')"
  proof (cases "position (quota_of s) t")
    case None
    then show ?thesis
      using run v by (simp add: ensure_minimum_limit_def bindS_def readS_def spec_raise_def accounts_of_def)
  next
    case (Some i)
    note known = quota_known [OF Some inv]
    let ?r = "(t ! i)\<lparr>qr_max := minimum\<rparr>"
    have "valid_quotas n (t[i := ?r]) \<and>
        accounts_of (t[i := ?r]) = (accounts_of t)(s \<mapsto> (unat minimum, unat (qr_used (t ! i))))"
      if "qr_max (t ! i) < minimum"
      using quota_update [OF Some v, of ?r] known(2,3) that by (simp add: quota_of_def)
    then show ?thesis
      using run v Some known(4)
      by (auto simp: ensure_minimum_limit_def bindS_def readS_def modifyS_def spec_raise_def word_less_nat_alt
          max_def split: if_splits)
  qed
qed


section \<open>The contract of a quota table\<close>

text \<open>
  What the services of a quota table rely on: registration opens an empty account and charging an
  account adds to its use, within the limit.
\<close>

locale accounting =
  fixes register :: "ServiceId \<Rightarrow> u64 \<Rightarrow> ('t, 'e, unit) op"
    and charge :: "ServiceId \<Rightarrow> 'n \<Rightarrow> ('t, 'e, unit) op"
    and amount :: "'n \<Rightarrow> u64"
    and valid :: "'t \<Rightarrow> bool"
    and acc :: "'t \<Rightarrow> account_map"
    and slots :: nat
    and duplicate full unknown overflow exceeded :: 'e
  assumes within: "valid t \<Longrightarrow> acc t s = Some (limit, use) \<Longrightarrow> use \<le> limit"
    and register_account: "refines valid acc (register s m) (spec_register duplicate full slots s m)"
    and charge_account: "refines valid acc (charge s n) (spec_charge unknown overflow exceeded s (amount n))"

text \<open>A sequence of charges, with those that were granted.\<close>

primrec charge_run :: "(ServiceId \<Rightarrow> 'n \<Rightarrow> ('t, 'e, unit) op) \<Rightarrow> (ServiceId \<times> 'n) list \<Rightarrow> 't \<Rightarrow> (ServiceId \<times> 'n) list \<times> 't" where
  "charge_run charge [] t = ([], t)"
| "charge_run charge (c # cs) t =
     (case charge (fst c) (snd c) t of
        (r, t') \<Rightarrow> (case charge_run charge cs t' of
          (granted, t'') \<Rightarrow> (if r = Ok () then c # granted else granted, t'')))"

definition total :: "('n \<Rightarrow> u64) \<Rightarrow> ServiceId \<Rightarrow> (ServiceId \<times> 'n) list \<Rightarrow> nat" where
  "total amount s cs = sum_list (map (\<lambda>c. if fst c = s then unat (amount (snd c)) else 0) cs)"

lemma total_simps [simp]:
  "total amount s [] = 0"
  "total amount s (c # cs) = (if fst c = s then unat (amount (snd c)) else 0) + total amount s cs"
  by (simp_all add: total_def)

context accounting
begin

lemma charge_accepted:
  assumes "valid t" and "charge s n t = (Ok (), t')"
  obtains limit use where "acc t s = Some (limit, use)" "use + unat (amount n) \<le> limit"
    "acc t' = (acc t)(s \<mapsto> (limit, use + unat (amount n)))" "valid t'"
proof -
  note spec = refinesD [OF charge_account assms]
  then obtain limit use where a: "acc t s = Some (limit, use)"
    by (auto simp: spec_charge_def split: option.splits)
  show thesis by (rule that [OF a]) (use spec a in \<open>auto simp: spec_charge_def split: if_splits\<close>)
qed

lemma charge_refused:
  assumes "valid t" and "charge s n t = (r, t')" and "r \<noteq> Ok ()"
  shows "acc t' = acc t" and "valid t'"
  using refinesD [OF charge_account assms(1,2)] assms(3)
  by (auto simp: spec_charge_def split: option.splits if_splits)

lemma charges_accounted:
  assumes "valid t" and "charge_run charge cs t = (granted, t')"
  shows "valid t' \<and> (\<forall>s. acc t' s = map_option (\<lambda>(limit, use). (limit, use + total amount s granted)) (acc t s))"
  using assms
proof (induction cs arbitrary: t granted)
  case Nil
  then show ?case by (auto simp: option.map_ident_strong split: prod.splits)
next
  case (Cons c cs)
  obtain r t1 where c: "charge (fst c) (snd c) t = (r, t1)" by fastforce
  obtain granted1 where rest: "charge_run charge cs t1 = (granted1, t')"
    and granted: "granted = (if r = Ok () then c # granted1 else granted1)"
    using Cons.prems(2) c by (auto split: prod.splits)
  show ?case
  proof (cases "r = Ok ()")
    case True
    obtain limit use where a: "acc t (fst c) = Some (limit, use)"
      and a1: "acc t1 = (acc t)(fst c \<mapsto> (limit, use + unat (amount (snd c))))" "valid t1"
      by (rule charge_accepted [OF Cons.prems(1) c [unfolded True]])
    show ?thesis using Cons.IH [OF a1(2) rest] a by (auto simp: granted True a1(1) add.assoc)
  next
    case False
    then show ?thesis using Cons.IH [OF charge_refused(2) [OF Cons.prems(1) c False] rest]
      charge_refused(1) [OF Cons.prems(1) c False] by (simp add: granted)
  qed
qed

end

lemma valid_quotas_within:
  assumes "valid_quotas n t" and "accounts_of t s = Some (limit, use)"
  shows "use \<le> limit"
proof -
  obtain i where i: "position (quota_of s) t = Some i" using assms(2) by (auto simp: accounts_of_def)
  have "quota_inv t" using assms(1) by (simp add: valid_quotas_def)
  from quota_known(3,4) [OF i this] assms(2) show ?thesis by (simp add: word_le_nat_alt)
qed

interpretation memory_quotas: accounting memory_register charge_pages "\<lambda>pages. pages" "valid_quotas MAX_QUOTA_RECORDS"
  accounts_of MAX_QUOTA_RECORDS QuotaTableFull QuotaTableFull QuotaUnknownService QuotaCounterOverflow MemoryQuotaExceeded
  by unfold_locales (auto simp: memory_register_def charge_pages_def register_refines charge_refines intro: valid_quotas_within)

interpretation cpu_quotas: accounting cpu_register "\<lambda>s (_ :: unit). charge_tick s" "\<lambda>_. 1" "valid_quotas MAX_QUOTA_RECORDS"
  accounts_of MAX_QUOTA_RECORDS QuotaTableFull QuotaTableFull QuotaUnknownService QuotaCounterOverflow CpuQuotaExceeded
  by unfold_locales (auto simp: cpu_register_def charge_tick_def register_refines charge_refines intro: valid_quotas_within)

interpretation storage_quotas: accounting storage_register charge_blocks "\<lambda>blocks. blocks" "valid_quotas MAX_STORAGE_QUOTAS"
  accounts_of MAX_STORAGE_QUOTAS DuplicateService StorageTableFull StorageUnknownService StorageCounterOverflow StorageQuotaExceeded
  by unfold_locales (auto simp: storage_register_def charge_blocks_def register_refines charge_refines intro: valid_quotas_within)

section \<open>Properties\<close>

text \<open>
  C28. Storage quotas are accounts. On every valid table each operation gives the result of the account
  operation, errors included, and leaves a valid table of the resulting accounts: registration opens an
  account unless the service is known or the four records are in use, charging is granted exactly within
  the limit, release never drops the use below zero, and raising a limit never lowers it.
\<close>

theorem storage_quotas_refine_accounts:
  "refines (valid_quotas MAX_STORAGE_QUOTAS) accounts_of (storage_register s limit)
     (spec_register DuplicateService StorageTableFull MAX_STORAGE_QUOTAS s limit) \<and>
   refines (valid_quotas MAX_STORAGE_QUOTAS) accounts_of (charge_blocks s blocks)
     (spec_charge StorageUnknownService StorageCounterOverflow StorageQuotaExceeded s blocks) \<and>
   refines (valid_quotas MAX_STORAGE_QUOTAS) accounts_of (release_blocks s blocks)
     (spec_release StorageUnknownService StorageCounterOverflow s blocks) \<and>
   refines (valid_quotas MAX_STORAGE_QUOTAS) accounts_of (ensure_minimum_limit s minimum)
     (spec_raise StorageUnknownService s minimum) \<and>
   valid_quotas MAX_STORAGE_QUOTAS storage_quota_new"
  using storage_quotas.register_account storage_quotas.charge_account release_refines raise_refines
    valid_quotas_new by (simp add: storage_quota_new_def)

text \<open>
  C29. Charges add up. After any sequence of page charges and tick charges on valid tables, the use of each
  service has grown by exactly the charges that were granted to it and stays within its limit, and
  no service appears or disappears.
\<close>

theorem quota_charges_accounted:
  assumes pages: "valid_quotas MAX_QUOTA_RECORDS mem" "charge_run charge_pages cs mem = (granted, mem')"
    and ticks: "valid_quotas MAX_QUOTA_RECORDS cpu" "charge_run (\<lambda>s (_ :: unit). charge_tick s) ts cpu = (ticked, cpu')"
  shows "accounts_of mem' s = map_option (\<lambda>(limit, use). (limit, use + total (\<lambda>n. n) s granted)) (accounts_of mem s) \<and>
    accounts_of cpu' s = map_option (\<lambda>(limit, use). (limit, use + total (\<lambda>_. 1) s ticked)) (accounts_of cpu s) \<and>
    (\<forall>limit use. accounts_of mem' s = Some (limit, use) \<or> accounts_of cpu' s = Some (limit, use) \<longrightarrow> use \<le> limit)"
  using memory_quotas.charges_accounted [OF pages] cpu_quotas.charges_accounted [OF ticks] valid_quotas_within
  by blast

definition demo_quotas :: QuotaTable where
  "demo_quotas = [\<lparr>qr_service_id = 1, qr_max = 2, qr_used = 0, qr_active = True\<rparr>, quota_record_empty,
     quota_record_empty, quota_record_empty]"

lemma demo_quotas_valid: "valid_quotas MAX_QUOTA_RECORDS demo_quotas"
  by (auto simp: valid_quotas_def quota_inv_def demo_quotas_def MAX_QUOTA_RECORDS_def quota_record_empty_def
      less_Suc_eq numeral_nat)

lemma demo_quotas_account: "accounts_of demo_quotas 1 = Some (2, 0)"
  by (simp add: accounts_of_def demo_quotas_def quota_of_def)

theorem quota_charges_accounted_witness:
  "\<exists>mem' cpu'. accounts_of mem' 1 = Some (2, 1) \<and> accounts_of cpu' 1 = Some (2, 2) \<and>
     charge_run charge_pages [(1, 1), (1, 2)] demo_quotas = ([(1, 1)], mem') \<and>
     charge_run (\<lambda>s (_ :: unit). charge_tick s) [(1, ()), (1, ()), (1, ())] demo_quotas = ([(1, ()), (1, ())], cpu')"
proof -
  obtain mem' where m: "charge_run charge_pages [(1, 1), (1, 2)] demo_quotas = ([(1, 1)], mem')"
    by (simp add: charge_pages_def quota_charge_def bindS_def readS_def modifyS_def demo_quotas_def quota_of_def
        checked_add_word_def)
  obtain cpu' where c: "charge_run (\<lambda>s (_ :: unit). charge_tick s) [(1, ()), (1, ()), (1, ())] demo_quotas =
      ([(1, ()), (1, ())], cpu')"
    by (simp add: charge_tick_def quota_charge_def bindS_def readS_def modifyS_def demo_quotas_def quota_of_def
        checked_add_word_def)
  show ?thesis
    using quota_charges_accounted [OF demo_quotas_valid m demo_quotas_valid c, of 1] demo_quotas_account m c
    by auto
qed

end
