(* ===== verification/Kernel_Allocator.thy ===== *)
theory Kernel_Allocator
  imports Kernel_Tables "HOL-Library.Disjoint_Sets"
begin

text \<open>
  The block allocator of \<open>core/src/storage_allocator.rs\<close>: a bitmap of at most 64 blocks with first-fit
  search, and a journal of bitmap updates with recovery. The lemmas read the bitmap as the set of
  blocks in use and show what each operation does to it, and what recovery restores.
\<close>

section \<open>Block devices\<close>

text \<open>
  The description of the selected block device, \<open>core/src/block_device.rs\<close>, in the default
  configuration, which has no SDHCI backend.
\<close>

record VirtioBlockDevice =
  vb_bus :: u8
  vb_device :: u8
  vb_function :: u8
  vb_io_base :: u16
  vb_capacity_sectors :: u64
  vb_queue_size :: u16

record AhciBlockDevice =
  ab_bus :: u8
  ab_device :: u8
  ab_function :: u8
  ab_mmio_base :: u64
  ab_port_index :: u8
  ab_capacity_sectors :: u64

datatype BlockDeviceInfo = Virtio VirtioBlockDevice | Ahci AhciBlockDevice

definition capacity_sectors :: "BlockDeviceInfo \<Rightarrow> u64" where
  "capacity_sectors info =
     (case info of Virtio device \<Rightarrow> vb_capacity_sectors device | Ahci device \<Rightarrow> ab_capacity_sectors device)"

definition queue_size :: "BlockDeviceInfo \<Rightarrow> u16" where
  "queue_size info = (case info of Virtio device \<Rightarrow> vb_queue_size device | Ahci _ \<Rightarrow> 1)"

section \<open>Extents and the journal\<close>

definition MAX_ALLOCATOR_BLOCKS :: u16 where "MAX_ALLOCATOR_BLOCKS = 64"
definition JOURNAL_CAPACITY :: usize where "JOURNAL_CAPACITY = 8"
definition ALLOCATOR_COMMIT_MARKER :: u32 where "ALLOCATOR_COMMIT_MARKER = 0x5059414C"

datatype AllocatorError =
    InvalidLayout | OutOfSpace | InvalidExtent | JournalFull | MissingCommitMarker | ChecksumMismatch

record BlockExtent =
  be_start_block :: u16
  be_block_count :: u16

record AllocatorJournalRecord =
  ar_generation :: u64
  ar_previous_bitmap :: u64
  ar_next_bitmap :: u64
  ar_checksum :: u32
  ar_commit_marker :: u32

definition allocator_record_empty :: AllocatorJournalRecord where
  "allocator_record_empty = \<lparr>ar_generation = 0, ar_previous_bitmap = 0, ar_next_bitmap = 0,
     ar_checksum = 0, ar_commit_marker = 0\<rparr>"

definition is_committed :: "AllocatorJournalRecord \<Rightarrow> bool" where
  "is_committed record \<longleftrightarrow> ar_commit_marker record = ALLOCATOR_COMMIT_MARKER"

record AllocatorRecoveryReport =
  rr_replayed_records :: usize
  rr_rolled_back_records :: usize
  rr_committed_bitmap :: u64

record AllocatorJournal =
  aj_records :: "AllocatorJournalRecord list"
  aj_len :: usize
  aj_next_generation :: u64

definition allocator_journal_new :: AllocatorJournal where
  "allocator_journal_new = \<lparr>aj_records = replicate JOURNAL_CAPACITY allocator_record_empty, aj_len = 0,
     aj_next_generation = 1\<rparr>"

fun mix_bytes :: "nat \<Rightarrow> u32 \<Rightarrow> u64 \<Rightarrow> u32" where
  "mix_bytes 0 checksum remaining = checksum"
| "mix_bytes (Suc n) checksum remaining =
     mix_bytes n ((checksum XOR ucast (ucast remaining :: u8)) * 0x01000193) (drop_bit 8 remaining)"

definition checksum_mix :: "u32 \<Rightarrow> u64 \<Rightarrow> u32" where
  "checksum_mix checksum value = mix_bytes 8 checksum value"

definition checksum_record :: "AllocatorJournalRecord \<Rightarrow> u32" where
  "checksum_record record =
     checksum_mix (checksum_mix (checksum_mix 0x811C9DC5 (ar_generation record))
       (ar_previous_bitmap record)) (ar_next_bitmap record)"

definition validate_record :: "AllocatorJournalRecord \<Rightarrow> (AllocatorError, unit) result" where
  "validate_record record =
     bindR (ensure (\<not> ar_commit_marker record \<noteq> ALLOCATOR_COMMIT_MARKER) MissingCommitMarker) (\<lambda>_.
     ensure (\<not> ar_checksum record \<noteq> checksum_record record) ChecksumMismatch)"

definition journal_append ::
    "u64 \<Rightarrow> u64 \<Rightarrow> (AllocatorJournal, AllocatorError, AllocatorJournalRecord) op" where
  "journal_append previous_bitmap next_bitmap =
     bindS (readS (\<lambda>j. ensure (\<not> aj_len j = JOURNAL_CAPACITY) JournalFull)) (\<lambda>_.
     bindS (readS (\<lambda>j. Ok \<lparr>ar_generation = aj_next_generation j, ar_previous_bitmap = previous_bitmap,
       ar_next_bitmap = next_bitmap, ar_checksum = 0, ar_commit_marker = 0\<rparr>)) (\<lambda>record.
     bindS (modifyS (\<lambda>j. j\<lparr>aj_records := (aj_records j)[aj_len j := record], aj_len := aj_len j + 1,
       aj_next_generation := aj_next_generation j + 1\<rparr>)) (\<lambda>_.
     readS (\<lambda>_. Ok record))))"

definition journal_last :: "AllocatorJournal \<Rightarrow> AllocatorJournalRecord option" where
  "journal_last j = (if aj_len j = 0 then None else Some (aj_records j ! (aj_len j - 1)))"

definition journal_commit_last :: "(AllocatorJournal, AllocatorError, AllocatorJournalRecord) op" where
  "journal_commit_last =
     bindS (readS (\<lambda>j. ensure (\<not> aj_len j = 0) MissingCommitMarker)) (\<lambda>_.
     bindS (readS (\<lambda>j. let record = aj_records j ! (aj_len j - 1) in
       Ok (record\<lparr>ar_checksum := checksum_record record, ar_commit_marker := ALLOCATOR_COMMIT_MARKER\<rparr>))) (\<lambda>record.
     bindS (readS (\<lambda>_. validate_record record)) (\<lambda>_.
     bindS (modifyS (\<lambda>j. j\<lparr>aj_records := (aj_records j)[aj_len j - 1 := record]\<rparr>)) (\<lambda>_.
     readS (\<lambda>_. Ok record)))))"

section \<open>The allocator\<close>

record BlockAllocator =
  ba_base_sector :: u64
  ba_block_count :: u16
  ba_bitmap :: u64
  ba_committed_bitmap :: u64

definition allocator_new :: "u64 \<Rightarrow> u16 \<Rightarrow> (AllocatorError, BlockAllocator) result" where
  "allocator_new base_sector block_count =
     bindR (ensure (\<not> (block_count = 0 \<or> MAX_ALLOCATOR_BLOCKS < block_count)) InvalidLayout) (\<lambda>_.
     bindR (ok_or (checked_add_word base_sector (ucast block_count)) InvalidLayout) (\<lambda>_.
     Ok \<lparr>ba_base_sector = base_sector, ba_block_count = block_count, ba_bitmap = 0, ba_committed_bitmap = 0\<rparr>))"

definition new_for_device :: "BlockDeviceInfo \<Rightarrow> u64 \<Rightarrow> u16 \<Rightarrow> (AllocatorError, BlockAllocator) result" where
  "new_for_device device base_sector block_count =
     bindR (allocator_new base_sector block_count) (\<lambda>allocator.
     bindR (ok_or (checked_add_word base_sector (ucast block_count)) InvalidLayout) (\<lambda>limit.
     bindR (ensure (\<not> capacity_sectors device < limit) InvalidLayout) (\<lambda>_. Ok allocator)))"

definition bitmap_outside_block_count :: "u64 \<Rightarrow> u16 \<Rightarrow> bool" where
  "bitmap_outside_block_count bitmap block_count =
     (if block_count = MAX_ALLOCATOR_BLOCKS then False
      else let allowed = push_bit (unat block_count) 1 - 1 in bitmap AND NOT allowed \<noteq> 0)"

definition restore_from_bitmap :: "u64 \<Rightarrow> u16 \<Rightarrow> u64 \<Rightarrow> (AllocatorError, BlockAllocator) result" where
  "restore_from_bitmap base_sector block_count committed_bitmap =
     bindR (allocator_new base_sector block_count) (\<lambda>allocator.
     bindR (ensure (\<not> bitmap_outside_block_count committed_bitmap block_count) InvalidExtent) (\<lambda>_.
     Ok (allocator\<lparr>ba_bitmap := committed_bitmap, ba_committed_bitmap := committed_bitmap\<rparr>)))"

text \<open>
  The bit loops. A shift by 64 or more is an abort, which the extent checks in front of the loops
  exclude.
\<close>

function mark_from :: "bool \<Rightarrow> BlockExtent \<Rightarrow> nat \<Rightarrow> u64 \<Rightarrow> (AllocatorError, u64) result" where
  "mark_from used extent offset bitmap =
     (if offset < unat (be_block_count extent) then
        let bit = unat (be_start_block extent) + offset in
        if bit < 64 then
          mark_from used extent (offset + 1)
            (if used then bitmap OR push_bit bit 1 else bitmap AND NOT (push_bit bit 1))
        else Panic
      else Ok bitmap)"
  by pat_completeness auto
termination
  by (relation "measure (\<lambda>(_, extent, offset, _). unat (be_block_count extent) - offset)") auto

declare mark_from.simps [simp del]

definition bitmap_with_extent :: "u64 \<Rightarrow> BlockExtent \<Rightarrow> bool \<Rightarrow> (AllocatorError, u64) result" where
  "bitmap_with_extent bitmap extent used =
     bindR (ok_or (checked_add_word (be_start_block extent) (be_block_count extent)) InvalidExtent) (\<lambda>limit.
     bindR (ensure (\<not> MAX_ALLOCATOR_BLOCKS < limit) InvalidExtent) (\<lambda>_.
     mark_from used extent 0 bitmap))"

definition validate_extent :: "BlockAllocator \<Rightarrow> BlockExtent \<Rightarrow> (AllocatorError, unit) result" where
  "validate_extent a extent =
     bindR (ensure (\<not> be_block_count extent = 0) InvalidExtent) (\<lambda>_.
     bindR (ok_or (checked_add_word (be_start_block extent) (be_block_count extent)) InvalidExtent) (\<lambda>limit.
     ensure (\<not> ba_block_count a < limit) InvalidExtent))"

function free_from :: "u64 \<Rightarrow> BlockExtent \<Rightarrow> nat \<Rightarrow> (AllocatorError, bool) result" where
  "free_from bitmap extent offset =
     (if offset < unat (be_block_count extent) then
        let bit = unat (be_start_block extent) + offset in
        if bit < 64 then
          (if bitmap AND push_bit bit 1 \<noteq> 0 then Ok False else free_from bitmap extent (offset + 1))
        else Panic
      else Ok True)"
  by pat_completeness auto
termination
  by (relation "measure (\<lambda>(_, extent, offset). unat (be_block_count extent) - offset)") auto

declare free_from.simps [simp del]

definition extent_is_free :: "BlockAllocator \<Rightarrow> BlockExtent \<Rightarrow> (AllocatorError, bool) result" where
  "extent_is_free a extent = bindR (validate_extent a extent) (\<lambda>_. free_from (ba_bitmap a) extent 0)"

function find_from :: "BlockAllocator \<Rightarrow> u16 \<Rightarrow> nat \<Rightarrow> (AllocatorError, BlockExtent) result" where
  "find_from a requested start =
     (if start \<le> unat (ba_block_count a - requested) then
        let extent = \<lparr>be_start_block = of_nat start, be_block_count = requested\<rparr> in
        bindR (extent_is_free a extent) (\<lambda>free.
          if free then Ok extent else find_from a requested (start + 1))
      else Err OutOfSpace)"
  by pat_completeness auto
termination
  by (relation "measure (\<lambda>(a, requested, start). Suc (unat (ba_block_count a - requested)) - start)") auto

declare find_from.simps [simp del]

definition find_free_extent :: "BlockAllocator \<Rightarrow> u16 \<Rightarrow> (AllocatorError, BlockExtent) result" where
  "find_free_extent a requested =
     bindR (ensure (\<not> (requested = 0 \<or> ba_block_count a < requested)) InvalidExtent) (\<lambda>_.
     find_from a requested 0)"

definition mark_extent :: "BlockExtent \<Rightarrow> bool \<Rightarrow> (BlockAllocator, AllocatorError, unit) op" where
  "mark_extent extent used =
     bindS (readS (\<lambda>a. bitmap_with_extent (ba_bitmap a) extent used)) (\<lambda>bitmap.
     modifyS (\<lambda>a. a\<lparr>ba_bitmap := bitmap\<rparr>))"

definition allocate :: "u16 \<Rightarrow> (BlockAllocator, AllocatorError, BlockExtent) op" where
  "allocate block_count =
     bindS (readS (\<lambda>a. find_free_extent a block_count)) (\<lambda>extent.
     bindS (mark_extent extent True) (\<lambda>_.
     bindS (modifyS (\<lambda>a. a\<lparr>ba_committed_bitmap := ba_bitmap a\<rparr>)) (\<lambda>_.
     readS (\<lambda>_. Ok extent))))"

definition free :: "BlockExtent \<Rightarrow> (BlockAllocator, AllocatorError, unit) op" where
  "free extent =
     bindS (readS (\<lambda>a. validate_extent a extent)) (\<lambda>_.
     bindS (mark_extent extent False) (\<lambda>_.
     modifyS (\<lambda>a. a\<lparr>ba_committed_bitmap := ba_bitmap a\<rparr>)))"

text \<open>The journaled operations work on the allocator and the journal.\<close>

definition allocate_journaled ::
    "u16 \<Rightarrow> (BlockAllocator \<times> AllocatorJournal, AllocatorError, BlockExtent) op" where
  "allocate_journaled block_count =
     bindS (readS (\<lambda>(a, _). find_free_extent a block_count)) (\<lambda>extent.
     bindS (readS (\<lambda>(a, _). Ok (ba_committed_bitmap a))) (\<lambda>previous.
     bindS (readS (\<lambda>(a, _). bitmap_with_extent (ba_bitmap a) extent True)) (\<lambda>bitmap.
     bindS (onS snd apsnd (\<lambda>e. e) (journal_append previous bitmap)) (\<lambda>_.
     bindS (modifyS (apfst (\<lambda>a. a\<lparr>ba_bitmap := bitmap\<rparr>))) (\<lambda>_.
     readS (\<lambda>_. Ok extent))))))"

definition commit_last ::
    "(BlockAllocator \<times> AllocatorJournal, AllocatorError, AllocatorJournalRecord) op" where
  "commit_last =
     bindS (onS snd apsnd (\<lambda>e. e) journal_commit_last) (\<lambda>committed.
     bindS (modifyS (apfst (\<lambda>a. a\<lparr>ba_committed_bitmap := ar_next_bitmap committed,
       ba_bitmap := ar_next_bitmap committed\<rparr>))) (\<lambda>_.
     readS (\<lambda>_. Ok committed)))"

definition allocator_used_blocks :: "BlockAllocator \<Rightarrow> u16" where
  "allocator_used_blocks a = of_nat (length (filter (bit (ba_bitmap a)) [0..<64]))"

section \<open>Recovery\<close>

function recover_from ::
    "AllocatorJournal \<Rightarrow> usize \<Rightarrow> u64 \<Rightarrow> (AllocatorError, AllocatorRecoveryReport) result" where
  "recover_from j replayed_records committed_bitmap =
     (if replayed_records < aj_len j then
        if replayed_records < length (aj_records j) then
          let record = aj_records j ! replayed_records in
          if validate_record record \<noteq> Ok () \<or> ar_previous_bitmap record \<noteq> committed_bitmap then
            Ok \<lparr>rr_replayed_records = replayed_records, rr_rolled_back_records = aj_len j - replayed_records,
                rr_committed_bitmap = committed_bitmap\<rparr>
          else recover_from j (replayed_records + 1) (ar_next_bitmap record)
        else Panic
      else Ok \<lparr>rr_replayed_records = replayed_records, rr_rolled_back_records = 0,
               rr_committed_bitmap = committed_bitmap\<rparr>)"
  by pat_completeness auto
termination
  by (relation "measure (\<lambda>(j, replayed_records, _). aj_len j - replayed_records)") auto

declare recover_from.simps [simp del]

definition recover_allocator_journal :: "AllocatorJournal \<Rightarrow> (AllocatorError, AllocatorRecoveryReport) result" where
  "recover_allocator_journal j = recover_from j 0 0"


section \<open>The bitmap as a set of blocks\<close>

definition extent_blocks :: "BlockExtent \<Rightarrow> nat set" where
  "extent_blocks e = {unat (be_start_block e)..<unat (be_start_block e) + unat (be_block_count e)}"

definition allocator_inv :: "BlockAllocator \<Rightarrow> bool" where
  "allocator_inv a \<longleftrightarrow>
     0 < ba_block_count a \<and> ba_block_count a \<le> MAX_ALLOCATOR_BLOCKS \<and>
     bits_of (ba_bitmap a) \<subseteq> {..<unat (ba_block_count a)} \<and>
     bits_of (ba_committed_bitmap a) \<subseteq> {..<unat (ba_block_count a)}"

lemma block_count_le_64:
  assumes "allocator_inv a"
  shows "unat (ba_block_count a) \<le> 64"
  using assms by (simp add: allocator_inv_def MAX_ALLOCATOR_BLOCKS_def word_le_nat_alt)

lemma extent_limit:
  "checked_add_word (be_start_block e) (be_block_count e) = Some l \<Longrightarrow>
   unat l = unat (be_start_block e) + unat (be_block_count e)"
  by (rule checked_add_word_unat(1))

lemma bits_of_bit_set: "i < 64 \<Longrightarrow> bits_of ((b :: u64) OR push_bit i 1) = insert i (bits_of b)"
  using bits_of_push_bit_1 [where 'w = 64, of i] unfolding bits_of_or by simp

lemma bits_of_bit_clear: "i < 64 \<Longrightarrow> bits_of ((b :: u64) AND NOT (push_bit i 1)) = bits_of b - {i}"
  using bits_of_push_bit_1 [where 'w = 64, of i] unfolding bits_of_and_not by simp

lemma bit_in_use: "i < 64 \<Longrightarrow> (b :: u64) AND push_bit i 1 \<noteq> 0 \<longleftrightarrow> i \<in> bits_of b"
  using bits_of_push_bit_1 [where 'w = 64, of i] bits_of_eq_empty [of "b AND push_bit i 1"] unfolding bits_of_and by auto

lemma mark_from_eq:
  assumes "unat (be_start_block e) + unat (be_block_count e) \<le> 64" and "offset \<le> unat (be_block_count e)"
  shows "\<exists>b'. mark_from used e offset b = Ok b' \<and>
    bits_of b' = (let new = {unat (be_start_block e) + offset..<unat (be_start_block e) + unat (be_block_count e)} in
      if used then bits_of b \<union> new else bits_of b - new)"
  using assms
proof (induction used e offset b rule: mark_from.induct)
  case (1 used e offset b)
  let ?s = "unat (be_start_block e)" and ?n = "unat (be_block_count e)"
  show ?case
  proof (cases "offset < ?n")
    case False
    then have "offset = ?n" using "1.prems" by simp
    then show ?thesis by (simp add: mark_from.simps [of used e])
  next
    case True
    then have lt: "?s + offset < 64" using "1.prems" by simp
    let ?b = "if used then b OR push_bit (?s + offset) 1 else b AND NOT (push_bit (?s + offset) 1)"
    obtain b' where b': "mark_from used e (offset + 1) ?b = Ok b'" and
      bits: "bits_of b' = (let new = {?s + (offset + 1)..<?s + ?n} in if used then bits_of ?b \<union> new else bits_of ?b - new)"
      using "1.IH" [OF True refl lt] "1.prems" True by auto
    have "bits_of ?b = (if used then bits_of b \<union> {?s + offset} else bits_of b - {?s + offset})"
      using bits_of_bit_set [OF lt] bits_of_bit_clear [OF lt] by simp
    moreover have "{?s + offset..<?s + ?n} = insert (?s + offset) {?s + (offset + 1)..<?s + ?n}" using True by auto
    ultimately have "bits_of b' = (let new = {?s + offset..<?s + ?n} in if used then bits_of b \<union> new else bits_of b - new)"
      using bits by (auto simp: Let_def split: if_splits)
    moreover have "mark_from used e offset b = Ok b'"
      using b' True lt unfolding mark_from.simps [of used e offset] by (simp add: Let_def)
    ultimately show ?thesis by blast
  qed
qed

lemma bitmap_with_extent_Ok:
  assumes "unat (be_start_block e) + unat (be_block_count e) \<le> 64"
  shows "\<exists>b'. bitmap_with_extent b e used = Ok b' \<and>
    bits_of b' = (if used then bits_of b \<union> extent_blocks e else bits_of b - extent_blocks e)"
proof -
  let ?l = "be_start_block e + be_block_count e"
  have l: "checked_add_word (be_start_block e) (be_block_count e) = Some ?l"
    using assms by (simp add: checked_add_word_def)
  then have "\<not> MAX_ALLOCATOR_BLOCKS < ?l"
    using extent_limit [OF l] assms by (simp add: MAX_ALLOCATOR_BLOCKS_def word_less_nat_alt)
  then have "bitmap_with_extent b e used = mark_from used e 0 b"
    unfolding bitmap_with_extent_def l by simp
  then show ?thesis
    using mark_from_eq [OF assms, of 0 used b] by (auto simp: extent_blocks_def Let_def)
qed

lemma free_from_eq:
  assumes "unat (be_start_block e) + unat (be_block_count e) \<le> 64" and "offset \<le> unat (be_block_count e)"
  shows "free_from b e offset = Ok (bits_of b \<inter>
    {unat (be_start_block e) + offset..<unat (be_start_block e) + unat (be_block_count e)} = {})"
  using assms
proof (induction b e offset rule: free_from.induct)
  case (1 b e offset)
  let ?s = "unat (be_start_block e)" and ?n = "unat (be_block_count e)"
  show ?case
  proof (cases "offset < ?n")
    case False
    then show ?thesis using "1.prems" by (simp add: free_from.simps [of b e])
  next
    case True
    then have lt: "?s + offset < 64" using "1.prems" by simp
    note used = bit_in_use [OF lt, of b]
    have split: "{?s + offset..<?s + ?n} = insert (?s + offset) {?s + (offset + 1)..<?s + ?n}" using True by auto
    show ?thesis
    proof (cases "?s + offset \<in> bits_of b")
      case in_use: True
      then show ?thesis
        using True lt used unfolding free_from.simps [of b e offset] split by (simp add: Let_def)
    next
      case False
      have "free_from b e (offset + 1) = Ok (bits_of b \<inter> {?s + (offset + 1)..<?s + ?n} = {})"
        using "1.IH" [OF True refl lt] used False "1.prems" True by simp
      then show ?thesis
        using True lt used False unfolding free_from.simps [of b e offset] split by (simp add: Let_def)
    qed
  qed
qed

lemma validate_extent_Ok:
  "validate_extent a e = Ok u \<longleftrightarrow> 0 < unat (be_block_count e) \<and>
     unat (be_start_block e) + unat (be_block_count e) \<le> unat (ba_block_count a)"
proof -
  have "unat (be_start_block e) + unat (be_block_count e) < 2 ^ 16"
    if "unat (be_start_block e) + unat (be_block_count e) \<le> unat (ba_block_count a)"
    using that unat_bound [of "ba_block_count a"] by simp
  then show ?thesis
    unfolding validate_extent_def
    by (auto simp: checked_add_word_def word_less_nat_alt unat_word_ariths not_less unat_gt_0 split: if_splits)
qed


lemma extent_is_free_eq:
  assumes "allocator_inv a" and "validate_extent a e = Ok ()"
  shows "extent_is_free a e = Ok (bits_of (ba_bitmap a) \<inter> extent_blocks e = {})"
proof -
  have "unat (be_start_block e) + unat (be_block_count e) \<le> 64"
    using assms(2) block_count_le_64 [OF assms(1)] by (simp add: validate_extent_Ok)
  from free_from_eq [OF this, of 0 "ba_bitmap a"] show ?thesis
    using assms(2) by (simp add: extent_is_free_def extent_blocks_def)
qed

text \<open>The run of \<open>n\<close> blocks from \<open>k\<close> on, and the result of the first-fit search.\<close>

definition run_free :: "BlockAllocator \<Rightarrow> nat \<Rightarrow> nat \<Rightarrow> bool" where
  "run_free a n k \<longleftrightarrow> bits_of (ba_bitmap a) \<inter> {k..<k + n} = {}"

definition first_fit :: "BlockAllocator \<Rightarrow> u16 \<Rightarrow> nat \<Rightarrow> (AllocatorError, BlockExtent) result \<Rightarrow> bool" where
  "first_fit a n start r \<longleftrightarrow>
     (case r of
        Ok e \<Rightarrow> be_block_count e = n \<and> validate_extent a e = Ok () \<and>
          start \<le> unat (be_start_block e) \<and> run_free a (unat n) (unat (be_start_block e)) \<and>
          (\<forall>k. start \<le> k \<longrightarrow> k < unat (be_start_block e) \<longrightarrow> \<not> run_free a (unat n) k)
      | Err e \<Rightarrow> e = OutOfSpace \<and>
          (\<forall>k. start \<le> k \<longrightarrow> k + unat n \<le> unat (ba_block_count a) \<longrightarrow> \<not> run_free a (unat n) k)
      | _ \<Rightarrow> False)"

lemma first_fit_step:
  assumes "first_fit a n (start + 1) r" and "\<not> run_free a (unat n) start"
  shows "first_fit a n start r"
proof -
  have "\<not> run_free a (unat n) k" if "start \<le> k" "start + 1 \<le> k \<longrightarrow> \<not> run_free a (unat n) k" for k
    using that assms(2) by (cases "k = start") auto
  then show ?thesis using assms(1) unfolding first_fit_def by (auto split: result.splits)
qed

lemma find_from_first_fit:
  assumes "allocator_inv a" and "0 < n" and "n \<le> ba_block_count a"
  shows "first_fit a n start (find_from a n start)"
  using assms
proof (induction a n start rule: find_from.induct)
  case (1 a n start)
  have bound: "unat (ba_block_count a - n) = unat (ba_block_count a) - unat n" "unat n \<le> unat (ba_block_count a)"
    using "1.prems"(3) by (simp_all add: unat_sub word_le_nat_alt)
  show ?case
  proof (cases "start \<le> unat (ba_block_count a - n)")
    case False
    then show ?thesis
      using bound unfolding find_from.simps [of a n start] first_fit_def by auto
  next
    case True
    let ?e = "\<lparr>be_start_block = of_nat start, be_block_count = n\<rparr>"
    have "start < 2 ^ 16" using True unat_bound [of "ba_block_count a - n"] by simp
    then have start: "unat (be_start_block ?e) = start" by (simp add: unsigned_of_nat take_bit_nat_eq_self)
    have v: "validate_extent a ?e = Ok ()"
      using True bound start "1.prems"(2) unfolding validate_extent_Ok by (auto simp: unat_gt_0)
    have f: "extent_is_free a ?e = Ok (run_free a (unat n) start)"
      using extent_is_free_eq [OF "1.prems"(1) v] start by (simp add: run_free_def extent_blocks_def)
    show ?thesis
    proof (cases "run_free a (unat n) start")
      case free: True
      then have "find_from a n start = Ok ?e"
        using True f unfolding find_from.simps [of a n start] by (simp add: Let_def)
      then show ?thesis using v start free unfolding first_fit_def by simp
    next
      case False
      then have "find_from a n start = find_from a n (start + 1)"
        using True f unfolding find_from.simps [of a n start] by (simp add: Let_def)
      then show ?thesis
        using first_fit_step [OF _ False] "1.IH" [OF True refl, of False] False "1.prems" by simp
    qed
  qed
qed

lemma find_free_extent_cases:
  assumes "allocator_inv a"
  obtains "find_free_extent a n = Err InvalidExtent" "n = 0 \<or> ba_block_count a < n"
    | "find_free_extent a n = find_from a n 0" "0 < n" "n \<le> ba_block_count a" "first_fit a n 0 (find_from a n 0)"
proof (cases "n = 0 \<or> ba_block_count a < n")
  case True
  then show thesis using that(1) by (simp add: find_free_extent_def)
next
  case False
  then have "0 < n" "n \<le> ba_block_count a" by (auto simp: word_neq_0_conv)
  then show thesis
    using that(2) find_from_first_fit [OF assms] False by (simp add: find_free_extent_def)
qed

text \<open>What an allocation returns, on every branch.\<close>

definition allocated :: "BlockAllocator \<Rightarrow> u16 \<Rightarrow> (AllocatorError, BlockExtent) result \<Rightarrow> bool" where
  "allocated a n r \<longleftrightarrow>
     (if n = 0 \<or> ba_block_count a < n then r = Err InvalidExtent else first_fit a n 0 r)"

lemma find_free_extent_allocated:
  assumes "allocator_inv a"
  shows "allocated a n (find_free_extent a n)"
  using assms by (cases rule: find_free_extent_cases [where n = n]) (auto simp: allocated_def)

lemma allocated_Ok:
  assumes "allocator_inv a" and "allocated a n (Ok e)"
  shows "extent_blocks e \<subseteq> {..<unat (ba_block_count a)}" and "extent_blocks e \<inter> bits_of (ba_bitmap a) = {}"
    and "unat (be_start_block e) + unat (be_block_count e) \<le> 64" and "be_block_count e = n" and "extent_blocks e \<noteq> {}"
proof -
  have fit: "be_block_count e = n" "validate_extent a e = Ok ()" "run_free a (unat n) (unat (be_start_block e))"
    using assms(2) by (auto simp: allocated_def first_fit_def split: if_splits)
  then show "extent_blocks e \<subseteq> {..<unat (ba_block_count a)}" "extent_blocks e \<inter> bits_of (ba_bitmap a) = {}"
    "be_block_count e = n" "extent_blocks e \<noteq> {}"
    by (auto simp: validate_extent_Ok extent_blocks_def run_free_def)
  show "unat (be_start_block e) + unat (be_block_count e) \<le> 64"
    using fit(2) block_count_le_64 [OF assms(1)] by (simp add: validate_extent_Ok)
qed

lemma allocate_spec:
  assumes inv: "allocator_inv a" and run: "allocate n a = (r, a')"
  shows "allocated a n r \<and> allocator_inv a' \<and> ba_block_count a' = ba_block_count a \<and>
    bits_of (ba_bitmap a') = bits_of (ba_bitmap a) \<union> (case r of Ok e \<Rightarrow> extent_blocks e | _ \<Rightarrow> {})"
proof -
  have found: "allocated a n (find_free_extent a n)" by (rule find_free_extent_allocated [OF inv])
  show ?thesis
  proof (cases "find_free_extent a n")
    case (Ok e)
    note e = allocated_Ok [OF inv found [unfolded Ok]]
    obtain b where b: "bitmap_with_extent (ba_bitmap a) e True = Ok b"
      and bits: "bits_of b = bits_of (ba_bitmap a) \<union> extent_blocks e"
      using bitmap_with_extent_Ok [OF e(3), of "ba_bitmap a" True] by auto
    have "r = Ok e" "a' = a\<lparr>ba_bitmap := b, ba_committed_bitmap := b\<rparr>"
      using run Ok b by (auto simp: allocate_def mark_extent_def bindS_def readS_def modifyS_def)
    then show ?thesis using found Ok bits e(1) inv by (auto simp: allocator_inv_def)
  next
    case (Err x)
    then have "r = Err x" "a' = a" using run by (simp_all add: allocate_def bindS_def readS_def)
    then show ?thesis using found Err inv by simp
  qed (use found in \<open>simp_all add: allocated_def first_fit_def split: if_splits\<close>)
qed

lemma validate_extent_Err: "validate_extent a e \<noteq> Ok () \<Longrightarrow> validate_extent a e = Err InvalidExtent"
  by (auto simp: validate_extent_def ensure_def ok_or_def split: option.splits if_splits)

lemma free_spec:
  assumes inv: "allocator_inv a" and run: "free e a = (r, a')"
  shows "allocator_inv a' \<and> ba_block_count a' = ba_block_count a \<and>
    (if validate_extent a e = Ok () then r = Ok () \<and> bits_of (ba_bitmap a') = bits_of (ba_bitmap a) - extent_blocks e
     else r = Err InvalidExtent \<and> a' = a)"
proof (cases "validate_extent a e = Ok ()")
  case True
  then have "unat (be_start_block e) + unat (be_block_count e) \<le> 64"
    using block_count_le_64 [OF inv] by (simp add: validate_extent_Ok)
  then obtain b where b: "bitmap_with_extent (ba_bitmap a) e False = Ok b"
    and bits: "bits_of b = bits_of (ba_bitmap a) - extent_blocks e"
    using bitmap_with_extent_Ok [of e "ba_bitmap a" False] by auto
  have "r = Ok ()" "a' = a\<lparr>ba_bitmap := b, ba_committed_bitmap := b\<rparr>"
    using run True b by (auto simp: free_def mark_extent_def bindS_def readS_def modifyS_def)
  then show ?thesis using True bits inv by (auto simp: allocator_inv_def)
next
  case False
  from validate_extent_Err [OF this] show ?thesis
    using run inv False by (auto simp: free_def bindS_def readS_def)
qed


lemma bitmap_outside_iff:
  assumes "n \<le> MAX_ALLOCATOR_BLOCKS"
  shows "bitmap_outside_block_count b n \<longleftrightarrow> \<not> bits_of b \<subseteq> {..<unat n}"
proof (cases "n = MAX_ALLOCATOR_BLOCKS")
  case True
  then show ?thesis using bits_of_bounded [of b] by (simp add: bitmap_outside_block_count_def MAX_ALLOCATOR_BLOCKS_def)
next
  case False
  have n: "unat n \<le> 64" using assms by (simp add: MAX_ALLOCATOR_BLOCKS_def word_le_nat_alt)
  have allowed: "push_bit (unat n) 1 - 1 = (mask (unat n) :: u64)" by (simp add: mask_eq_exp_minus_1)
  have "bits_of (b AND NOT (mask (unat n))) = bits_of b - {..<unat n}"
    using n by (simp only: bits_of_and_not) (simp add: bits_of_mask)
  then have "b AND NOT (mask (unat n)) = 0 \<longleftrightarrow> bits_of b \<subseteq> {..<unat n}"
    using bits_of_eq_empty [of "b AND NOT (mask (unat n))"] by auto
  then show ?thesis using False unfolding bitmap_outside_block_count_def Let_def allowed by simp
qed

lemma restore_from_bitmap_Ok:
  "restore_from_bitmap base n b = Ok a \<longleftrightarrow>
     0 < n \<and> n \<le> MAX_ALLOCATOR_BLOCKS \<and> unat base + unat n < 2 ^ 64 \<and> bits_of b \<subseteq> {..<unat n} \<and>
     a = \<lparr>ba_base_sector = base, ba_block_count = n, ba_bitmap = b, ba_committed_bitmap = b\<rparr>"
proof -
  have "unat n < 2 ^ 64" using unat_bound [of n] by simp
  then have "unat (ucast n :: u64) = unat n" by (simp add: unsigned_ucast_eq take_bit_nat_eq_self)
  then show ?thesis
    by (auto simp: restore_from_bitmap_def allocator_new_def bitmap_outside_iff checked_add_word_def not_less
        word_neq_0_conv split: if_splits)
qed

section \<open>Journaled updates\<close>

definition pending_record :: "BlockAllocator \<Rightarrow> AllocatorJournal \<Rightarrow> u64 \<Rightarrow> AllocatorJournalRecord" where
  "pending_record a j b = \<lparr>ar_generation = aj_next_generation j, ar_previous_bitmap = ba_committed_bitmap a,
     ar_next_bitmap = b, ar_checksum = 0, ar_commit_marker = 0\<rparr>"

definition committed_record :: "AllocatorJournalRecord \<Rightarrow> AllocatorJournalRecord" where
  "committed_record r = r\<lparr>ar_checksum := checksum_record r, ar_commit_marker := ALLOCATOR_COMMIT_MARKER\<rparr>"

lemma allocate_journaled_Ok:
  "allocate_journaled n (a, j) = (Ok e, s') \<longleftrightarrow>
     (\<exists>b. find_free_extent a n = Ok e \<and> bitmap_with_extent (ba_bitmap a) e True = Ok b \<and> aj_len j \<noteq> JOURNAL_CAPACITY \<and>
        s' = (a\<lparr>ba_bitmap := b\<rparr>, j\<lparr>aj_records := (aj_records j)[aj_len j := pending_record a j b],
          aj_len := aj_len j + 1, aj_next_generation := aj_next_generation j + 1\<rparr>))"
  by (auto simp: allocate_journaled_def journal_append_def op_simps pending_record_def)

lemma validate_committed [simp]: "validate_record (committed_record r) = Ok ()"
  by (simp add: validate_record_def committed_record_def checksum_record_def)

lemma validate_pending [simp]: "validate_record (pending_record a j b) \<noteq> Ok ()"
  by (simp add: validate_record_def pending_record_def ALLOCATOR_COMMIT_MARKER_def)

lemma pending_previous [simp]: "ar_previous_bitmap (pending_record a j b) = ba_committed_bitmap a"
  by (simp add: pending_record_def)

lemma commit_last_eq:
  assumes "aj_len j \<noteq> 0"
  shows "commit_last (a, j) = (let r = committed_record (aj_records j ! (aj_len j - 1)) in
    (Ok r, a\<lparr>ba_committed_bitmap := ar_next_bitmap r, ba_bitmap := ar_next_bitmap r\<rparr>,
     j\<lparr>aj_records := (aj_records j)[aj_len j - 1 := r]\<rparr>))"
proof -
  let ?r = "aj_records j ! (aj_len j - 1)"
  have "journal_commit_last j = (Ok (committed_record ?r), j\<lparr>aj_records := (aj_records j)[aj_len j - 1 := committed_record ?r]\<rparr>)"
    using assms validate_committed [of ?r]
    by (simp add: journal_commit_last_def bindS_def readS_def modifyS_def Let_def committed_record_def)
  then show ?thesis by (simp add: commit_last_def bindS_def onS_def readS_def modifyS_def Let_def)
qed

text \<open>
  The protocol of the journal: every journaled allocation is committed before the next one. \<open>k\<close>
  counts the commits, and the flag tells whether an allocation is not committed yet.
\<close>

inductive journal_run :: "BlockAllocator \<Rightarrow> AllocatorJournal \<Rightarrow> nat \<Rightarrow> bool \<Rightarrow> bool" where
  journal_start: "allocator_new base n = Ok a \<Longrightarrow> journal_run a allocator_journal_new 0 False"
| journal_allocate: "journal_run a j k False \<Longrightarrow> allocate_journaled n (a, j) = (Ok e, a', j') \<Longrightarrow>
    journal_run a' j' k True"
| journal_commit: "journal_run a j k True \<Longrightarrow> commit_last (a, j) = (Ok r, a', j') \<Longrightarrow>
    journal_run a' j' (Suc k) False"

definition bitmap_after :: "AllocatorJournal \<Rightarrow> nat \<Rightarrow> u64" where
  "bitmap_after j i = (if i = 0 then 0 else ar_next_bitmap (aj_records j ! (i - 1)))"

definition journal_inv :: "BlockAllocator \<Rightarrow> AllocatorJournal \<Rightarrow> nat \<Rightarrow> bool \<Rightarrow> bool" where
  "journal_inv a j k pending \<longleftrightarrow>
     length (aj_records j) = JOURNAL_CAPACITY \<and> aj_len j = k + of_bool pending \<and> aj_len j \<le> JOURNAL_CAPACITY \<and>
     (\<forall>i < k. validate_record (aj_records j ! i) = Ok () \<and>
        ar_previous_bitmap (aj_records j ! i) = bitmap_after j i) \<and>
     ba_committed_bitmap a = bitmap_after j k \<and>
     (pending \<longrightarrow> validate_record (aj_records j ! k) \<noteq> Ok () \<and>
        ar_previous_bitmap (aj_records j ! k) = ba_committed_bitmap a)"

lemma journal_run_inv: "journal_run a j k pending \<Longrightarrow> journal_inv a j k pending"
proof (induction rule: journal_run.induct)
  case (journal_start base n a)
  then show ?case
    by (auto simp: journal_inv_def allocator_journal_new_def allocator_new_def bitmap_after_def)
next
  case (journal_allocate a j k n e a' j')
  then obtain b where len: "aj_len j \<noteq> JOURNAL_CAPACITY" and a': "a' = a\<lparr>ba_bitmap := b\<rparr>"
    and j': "j' = j\<lparr>aj_records := (aj_records j)[aj_len j := pending_record a j b],
          aj_len := aj_len j + 1, aj_next_generation := aj_next_generation j + 1\<rparr>"
    by (auto simp: allocate_journaled_Ok)
  have k: "aj_len j = k" "k < JOURNAL_CAPACITY" "length (aj_records j) = JOURNAL_CAPACITY"
    using journal_allocate(3) len by (auto simp: journal_inv_def)
  have before: "bitmap_after j' i = bitmap_after j i" if "i \<le> k" for i
    using that by (auto simp: bitmap_after_def j' k)
  show ?case
    using journal_allocate(3) before k unfolding journal_inv_def a' by (auto simp: j')
next
  case (journal_commit a j k r a' j')
  have inv: "journal_inv a j k True" by (rule journal_commit)
  have k: "aj_len j = Suc k" "k < JOURNAL_CAPACITY" "length (aj_records j) = JOURNAL_CAPACITY"
    using inv by (auto simp: journal_inv_def)
  let ?r = "committed_record (aj_records j ! k)"
  have a': "a' = a\<lparr>ba_committed_bitmap := ar_next_bitmap ?r, ba_bitmap := ar_next_bitmap ?r\<rparr>"
    and j': "j' = j\<lparr>aj_records := (aj_records j)[k := ?r]\<rparr>"
    using journal_commit(2) commit_last_eq [of j a] k(1) by (auto simp: Let_def)
  have before: "bitmap_after j' i = bitmap_after j i" if "i \<le> k" for i
    using that by (auto simp: bitmap_after_def j')
  have "ar_previous_bitmap ?r = bitmap_after j k" using inv by (simp add: journal_inv_def committed_record_def)
  then show ?case
    using inv before k unfolding journal_inv_def a'
    by (auto simp: j' less_Suc_eq nth_list_update bitmap_after_def [of _ "Suc k"])
qed

lemma recover_from_inv:
  assumes inv: "journal_inv a j k pending" and "i \<le> k"
  shows "recover_from j i (bitmap_after j i) =
    Ok \<lparr>rr_replayed_records = k, rr_rolled_back_records = of_bool pending, rr_committed_bitmap = ba_committed_bitmap a\<rparr>"
  using assms(2)
proof (induction i rule: inc_induct)
  case base
  show ?case
    using inv unfolding recover_from.simps [of j k] journal_inv_def by (cases pending) (auto simp: Let_def)
next
  case (step i)
  have "bitmap_after j (Suc i) = ar_next_bitmap (aj_records j ! i)" by (simp add: bitmap_after_def)
  moreover have "i < aj_len j" "i < length (aj_records j)" "validate_record (aj_records j ! i) = Ok ()"
    "ar_previous_bitmap (aj_records j ! i) = bitmap_after j i"
    using inv step(2) by (auto simp: journal_inv_def)
  ultimately show ?case using step(3) unfolding recover_from.simps [of j i] by (simp add: Let_def)
qed


section \<open>Properties\<close>

definition demo_allocator :: BlockAllocator where
  "demo_allocator = \<lparr>ba_base_sector = 64, ba_block_count = 8, ba_bitmap = 0, ba_committed_bitmap = 0\<rparr>"

lemma demo_allocator_new: "allocator_new 64 8 = Ok demo_allocator"
  by (simp add: allocator_new_def demo_allocator_def MAX_ALLOCATOR_BLOCKS_def checked_add_word_def)

lemma demo_find:
  "find_free_extent demo_allocator 2 = Ok \<lparr>be_start_block = 0, be_block_count = 2\<rparr>"
  by (simp add: find_free_extent_def demo_allocator_def find_from.simps extent_is_free_def validate_extent_def
      checked_add_word_def free_from.simps)

lemma demo_mark: "bitmap_with_extent 0 \<lparr>be_start_block = 0, be_block_count = 2\<rparr> True = Ok 3"
  by (simp add: bitmap_with_extent_def checked_add_word_def MAX_ALLOCATOR_BLOCKS_def mark_from.simps)

lemma demo_find2:
  "find_free_extent (demo_allocator\<lparr>ba_bitmap := 3\<rparr>) 1 = Ok \<lparr>be_start_block = 2, be_block_count = 1\<rparr>"
  by (simp add: find_free_extent_def demo_allocator_def find_from.simps extent_is_free_def validate_extent_def
      checked_add_word_def free_from.simps)

lemma demo_mark2: "bitmap_with_extent 3 \<lparr>be_start_block = 2, be_block_count = 1\<rparr> True = Ok 7"
  by (simp add: bitmap_with_extent_def checked_add_word_def MAX_ALLOCATOR_BLOCKS_def mark_from.simps)


lemma demo_inv: "allocator_inv demo_allocator"
  by (simp add: allocator_inv_def demo_allocator_def MAX_ALLOCATOR_BLOCKS_def)

text \<open>
  C30. First fit. On an allocator whose bitmap lies within its blocks, an allocation returns on every
  branch what the request asks for: an invalid-extent error exactly for an empty or too large
  request, otherwise the lowest free run of the requested length, or out-of-space when there is none. The
  blocks of the run become used, no other block changes, and the bitmap stays within the blocks.
\<close>

theorem allocate_first_fit:
  assumes "allocator_inv a" and "allocate n a = (r, a')"
  shows "(if n = 0 \<or> ba_block_count a < n then r = Err InvalidExtent else first_fit a n 0 r) \<and>
    allocator_inv a' \<and>
    bits_of (ba_bitmap a') = bits_of (ba_bitmap a) \<union> (case r of Ok e \<Rightarrow> extent_blocks e | _ \<Rightarrow> {}) \<and>
    (case r of Ok e \<Rightarrow> extent_blocks e \<inter> bits_of (ba_bitmap a) = {} | _ \<Rightarrow> True)"
proof -
  note spec = allocate_spec [OF assms]
  then have "case r of Ok e \<Rightarrow> extent_blocks e \<inter> bits_of (ba_bitmap a) = {} | _ \<Rightarrow> True"
    using allocated_Ok(2) [OF assms(1)] by (cases r) auto
  with spec show ?thesis by (simp add: allocated_def)
qed

lemma demo_allocate: "allocate 2 demo_allocator = (Ok \<lparr>be_start_block = 0, be_block_count = 2\<rparr>,
    demo_allocator\<lparr>ba_bitmap := 3, ba_committed_bitmap := 3\<rparr>)"
  using demo_find demo_mark
  by (simp add: allocate_def mark_extent_def bindS_def readS_def modifyS_def demo_allocator_def)

theorem allocate_first_fit_witness:
  "first_fit demo_allocator 2 0 (Ok \<lparr>be_start_block = 0, be_block_count = 2\<rparr>) \<and>
   bits_of (3 :: u64) = extent_blocks \<lparr>be_start_block = 0, be_block_count = 2\<rparr>"
  using allocate_first_fit [OF demo_inv demo_allocate] by (simp add: demo_allocator_def)

text \<open>A run of allocations and of releases of extents that are held, with the extents held.\<close>

inductive alloc_run :: "BlockAllocator \<Rightarrow> BlockExtent set \<Rightarrow> bool" where
  alloc_start: "allocator_new base n = Ok a \<Longrightarrow> alloc_run a {}"
| alloc_take: "alloc_run a held \<Longrightarrow> allocate n a = (Ok e, a') \<Longrightarrow> alloc_run a' (insert e held)"
| alloc_free: "alloc_run a held \<Longrightarrow> e \<in> held \<Longrightarrow> free e a = (Ok (), a') \<Longrightarrow> alloc_run a' (held - {e})"

lemma alloc_run_inv:
  "alloc_run a held \<Longrightarrow> allocator_inv a \<and> bits_of (ba_bitmap a) = \<Union> (extent_blocks ` held) \<and>
     disjoint_family_on extent_blocks held \<and> (\<forall>e \<in> held. extent_blocks e \<noteq> {})"
proof (induction rule: alloc_run.induct)
  case (alloc_start base n a)
  then show ?case
    by (auto simp: allocator_new_def allocator_inv_def disjoint_family_on_def word_neq_0_conv not_less)
next
  case (alloc_take a held n e a')
  then have inv: "allocator_inv a" by blast
  note spec = allocate_spec [OF inv alloc_take(2)]
  then have e: "extent_blocks e \<inter> bits_of (ba_bitmap a) = {}" "extent_blocks e \<noteq> {}"
    using allocated_Ok(2,5) [OF inv] by auto
  then have "disjoint_family_on extent_blocks (insert e held)"
    using alloc_take.IH unfolding disjoint_family_on_def by blast
  then show ?case using spec e alloc_take.IH by auto
next
  case (alloc_free a held e a')
  then have inv: "allocator_inv a" by blast
  have spec: "allocator_inv a'" "bits_of (ba_bitmap a') = bits_of (ba_bitmap a) - extent_blocks e"
    using free_spec [OF inv alloc_free(3)] by (auto split: if_splits)
  have disj: "disjoint_family_on extent_blocks held" "bits_of (ba_bitmap a) = \<Union> (extent_blocks ` held)"
    using alloc_free.IH by blast+
  have "extent_blocks e \<inter> extent_blocks e' = {}" if "e' \<in> held - {e}" for e'
    using disj(1) alloc_free(2) that unfolding disjoint_family_on_def by blast
  then have "bits_of (ba_bitmap a') = \<Union> (extent_blocks ` (held - {e}))"
    using spec(2) disj(2) alloc_free(2) by auto
  then show ?case using spec(1) alloc_free.IH unfolding disjoint_family_on_def by blast
qed




lemma demo_journaled:
  "allocate_journaled 2 (demo_allocator, allocator_journal_new) = (Ok \<lparr>be_start_block = 0, be_block_count = 2\<rparr>,
     demo_allocator\<lparr>ba_bitmap := 3\<rparr>, allocator_journal_new\<lparr>aj_records := (replicate 8 allocator_record_empty)
       [0 := pending_record demo_allocator allocator_journal_new 3], aj_len := 1, aj_next_generation := 2\<rparr>)"
  using demo_find demo_mark unfolding allocate_journaled_Ok
  by (simp add: demo_allocator_def allocator_journal_new_def JOURNAL_CAPACITY_def)


text \<open>
  C33. Recovery loses a commit when two allocations share it. After two journaled allocations on a new
  journal and one commit, the allocator's committed bitmap marks the blocks of both extents, but
  recovery stops at the first, uncommitted record: it replays nothing and returns an empty bitmap, so the
  committed blocks count as free again.
\<close>

theorem recovery_loses_shared_commit:
  assumes inv: "allocator_inv a"
    and first: "allocate_journaled n (a, allocator_journal_new) = (Ok e, a1, j1)"
    and second: "allocate_journaled m (a1, j1) = (Ok e', a2, j2)"
    and commit: "commit_last (a2, j2) = (Ok r, a3, j3)"
  shows "bits_of (ba_committed_bitmap a3) = bits_of (ba_bitmap a) \<union> extent_blocks e \<union> extent_blocks e' \<and>
    recover_allocator_journal j3 = Ok \<lparr>rr_replayed_records = 0, rr_rolled_back_records = 2, rr_committed_bitmap = 0\<rparr>"
proof -
  obtain b where b: "find_free_extent a n = Ok e" "bitmap_with_extent (ba_bitmap a) e True = Ok b"
    and s1: "a1 = a\<lparr>ba_bitmap := b\<rparr>" "aj_len j1 = 1" "length (aj_records j1) = 8"
      "aj_records j1 ! 0 = pending_record a allocator_journal_new b"
    using first by (auto simp: allocate_journaled_Ok allocator_journal_new_def JOURNAL_CAPACITY_def)
  obtain b' where b': "find_free_extent a1 m = Ok e'" "bitmap_with_extent b e' True = Ok b'"
    and s2: "aj_len j2 = 2" "length (aj_records j2) = 8" "aj_records j2 ! 0 = aj_records j1 ! 0"
      "aj_records j2 ! 1 = pending_record a1 j1 b'"
    using second s1 by (auto simp: allocate_journaled_Ok)
  have e: "bits_of b = bits_of (ba_bitmap a) \<union> extent_blocks e" "extent_blocks e \<subseteq> {..<unat (ba_block_count a)}"
    using allocated_Ok [OF inv, of n e] find_free_extent_allocated [OF inv, of n] b
      bitmap_with_extent_Ok [of e "ba_bitmap a" True] by auto
  then have inv1: "allocator_inv a1" using inv by (auto simp: allocator_inv_def s1)
  have "bits_of b' = bits_of b \<union> extent_blocks e'"
    using allocated_Ok(3) [OF inv1, of m e'] find_free_extent_allocated [OF inv1, of m] b'
      bitmap_with_extent_Ok [of e' b True] by auto
  moreover have "ba_committed_bitmap a3 = b'" and s3: "aj_len j3 = 2" "length (aj_records j3) = 8"
    "aj_records j3 ! 0 = pending_record a allocator_journal_new b"
    using commit commit_last_eq [of j2 a2] s1 s2
    by (auto simp: Let_def committed_record_def pending_record_def)
  moreover have "recover_allocator_journal j3 = Ok \<lparr>rr_replayed_records = 0, rr_rolled_back_records = 2, rr_committed_bitmap = 0\<rparr>"
    unfolding recover_allocator_journal_def recover_from.simps [of j3 0] by (simp add: s3 Let_def)
  ultimately show ?thesis using e by auto
qed

lemma demo_journaled2:
  "\<exists>j j3 r. allocate_journaled 2 (demo_allocator, allocator_journal_new) =
       (Ok \<lparr>be_start_block = 0, be_block_count = 2\<rparr>, demo_allocator\<lparr>ba_bitmap := 3\<rparr>, j) \<and>
     (\<exists>j2. allocate_journaled 1 (demo_allocator\<lparr>ba_bitmap := 3\<rparr>, j) = (Ok \<lparr>be_start_block = 2, be_block_count = 1\<rparr>,
         demo_allocator\<lparr>ba_bitmap := 7\<rparr>, j2) \<and>
       commit_last (demo_allocator\<lparr>ba_bitmap := 7\<rparr>, j2) =
         (Ok r, demo_allocator\<lparr>ba_committed_bitmap := 7, ba_bitmap := 7\<rparr>, j3))"
proof -
  let ?j = "snd (snd (allocate_journaled 2 (demo_allocator, allocator_journal_new)))"
  have j: "aj_len ?j = 1" "length (aj_records ?j) = 8" "aj_next_generation ?j = 2"
    unfolding demo_journaled by simp_all
  let ?j2 = "?j\<lparr>aj_records := (aj_records ?j)[1 := pending_record (demo_allocator\<lparr>ba_bitmap := 3\<rparr>) ?j 7], aj_len := 2,
    aj_next_generation := 3\<rparr>"
  have "allocate_journaled 1 (demo_allocator\<lparr>ba_bitmap := 3\<rparr>, ?j) = (Ok \<lparr>be_start_block = 2, be_block_count = 1\<rparr>,
      demo_allocator\<lparr>ba_bitmap := 7\<rparr>, ?j2)"
    using demo_find2 demo_mark2 unfolding allocate_journaled_Ok by (simp add: j JOURNAL_CAPACITY_def)
  moreover have "aj_records ?j2 ! 1 = pending_record (demo_allocator\<lparr>ba_bitmap := 3\<rparr>) ?j 7" by (simp add: j)
  then have "commit_last (demo_allocator\<lparr>ba_bitmap := 7\<rparr>, ?j2) = (let r = committed_record (aj_records ?j2 ! 1) in
      (Ok r, demo_allocator\<lparr>ba_committed_bitmap := 7, ba_bitmap := 7\<rparr>, ?j2\<lparr>aj_records := (aj_records ?j2)[1 := r]\<rparr>))"
    using commit_last_eq [of ?j2 "demo_allocator\<lparr>ba_bitmap := 7\<rparr>"]
    by (simp add: Let_def committed_record_def pending_record_def)
  ultimately show ?thesis using demo_journaled by (auto simp: Let_def)
qed

theorem recovery_loses_shared_commit_witness:
  "\<exists>j. bits_of (7 :: u64) = {0..<2} \<union> {2..<3} \<and>
     recover_allocator_journal j = Ok \<lparr>rr_replayed_records = 0, rr_rolled_back_records = 2, rr_committed_bitmap = 0\<rparr>"
  using demo_journaled2 recovery_loses_shared_commit [OF demo_inv]
  by (fastforce simp: extent_blocks_def demo_allocator_def)

end
