(* ===== verification/Kernel_Scheduler.thy ===== *)
theory Kernel_Scheduler
  imports Kernel_Identity Ring_Buffer
begin

text \<open>
  The round-robin scheduler of \<open>core/src/scheduler.rs\<close>: a fixed array of tasks and a cursor. The lemmas
  show which task is chosen next and that no ready task waits longer than one round.
\<close>

section \<open>The scheduler\<close>

datatype SchedulerError =
    NoReadyTask | BadScheduleOrder | BadTaskRunCount | BadIdleRunCount | BadTerminationState

datatype SchedulerTaskState = Ready | Terminated

record SchedulerTask =
  st_id :: TaskId
  st_state :: SchedulerTaskState

definition task_ready :: "TaskId \<Rightarrow> SchedulerTask" where
  "task_ready tid = \<lparr>st_id = tid, st_state = Ready\<rparr>"

definition task_terminated :: "TaskId \<Rightarrow> SchedulerTask" where
  "task_terminated tid = \<lparr>st_id = tid, st_state = Terminated\<rparr>"

record RoundRobinScheduler =
  rrs_tasks :: "SchedulerTask list"
  rrs_cursor :: usize

definition scheduler_new :: "SchedulerTask list \<Rightarrow> RoundRobinScheduler" where
  "scheduler_new tasks = \<lparr>rrs_tasks = tasks, rrs_cursor = 0\<rparr>"

function next_from :: "usize \<Rightarrow> (RoundRobinScheduler, SchedulerError, TaskId) op" where
  "next_from checked s =
     (if checked < length (rrs_tasks s) then
        let index = rrs_cursor s;
            s' = s\<lparr>rrs_cursor := (rrs_cursor s + 1) mod length (rrs_tasks s)\<rparr> in
        if index < length (rrs_tasks s) then
          if st_state (rrs_tasks s ! index) = Ready then (Ok (st_id (rrs_tasks s ! index)), s')
          else next_from (checked + 1) s'
        else (Panic, s')
      else (Err NoReadyTask, s))"
  by pat_completeness auto
termination
  by (relation "measure (\<lambda>(checked, s). length (rrs_tasks s) - checked)") auto

declare next_from.simps [simp del]

definition next_ready :: "(RoundRobinScheduler, SchedulerError, TaskId) op" where
  "next_ready = next_from 0"

section \<open>The order of the tasks\<close>

definition is_ready :: "SchedulerTask \<Rightarrow> bool" where
  "is_ready t \<longleftrightarrow> st_state t = Ready"

text \<open>The tasks in the order of the round that starts at the cursor.\<close>

abbreviation round :: "RoundRobinScheduler \<Rightarrow> SchedulerTask list" where
  "round s \<equiv> ring_list (rrs_tasks s) (rrs_cursor s)"

lemma next_from_eq:
  assumes "rrs_cursor s < length (rrs_tasks s)" and "checked \<le> length (rrs_tasks s)"
    and "cursor = (rrs_cursor s + checked) mod length (rrs_tasks s)"
  shows "next_from checked (s\<lparr>rrs_cursor := cursor\<rparr>) =
    (case position is_ready (drop checked (round s)) of
       None \<Rightarrow> (Err NoReadyTask, s)
     | Some k \<Rightarrow> (Ok (st_id (round s ! (checked + k))),
         s\<lparr>rrs_cursor := (rrs_cursor s + checked + k + 1) mod length (rrs_tasks s)\<rparr>))"
  using assms(2,3)
proof (induction "length (rrs_tasks s) - checked" arbitrary: checked cursor)
  case 0
  then have "checked = length (rrs_tasks s)" by simp
  then show ?case using 0 assms(1) by (simp add: next_from.simps)
next
  case (Suc d)
  let ?n = "length (rrs_tasks s)"
  have lt: "checked < ?n" using Suc by simp
  then have cur: "cursor < ?n" using Suc.prems mod_lt [OF lt] by simp
  have head: "drop checked (round s) = rrs_tasks s ! cursor # drop (Suc checked) (round s)"
    using lt Suc.prems by (simp add: Cons_nth_drop_Suc [symmetric] ring_list_nth)
  have step: "next_from checked (s\<lparr>rrs_cursor := cursor\<rparr>) =
      (if is_ready (rrs_tasks s ! cursor)
       then (Ok (st_id (rrs_tasks s ! cursor)), s\<lparr>rrs_cursor := (cursor + 1) mod ?n\<rparr>)
       else next_from (Suc checked) (s\<lparr>rrs_cursor := (cursor + 1) mod ?n\<rparr>))"
    using lt cur by (subst next_from.simps) (simp add: is_ready_def)
  have after: "(cursor + 1) mod ?n = (rrs_cursor s + Suc checked) mod ?n"
    using Suc.prems by (simp add: mod_simps)
  show ?case
  proof (cases "is_ready (rrs_tasks s ! cursor)")
    case True
    then show ?thesis using step head after lt Suc.prems by (simp add: ring_list_nth)
  next
    case False
    have "next_from (Suc checked) (s\<lparr>rrs_cursor := (cursor + 1) mod ?n\<rparr>) =
      (case position is_ready (drop (Suc checked) (round s)) of
         None \<Rightarrow> (Err NoReadyTask, s)
       | Some k \<Rightarrow> (Ok (st_id (round s ! (Suc checked + k))),
           s\<lparr>rrs_cursor := (rrs_cursor s + Suc checked + k + 1) mod ?n\<rparr>))"
      using Suc lt after by (intro Suc.hyps(1)) auto
    then show ?thesis using step False unfolding head by (simp split: option.splits)
  qed
qed

lemma next_ready_eq:
  assumes "rrs_cursor s < length (rrs_tasks s)"
  shows "next_ready s =
    (case position is_ready (round s) of
       None \<Rightarrow> (Err NoReadyTask, s)
     | Some k \<Rightarrow> (Ok (st_id (round s ! k)), s\<lparr>rrs_cursor := (rrs_cursor s + k + 1) mod length (rrs_tasks s)\<rparr>))"
  using next_from_eq [OF assms, of 0 "rrs_cursor s"] assms by (simp add: next_ready_def split: option.splits)

text \<open>The results of the next calls.\<close>

primrec next_calls :: "nat \<Rightarrow> RoundRobinScheduler \<Rightarrow> (SchedulerError, TaskId) result list" where
  "next_calls 0 s = []"
| "next_calls (Suc n) s = fst (next_ready s) # next_calls n (snd (next_ready s))"

lemma chosen_within:
  assumes "rrs_cursor s < length (rrs_tasks s)" and "d < length (rrs_tasks s)" and "is_ready (round s ! d)"
    and "d < n"
  shows "Ok (st_id (round s ! d)) \<in> set (next_calls n s)"
  using assms
proof (induction n arbitrary: s d)
  case (Suc n)
  let ?n = "length (rrs_tasks s)"
  obtain k where k: "position is_ready (round s) = Some k"
    using Suc.prems(2,3) by (metis length_ring_list nth_mem option.exhaust position_None)
  then have first: "k < ?n" "\<And>j. j < k \<Longrightarrow> \<not> is_ready (round s ! j)" by (simp_all add: position_Some)
  show ?case
  proof (cases "d = k")
    case True
    then show ?thesis using next_ready_eq [OF Suc.prems(1)] k by simp
  next
    case False
    then have "k < d" using first(2) Suc.prems(3) by (metis linorder_neqE_nat)
    let ?s = "s\<lparr>rrs_cursor := (rrs_cursor s + k + 1) mod ?n\<rparr>"
    have pos: "rrs_cursor ?s < length (rrs_tasks ?s)" using mod_lt [OF Suc.prems(1)] by simp
    have "((rrs_cursor s + k + 1) mod ?n + (d - k - 1)) mod ?n = (rrs_cursor s + k + 1 + (d - k - 1)) mod ?n"
      by (rule mod_add_left_eq)
    also have "rrs_cursor s + k + 1 + (d - k - 1) = rrs_cursor s + d" using \<open>k < d\<close> by simp
    finally have same: "round ?s ! (d - k - 1) = round s ! d"
      using Suc.prems(2) by (simp add: ring_list_nth)
    have "Ok (st_id (round ?s ! (d - k - 1))) \<in> set (next_calls n ?s)"
      using Suc.prems same \<open>k < d\<close> by (intro Suc.IH pos) (simp_all only: same, auto)
    then show ?thesis using next_ready_eq [OF Suc.prems(1)] k same by simp
  qed
qed simp

section \<open>Properties\<close>

text \<open>
  C34. The next task is the first ready one of the round. From a valid cursor the loop of \<open>next_ready\<close>
  ends without abort: it returns the first ready task in the order that starts at the cursor and moves
  the cursor just behind it, or reports that no task is ready and leaves the scheduler as it was.
\<close>

theorem next_ready_first:
  assumes "rrs_cursor s < length (rrs_tasks s)"
  shows "(\<forall>k. k < length (rrs_tasks s) \<longrightarrow> is_ready (round s ! k) \<longrightarrow> (\<forall>j < k. \<not> is_ready (round s ! j)) \<longrightarrow>
      next_ready s = (Ok (st_id (round s ! k)), s\<lparr>rrs_cursor := (rrs_cursor s + k + 1) mod length (rrs_tasks s)\<rparr>)) \<and>
    ((\<forall>t \<in> set (rrs_tasks s). \<not> is_ready t) \<longrightarrow> next_ready s = (Err NoReadyTask, s)) \<and>
    settled (fst (next_ready s))"
proof (intro conjI allI impI)
  fix k
  assume "k < length (rrs_tasks s)" "is_ready (round s ! k)" "\<forall>j < k. \<not> is_ready (round s ! j)"
  then have "position is_ready (round s) = Some k" by (simp add: position_Some)
  then show "next_ready s = (Ok (st_id (round s ! k)), s\<lparr>rrs_cursor := (rrs_cursor s + k + 1) mod length (rrs_tasks s)\<rparr>)"
    using next_ready_eq [OF assms] by simp
next
  assume none: "\<forall>t \<in> set (rrs_tasks s). \<not> is_ready t"
  have "position is_ready (round s) = None" using none set_ring_list [of "rrs_tasks s"] by (auto simp: position_None)
  then show "next_ready s = (Err NoReadyTask, s)" using next_ready_eq [OF assms] by simp
next
  show "settled (fst (next_ready s))" by (simp add: next_ready_eq [OF assms] split: option.splits)
qed

definition demo_scheduler :: RoundRobinScheduler where
  "demo_scheduler = scheduler_new [task_terminated 1, task_ready 2, task_ready 3]"

lemma demo_round: "round demo_scheduler = [task_terminated 1, task_ready 2, task_ready 3]"
  by (simp add: demo_scheduler_def scheduler_new_def ring_list_def upt_rec)

theorem next_ready_first_witness:
  "next_ready demo_scheduler = (Ok 2, demo_scheduler\<lparr>rrs_cursor := 2\<rparr>)"
proof -
  have s: "rrs_cursor demo_scheduler = 0" "length (rrs_tasks demo_scheduler) = 3"
    by (simp_all add: demo_scheduler_def scheduler_new_def)
  have "is_ready (round demo_scheduler ! 1)" "\<forall>j < 1. \<not> is_ready (round demo_scheduler ! j)" "st_id (round demo_scheduler ! 1) = 2"
    unfolding demo_round by (simp_all add: is_ready_def task_ready_def task_terminated_def)
  then show ?thesis using next_ready_first [of demo_scheduler, THEN conjunct1, rule_format, of 1] by (simp add: s)
qed

text \<open>
  C35. No ready task starves. A task that is ready is chosen within one round: among the results of the
  next \<open>n\<close> calls, for \<open>n\<close> tasks, is its id.
\<close>

theorem ready_task_chosen:
  assumes cursor: "rrs_cursor s < length (rrs_tasks s)" and i: "i < length (rrs_tasks s)"
    and ready: "is_ready (rrs_tasks s ! i)"
  shows "Ok (st_id (rrs_tasks s ! i)) \<in> set (next_calls (length (rrs_tasks s)) s)"
proof -
  let ?n = "length (rrs_tasks s)"
  define d where "d = (i + ?n - rrs_cursor s) mod ?n"
  have d: "d < ?n" unfolding d_def by (rule mod_lt [OF i])
  have "(rrs_cursor s + d) mod ?n = (rrs_cursor s + (i + ?n - rrs_cursor s)) mod ?n"
    unfolding d_def by (simp add: mod_simps)
  also have "\<dots> = i" using cursor i by simp
  finally have "round s ! d = rrs_tasks s ! i" using d by (simp add: ring_list_nth)
  then show ?thesis using chosen_within [OF cursor d _ d] ready by simp
qed

theorem ready_task_chosen_witness: "Ok 3 \<in> set (next_calls 3 demo_scheduler)"
  using ready_task_chosen [of demo_scheduler 2]
  by (simp add: demo_scheduler_def scheduler_new_def task_ready_def is_ready_def numeral_nat)

end
