(* ===== verification/Kernel_Gates.thy ===== *)
theory Kernel_Gates
  imports Kernel_Capabilities Kernel_Ipc Kernel_Allocator
begin

text \<open>
  The services that stand behind the capability table: the storage facade of
  \<open>core/src/storage_service.rs\<close>, the write journal of \<open>core/src/storage_journal.rs\<close>, the guarded send of
  \<open>core/src/permission_validation.rs\<close> and the shared regions of \<open>core/src/shared_memory.rs\<close>. The
  lemmas show that each of them acts only under a live grant, and what journal recovery replays.
\<close>

section \<open>The storage service\<close>

definition STORAGE_RESOURCE_ID :: ResourceId where "STORAGE_RESOURCE_ID = 0x570A0001"

datatype StorageServiceError =
    ServiceCapability CapabilityError | ServiceIdentityFailure ServiceIdentityError | InvalidRange

datatype StorageOperation = StorageRead | StorageWrite

record StorageRequest =
  sq_operation :: StorageOperation
  sq_start_sector :: u64
  sq_sector_count :: u16

definition request_read :: "u64 \<Rightarrow> u16 \<Rightarrow> StorageRequest" where
  "request_read start_sector sector_count =
     \<lparr>sq_operation = StorageRead, sq_start_sector = start_sector, sq_sector_count = sector_count\<rparr>"

definition request_write :: "u64 \<Rightarrow> u16 \<Rightarrow> StorageRequest" where
  "request_write start_sector sector_count =
     \<lparr>sq_operation = StorageWrite, sq_start_sector = start_sector, sq_sector_count = sector_count\<rparr>"

record StorageAccess =
  sa_operation :: StorageOperation
  sa_start_sector :: u64
  sa_sector_count :: u16

record StorageService =
  ss_device :: BlockDeviceInfo
  ss_resource :: ResourceId

definition storage_service_new :: "BlockDeviceInfo \<Rightarrow> StorageService" where
  "storage_service_new device = \<lparr>ss_device = device, ss_resource = STORAGE_RESOURCE_ID\<rparr>"

definition required_rights :: "StorageRequest \<Rightarrow> RightsMask" where
  "required_rights request =
     (case sq_operation request of StorageRead \<Rightarrow> RIGHT_READ | StorageWrite \<Rightarrow> RIGHT_WRITE)"

definition validate_range :: "StorageService \<Rightarrow> StorageRequest \<Rightarrow> (StorageServiceError, unit) result" where
  "validate_range service request =
     bindR (ensure (\<not> sq_sector_count request = 0) InvalidRange) (\<lambda>_.
     bindR (ok_or (checked_add_word (sq_start_sector request) (ucast (sq_sector_count request))) InvalidRange) (\<lambda>limit.
     ensure (\<not> capacity_sectors (ss_device service) < limit) InvalidRange))"

definition authorize_request ::
    "StorageService \<Rightarrow> CapabilityTable \<Rightarrow> ServiceId \<Rightarrow> CapabilityHandle \<Rightarrow> StorageRequest \<Rightarrow>
     (StorageServiceError, StorageAccess) result" where
  "authorize_request service table caller handle request =
     bindR (map_errR ServiceCapability (validate table caller handle (ss_resource service) (required_rights request))) (\<lambda>_.
     bindR (validate_range service request) (\<lambda>_.
     Ok \<lparr>sa_operation = sq_operation request, sa_start_sector = sq_start_sector request,
         sa_sector_count = sq_sector_count request\<rparr>))"

section \<open>The write journal\<close>

definition WRITE_JOURNAL_CAPACITY :: usize where "WRITE_JOURNAL_CAPACITY = 8"
definition WRITE_COMMIT_MARKER :: u32 where "WRITE_COMMIT_MARKER = 0x5059434D"

datatype JournalError =
    WriteJournalFull | ReadIsNotJournaled | NoCommitMarker | RecordChecksumMismatch
  | JournalStorage StorageServiceError | JournalIdentity ServiceIdentityError

record JournalRecord =
  jr_sequence :: u64
  jr_operation :: StorageOperation
  jr_start_sector :: u64
  jr_sector_count :: u16
  jr_checksum :: u32
  jr_commit_marker :: u32

definition journal_record_empty :: JournalRecord where
  "journal_record_empty = \<lparr>jr_sequence = 0, jr_operation = StorageRead, jr_start_sector = 0, jr_sector_count = 0,
     jr_checksum = 0, jr_commit_marker = 0\<rparr>"

definition record_is_committed :: "JournalRecord \<Rightarrow> bool" where
  "record_is_committed record \<longleftrightarrow> jr_commit_marker record = WRITE_COMMIT_MARKER"

record RecoveryReport =
  rp_replayed_records :: usize
  rp_rolled_back_records :: usize
  rp_last_sequence :: u64

record AppendOnlyJournal =
  wj_records :: "JournalRecord list"
  wj_len :: usize
  wj_next_sequence :: u64

definition write_journal_new :: AppendOnlyJournal where
  "write_journal_new = \<lparr>wj_records = replicate WRITE_JOURNAL_CAPACITY journal_record_empty, wj_len = 0,
     wj_next_sequence = 1\<rparr>"

definition operation_code :: "StorageOperation \<Rightarrow> u8" where
  "operation_code operation = (case operation of StorageRead \<Rightarrow> 1 | StorageWrite \<Rightarrow> 2)"

text \<open>The journal has its own copy of the checksum step of the allocator, with the same text.\<close>

definition checksum_for :: "JournalRecord \<Rightarrow> u32" where
  "checksum_for record =
     checksum_mix (checksum_mix (checksum_mix (checksum_mix 0x811C9DC5 (jr_sequence record))
       (ucast (operation_code (jr_operation record)))) (jr_start_sector record)) (ucast (jr_sector_count record))"

definition validate_committed :: "JournalRecord \<Rightarrow> (JournalError, unit) result" where
  "validate_committed record =
     bindR (ensure (\<not> jr_commit_marker record \<noteq> WRITE_COMMIT_MARKER) NoCommitMarker) (\<lambda>_.
     ensure (\<not> jr_checksum record \<noteq> checksum_for record) RecordChecksumMismatch)"

definition append_write :: "StorageAccess \<Rightarrow> (AppendOnlyJournal, JournalError, JournalRecord) op" where
  "append_write access =
     bindS (readS (\<lambda>_. ensure (\<not> sa_operation access \<noteq> StorageWrite) ReadIsNotJournaled)) (\<lambda>_.
     bindS (readS (\<lambda>j. ensure (\<not> wj_len j = WRITE_JOURNAL_CAPACITY) WriteJournalFull)) (\<lambda>_.
     bindS (readS (\<lambda>j. Ok \<lparr>jr_sequence = wj_next_sequence j, jr_operation = sa_operation access,
       jr_start_sector = sa_start_sector access, jr_sector_count = sa_sector_count access,
       jr_checksum = 0, jr_commit_marker = 0\<rparr>)) (\<lambda>record.
     bindS (modifyS (\<lambda>j. j\<lparr>wj_records := (wj_records j)[wj_len j := record], wj_len := wj_len j + 1,
       wj_next_sequence := wj_next_sequence j + 1\<rparr>)) (\<lambda>_.
     readS (\<lambda>_. Ok record)))))"

definition commit_last_write :: "(AppendOnlyJournal, JournalError, JournalRecord) op" where
  "commit_last_write =
     bindS (readS (\<lambda>j. ensure (\<not> wj_len j = 0) NoCommitMarker)) (\<lambda>_.
     bindS (readS (\<lambda>j. let record = wj_records j ! (wj_len j - 1) in
       Ok (record\<lparr>jr_checksum := checksum_for record, jr_commit_marker := WRITE_COMMIT_MARKER\<rparr>))) (\<lambda>record.
     bindS (modifyS (\<lambda>j. j\<lparr>wj_records := (wj_records j)[wj_len j - 1 := record]\<rparr>)) (\<lambda>_.
     bindS (readS (\<lambda>_. validate_committed record)) (\<lambda>_.
     readS (\<lambda>_. Ok record)))))"

definition last_write :: "AppendOnlyJournal \<Rightarrow> JournalRecord option" where
  "last_write j = (if wj_len j = 0 then None else Some (wj_records j ! (wj_len j - 1)))"

definition journal_first_write ::
    "StorageService \<Rightarrow> CapabilityTable \<Rightarrow> ServiceId \<Rightarrow> CapabilityHandle \<Rightarrow> StorageRequest \<Rightarrow>
     (AppendOnlyJournal, JournalError, JournalRecord) op" where
  "journal_first_write service table caller handle request =
     bindS (readS (\<lambda>_. map_errR JournalStorage (authorize_request service table caller handle request))) append_write"

function recover_prefix :: "AppendOnlyJournal \<Rightarrow> usize \<Rightarrow> u64 \<Rightarrow> (JournalError, RecoveryReport) result" where
  "recover_prefix j replayed_records last_sequence =
     (if replayed_records < wj_len j then
        if replayed_records < length (wj_records j) then
          let record = wj_records j ! replayed_records in
          if validate_committed record \<noteq> Ok () then
            Ok \<lparr>rp_replayed_records = replayed_records, rp_rolled_back_records = wj_len j - replayed_records,
                rp_last_sequence = last_sequence\<rparr>
          else recover_prefix j (replayed_records + 1) (jr_sequence record)
        else Panic
      else Ok \<lparr>rp_replayed_records = replayed_records, rp_rolled_back_records = 0,
               rp_last_sequence = last_sequence\<rparr>)"
  by pat_completeness auto
termination
  by (relation "measure (\<lambda>(j, replayed_records, _). wj_len j - replayed_records)") auto

declare recover_prefix.simps [simp del]

definition recover_committed_prefix :: "AppendOnlyJournal \<Rightarrow> (JournalError, RecoveryReport) result" where
  "recover_committed_prefix j = recover_prefix j 0 0"

section \<open>Guarded sends and shared regions\<close>

datatype PermissionError = PermissionCapability CapabilityError | PermissionIpc IpcError

definition send_with_capability ::
    "CapabilityTable \<Rightarrow> ServiceId \<Rightarrow> CapabilityHandle \<Rightarrow> ResourceId \<Rightarrow> ServiceId \<Rightarrow> IpcMessage \<Rightarrow>
     (IpcChannel, PermissionError, unit) op" where
  "send_with_capability table caller handle resource to message =
     bindS (readS (\<lambda>_. map_errR PermissionCapability (validate table caller handle resource RIGHT_SEND))) (\<lambda>_.
     onS (\<lambda>c. c) (\<lambda>f. f) PermissionIpc (ipc_send caller to message))"

record SharedRegion =
  sh_resource :: ResourceId
  sh_bytes :: "u8 list"

definition region_read ::
    "CapabilityTable \<Rightarrow> ServiceId \<Rightarrow> CapabilityHandle \<Rightarrow> SharedRegion \<Rightarrow> (CapabilityError, u8 list) result" where
  "region_read table caller handle region =
     bindR (validate table caller handle (sh_resource region) RIGHT_READ) (\<lambda>_. Ok (sh_bytes region))"

definition region_write ::
    "CapabilityTable \<Rightarrow> ServiceId \<Rightarrow> CapabilityHandle \<Rightarrow> u8 list \<Rightarrow> (SharedRegion, CapabilityError, unit) op" where
  "region_write table caller handle bytes =
     bindS (readS (\<lambda>region. validate table caller handle (sh_resource region) RIGHT_WRITE)) (\<lambda>_.
     modifyS (\<lambda>region. region\<lparr>sh_bytes := bytes\<rparr>))"


section \<open>Complete mediation\<close>

text \<open>A grant of the history that is live and covers the rights.\<close>

definition live_grant :: "cap_event list \<Rightarrow> ServiceId \<Rightarrow> ResourceId \<Rightarrow> CapabilityHandle \<Rightarrow> RightsMask \<Rightarrow> bool" where
  "live_grant es c r h q \<longleftrightarrow> (\<exists>q'. Granted c r q' h \<in> set es \<and> Withdrawn h \<notin> set es \<and> rights_contains q' q)"

lemma validate_live: "cap_inv t es \<Longrightarrow> validate t c h r q = Ok () \<longleftrightarrow> live_grant es c r h q"
  using kernel_capabilities.permits_history by (simp add: live_grant_def)

lemma validate_dead:
  assumes "cap_inv t es" and "\<not> live_grant es c r h q"
  obtains e where "validate t c h r q = Err e"
  using validate_live [OF assms(1), of c h r q] assms(2) settled_validate [of t c h r q]
  by (cases "validate t c h r q") auto

definition in_range :: "StorageService \<Rightarrow> StorageRequest \<Rightarrow> bool" where
  "in_range service request \<longleftrightarrow> 0 < sq_sector_count request \<and>
     unat (sq_start_sector request) + unat (sq_sector_count request) \<le> unat (capacity_sectors (ss_device service))"

lemma validate_range_Ok: "validate_range service request = Ok u \<longleftrightarrow> in_range service request"
proof -
  let ?c = "sq_sector_count request" and ?s = "sq_start_sector request" and ?cap = "capacity_sectors (ss_device service)"
  have u: "unat (ucast ?c :: u64) = unat ?c"
    using unat_bound [of ?c] by (simp add: unsigned_ucast_eq take_bit_nat_eq_self)
  have "unat ?s + unat ?c < 2 ^ 64" if "unat ?s + unat ?c \<le> unat ?cap" using that unat_bound [of ?cap] by simp
  then show ?thesis
    unfolding validate_range_def in_range_def
    by (auto simp: checked_add_word_def word_less_nat_alt unat_word_ariths u not_less word_neq_0_conv split: if_splits)
qed

lemma authorize_request_Ok:
  assumes "cap_inv t es"
  shows "authorize_request service t c h request = Ok access \<longleftrightarrow>
    live_grant es c (ss_resource service) h (required_rights request) \<and> in_range service request \<and>
    access = \<lparr>sa_operation = sq_operation request, sa_start_sector = sq_start_sector request,
      sa_sector_count = sq_sector_count request\<rparr>"
  by (auto simp: authorize_request_def validate_live [OF assms] validate_range_Ok)

lemma append_write_Ok:
  "append_write access j = (Ok record, j') \<longleftrightarrow> sa_operation access = StorageWrite \<and> wj_len j \<noteq> WRITE_JOURNAL_CAPACITY \<and>
     record = \<lparr>jr_sequence = wj_next_sequence j, jr_operation = StorageWrite,
       jr_start_sector = sa_start_sector access, jr_sector_count = sa_sector_count access,
       jr_checksum = 0, jr_commit_marker = 0\<rparr> \<and>
     j' = j\<lparr>wj_records := (wj_records j)[wj_len j := record], wj_len := wj_len j + 1,
       wj_next_sequence := wj_next_sequence j + 1\<rparr>"
  by (auto simp: append_write_def op_simps)

lemma append_write_fails:
  assumes "append_write access j = (r, j')" and "\<And>record. r \<noteq> Ok record"
  shows "j' = j"
  using assms by (auto simp: append_write_def bindS_def readS_def modifyS_def ensure_def split: if_splits)

lemma journal_first_write_Ok:
  assumes "cap_inv t es"
  shows "journal_first_write service t c h request j = (Ok record, j') \<longleftrightarrow>
    live_grant es c (ss_resource service) h (required_rights request) \<and> in_range service request \<and>
    append_write \<lparr>sa_operation = sq_operation request, sa_start_sector = sq_start_sector request,
      sa_sector_count = sq_sector_count request\<rparr> j = (Ok record, j')"
  by (auto simp: journal_first_write_def op_simps authorize_request_Ok [OF assms])

lemma journal_first_write_fails:
  assumes "journal_first_write service t c h request j = (r, j')" and "\<And>record. r \<noteq> Ok record"
  shows "j' = j"
proof (cases "authorize_request service t c h request")
  case (Ok access)
  then show ?thesis
    using assms append_write_fails [of access j r j'] by (simp add: journal_first_write_def bindS_def readS_def)
qed (use assms in \<open>auto simp: journal_first_write_def bindS_def readS_def\<close>)

lemma send_with_capability_eq:
  assumes "cap_inv t es"
  shows "send_with_capability t c h r to m channel =
    (if live_grant es c r h RIGHT_SEND
     then (map_errR PermissionIpc (fst (ipc_send c to m channel)), snd (ipc_send c to m channel))
     else (map_errR PermissionCapability (bindR (validate t c h r RIGHT_SEND) (\<lambda>_. Panic)), channel))"
proof (cases "live_grant es c r h RIGHT_SEND")
  case True
  then have "validate t c h r RIGHT_SEND = Ok ()" by (simp add: validate_live [OF assms])
  then show ?thesis
    using True by (simp add: send_with_capability_def bindS_def readS_def onS_def split: prod.splits)
next
  case False
  then obtain e where "validate t c h r RIGHT_SEND = Err e" by (rule validate_dead [OF assms])
  then show ?thesis using False by (simp add: send_with_capability_def bindS_def readS_def)
qed


section \<open>Recovery\<close>

definition committed_prefix :: "AppendOnlyJournal \<Rightarrow> JournalRecord list" where
  "committed_prefix j = takeWhile (\<lambda>r. validate_committed r = Ok ()) (take (wj_len j) (wj_records j))"

lemma recover_prefix_eq:
  assumes len: "wj_len j \<le> length (wj_records j)" and "i \<le> length (committed_prefix j)"
  shows "recover_prefix j i (if i = 0 then 0 else jr_sequence (committed_prefix j ! (i - 1))) =
    (let p = length (committed_prefix j) in Ok \<lparr>rp_replayed_records = p, rp_rolled_back_records = wj_len j - p,
       rp_last_sequence = (if p = 0 then 0 else jr_sequence (committed_prefix j ! (p - 1)))\<rparr>)"
  using assms(2)
proof (induction i rule: inc_induct)
  case base
  let ?p = "length (committed_prefix j)" and ?xs = "take (wj_len j) (wj_records j)"
  have "?p \<le> wj_len j" using length_takeWhile_le [of _ ?xs] by (simp add: committed_prefix_def)
  moreover have "validate_committed (wj_records j ! ?p) \<noteq> Ok ()" if "?p < wj_len j"
    using nth_length_takeWhile [of "\<lambda>r. validate_committed r = Ok ()" ?xs] that len
    by (simp add: committed_prefix_def)
  ultimately show ?case
    using len unfolding recover_prefix.simps [of j ?p] by (auto simp: Let_def)
next
  case (step i)
  let ?xs = "take (wj_len j) (wj_records j)"
  have lt: "i < length ?xs" "i < wj_len j"
    using step(2) length_takeWhile_le [of "\<lambda>r. validate_committed r = Ok ()" ?xs]
    by (auto simp: committed_prefix_def)
  have rec: "committed_prefix j ! i = wj_records j ! i"
    using step(2) lt by (simp add: committed_prefix_def takeWhile_nth)
  have "committed_prefix j ! i \<in> set (committed_prefix j)" using step(2) by (rule nth_mem)
  then have "validate_committed (wj_records j ! i) = Ok ()"
    unfolding rec [symmetric] unfolding committed_prefix_def by (auto dest: set_takeWhileD)
  then show ?case using step(3) lt rec len unfolding recover_prefix.simps [of j i] by (simp add: Let_def)
qed

section \<open>Properties\<close>

text \<open>
  C36. Complete mediation. In every run of the capability table, the services behind it act exactly under
  a live grant: a storage request is authorised, and a write is journaled, only for a caller whose handle
  was granted on the storage resource with the right of the operation and was not revoked, and only
  within the device; a guarded send reaches the channel, and a shared region is read or written, only
  under the corresponding right. Without such a grant the journal, the channel and the region are unchanged.
\<close>

theorem services_mediated:
  assumes run: "cap_run t es"
  shows "(authorize_request service t c h request = Ok access \<longleftrightarrow>
      live_grant es c (ss_resource service) h (required_rights request) \<and> in_range service request \<and>
      access = \<lparr>sa_operation = sq_operation request, sa_start_sector = sq_start_sector request,
        sa_sector_count = sq_sector_count request\<rparr>) \<and>
    (snd (journal_first_write service t c h request j) \<noteq> j \<longrightarrow>
      sq_operation request = StorageWrite \<and> live_grant es c (ss_resource service) h RIGHT_WRITE \<and> in_range service request) \<and>
    (snd (send_with_capability t c h r to m channel) =
      (if live_grant es c r h RIGHT_SEND then snd (ipc_send c to m channel) else channel)) \<and>
    (region_read t c h region = Ok bytes \<longleftrightarrow> live_grant es c (sh_resource region) h RIGHT_READ \<and> bytes = sh_bytes region) \<and>
    (snd (region_write t c h new region) =
      (if live_grant es c (sh_resource region) h RIGHT_WRITE then region\<lparr>sh_bytes := new\<rparr> else region))"
proof (intro conjI impI)
  have inv: "cap_inv t es" by (rule cap_run_inv [OF run])
  show "authorize_request service t c h request = Ok access \<longleftrightarrow>
      live_grant es c (ss_resource service) h (required_rights request) \<and> in_range service request \<and>
      access = \<lparr>sa_operation = sq_operation request, sa_start_sector = sq_start_sector request,
        sa_sector_count = sq_sector_count request\<rparr>"
    by (rule authorize_request_Ok [OF inv])
  show "snd (send_with_capability t c h r to m channel) =
      (if live_grant es c r h RIGHT_SEND then snd (ipc_send c to m channel) else channel)"
    by (simp add: send_with_capability_eq [OF inv])
  show "region_read t c h region = Ok bytes \<longleftrightarrow> live_grant es c (sh_resource region) h RIGHT_READ \<and> bytes = sh_bytes region"
    by (auto simp: region_read_def validate_live [OF inv])
  show "snd (region_write t c h new region) =
      (if live_grant es c (sh_resource region) h RIGHT_WRITE then region\<lparr>sh_bytes := new\<rparr> else region)"
  proof (cases "live_grant es c (sh_resource region) h RIGHT_WRITE")
    case True
    then have "validate t c h (sh_resource region) RIGHT_WRITE = Ok ()" by (simp add: validate_live [OF inv])
    then show ?thesis using True by (simp add: region_write_def bindS_def readS_def modifyS_def)
  next
    case False
    then obtain e where "validate t c h (sh_resource region) RIGHT_WRITE = Err e" by (rule validate_dead [OF inv])
    then show ?thesis using False by (simp add: region_write_def bindS_def readS_def)
  qed
  assume changed: "snd (journal_first_write service t c h request j) \<noteq> j"
  obtain res j' where jr: "journal_first_write service t c h request j = (res, j')" by fastforce
  obtain w where "res = Ok w" using journal_first_write_fails [OF jr] changed jr by auto
  then have "live_grant es c (ss_resource service) h (required_rights request) \<and> in_range service request \<and>
      sq_operation request = StorageWrite"
    using jr by (auto simp: journal_first_write_Ok [OF inv] append_write_Ok)
  then show "sq_operation request = StorageWrite" "live_grant es c (ss_resource service) h RIGHT_WRITE"
    "in_range service request"
    by (auto simp: required_rights_def)
qed

lemma demo_live: "live_grant [Granted 1 5 3 (first_handle 0)] 1 5 (first_handle 0) RIGHT_WRITE"
  by (simp add: live_grant_def rights_contains_def RIGHT_WRITE_def)

theorem services_mediated_witness:
  "snd (region_write demo_table 1 (first_handle 0) [1, 2, 3, 4] \<lparr>sh_resource = 5, sh_bytes = [0, 0, 0, 0]\<rparr>) =
     \<lparr>sh_resource = 5, sh_bytes = [1, 2, 3, 4]\<rparr>"
  using services_mediated [OF demo_granted, where region = "\<lparr>sh_resource = 5, sh_bytes = [0, 0, 0, 0]\<rparr>" and
      c = 1 and h = "first_handle 0" and new = "[1, 2, 3, 4]"] demo_live by simp

text \<open>
  C37. Recovery is the committed prefix. For every journal whose length is within its array, whatever its
  records hold, recovery replays exactly the records before the first one without a commit marker or with a wrong
  checksum, counts all others as rolled back, and reports the sequence number of the last replayed record.
\<close>

theorem recovery_is_committed_prefix:
  assumes "wj_len j \<le> length (wj_records j)"
  shows "recover_committed_prefix j =
    (let p = length (committed_prefix j) in Ok \<lparr>rp_replayed_records = p, rp_rolled_back_records = wj_len j - p,
       rp_last_sequence = (if p = 0 then 0 else jr_sequence (committed_prefix j ! (p - 1)))\<rparr>)"
  using recover_prefix_eq [OF assms, of 0] by (simp add: recover_committed_prefix_def)

theorem recovery_is_committed_prefix_witness:
  "recover_committed_prefix (snd (append_write \<lparr>sa_operation = StorageWrite, sa_start_sector = 3, sa_sector_count = 1\<rparr>
     write_journal_new)) = Ok \<lparr>rp_replayed_records = 0, rp_rolled_back_records = 1, rp_last_sequence = 0\<rparr>"
proof -
  let ?a = "\<lparr>sa_operation = StorageWrite, sa_start_sector = 3, sa_sector_count = 1\<rparr>"
  let ?r = "\<lparr>jr_sequence = 1, jr_operation = StorageWrite, jr_start_sector = 3, jr_sector_count = 1,
    jr_checksum = 0, jr_commit_marker = 0\<rparr>"
  let ?j = "write_journal_new\<lparr>wj_records := (replicate 8 journal_record_empty)[0 := ?r], wj_len := 1, wj_next_sequence := 2\<rparr>"
  have "append_write ?a write_journal_new = (Ok ?r, ?j)"
    by (simp add: append_write_Ok write_journal_new_def WRITE_JOURNAL_CAPACITY_def)
  moreover have "validate_committed ?r \<noteq> Ok ()" by (simp add: validate_committed_def WRITE_COMMIT_MARKER_def)
  then have "committed_prefix ?j = []" by (simp add: committed_prefix_def take_Suc_conv_app_nth)
  ultimately show ?thesis using recovery_is_committed_prefix [of ?j] by simp
qed

end
