(* ===== verification/Kernel_Selftests.thy ===== *)
theory Kernel_Selftests
  imports Kernel_Processes Kernel_Quotas Kernel_Gates
begin

text \<open>
  The self-tests the kernel runs during boot, one for each modelled component, with the lines they
  write to the serial console. The boot sequence stops at the first self-test that fails, so the
  property here is that none of them does, and which lines appear.
\<close>

section \<open>Local tables and the serial console\<close>

text \<open>A self-test works on tables of its own, which are gone when it fails.\<close>

definition runS :: "('s, 'e, 'a) op \<Rightarrow> 's \<Rightarrow> ('e, 'a \<times> 's) result" where
  "runS m s = (case m s of (r, s') \<Rightarrow> bindR r (\<lambda>a. Ok (a, s')))"

fun is_Ok :: "('e, 'a) result \<Rightarrow> bool" where
  "is_Ok (Ok _) = True"
| "is_Ok _ = False"

type_synonym ('e, 'a) console = "(string list, 'e, 'a) op"

definition write_line :: "string \<Rightarrow> ('e, unit) console" where
  "write_line line = modifyS (\<lambda>out. out @ [line])"

definition pureS :: "('e, 'a) result \<Rightarrow> ('e, 'a) console" where
  "pureS r = readS (\<lambda>_. r)"

lemma runS_eq: "m s = (Ok a, s') \<Longrightarrow> runS m s = Ok (a, s')"
  by (simp add: runS_def)

lemma runS_Err: "m s = (Err e, s') \<Longrightarrow> runS m s = Err e"
  by (simp add: runS_def)

section \<open>Identities, capabilities and processes\<close>

definition identity_self_test :: "(ServiceIdentityError, unit) result" where
  "identity_self_test =
     bindR (runS (register_task 10) identity_new) (\<lambda>(old_service, table).
     bindR (runS (unregister old_service) table) (\<lambda>(_, table).
     bindR (runS (register_task 11) table) (\<lambda>(new_service, table).
     bindR (ensure (\<not> old_service = new_service) ReusedIdentity) (\<lambda>_.
     bindR (ensure (\<not> task_for table old_service \<noteq> None) StaleIdentityStillActive) (\<lambda>_.
     ensure (\<not> task_for table new_service \<noteq> Some 11) UnknownService)))))"

definition PROOF_RESOURCE_ID :: ResourceId where "PROOF_RESOURCE_ID = 0xC0DA0001"
definition PROOF_RIGHTS :: RightsMask where "PROOF_RIGHTS = RIGHT_READ OR RIGHT_WRITE"

definition capability_handle_self_test :: "(CapabilityError, unit) console" where
  "capability_handle_self_test =
     bindS (pureS (map_errR (\<lambda>_. InvalidHandle) (runS (register_task 30) identity_new))) (\<lambda>(holder, _).
     bindS (pureS (runS (grant holder PROOF_RESOURCE_ID PROOF_RIGHTS) capability_new)) (\<lambda>(handle, table).
     bindS (write_line ''PYTHOS:CORE:CAPABILITY:GRANT'') (\<lambda>_.
     bindS (pureS (validate table holder handle PROOF_RESOURCE_ID RIGHT_READ)) (\<lambda>_.
     write_line ''PYTHOS:CORE:CAPABILITY:USE''))))"

definition revocation_self_test :: "(CapabilityError, unit) console" where
  "revocation_self_test =
     bindS (pureS (map_errR (\<lambda>_. InvalidHandle) (runS (register_task 32) identity_new))) (\<lambda>(holder, _).
     bindS (pureS (runS (grant holder PROOF_RESOURCE_ID PROOF_RIGHTS) capability_new)) (\<lambda>(revoked, table).
     bindS (pureS (runS (grant holder 0xC0DA0002 PROOF_RIGHTS) table)) (\<lambda>(unaffected, table).
     bindS (pureS (runS (revoke revoked) table)) (\<lambda>(_, table).
     bindS (write_line ''PYTHOS:CORE:CAPABILITY:REVOKE'') (\<lambda>_.
     bindS (pureS (ensure (\<not> validate table holder revoked PROOF_RESOURCE_ID RIGHT_READ \<noteq> Err InvalidHandle)
       InvalidHandle)) (\<lambda>_.
     bindS (write_line ''PYTHOS:CORE:CAPABILITY:STALE_DENIED'') (\<lambda>_.
     pureS (validate table holder unaffected 0xC0DA0002 RIGHT_READ))))))))"

definition negative_authorization_self_test :: "(CapabilityError, unit) console" where
  "negative_authorization_self_test =
     bindS (pureS (map_errR (\<lambda>_. InvalidHandle) (runS (register_task 33) identity_new))) (\<lambda>(intruder, _).
     bindS (pureS (ensure (\<not> validate capability_new intruder \<lparr>ch_slot = 0, ch_generation = 1\<rparr> PROOF_RESOURCE_ID RIGHT_READ
       \<noteq> Err InvalidHandle) InvalidHandle)) (\<lambda>_.
     write_line ''PYTHOS:CORE:CAPABILITY:KNOWN_TARGET_DENIED''))"

definition DYNAMIC_PROOF_RESOURCE_ID :: ResourceId where "DYNAMIC_PROOF_RESOURCE_ID = 0x44594E4341500001"
definition DYNAMIC_PROOF_RIGHTS :: RightsMask where "DYNAMIC_PROOF_RIGHTS = RIGHT_READ OR RIGHT_SEND"

record DynamicCapabilityGrantProof =
  dc_process_created :: bool
  dc_zero_default :: bool
  dc_no_grant_denied :: bool
  dc_grant_issued :: bool
  dc_granted_use :: bool

definition dynamic_capabilities_self_test :: "(DynamicCapabilityError, DynamicCapabilityGrantProof) result" where
  "dynamic_capabilities_self_test =
     bindR (runS (spawn 120 policy_empty) kernel_start) (\<lambda>(empty_process, k).
     let process_created = (task_for (kt_identities k) (dp_service_id empty_process) = Some 120 \<and> dp_task_id empty_process = 120);
         zero_default = (dp_capability_count empty_process = 0);
         no_grant_denied = (use_capability empty_process (kt_capabilities k) DYNAMIC_PROOF_RESOURCE_ID RIGHT_READ = Err NoGrant) in
     bindR (runS (spawn 121 (policy_single
       \<lparr>ig_resource = DYNAMIC_PROOF_RESOURCE_ID, ig_rights = DYNAMIC_PROOF_RIGHTS\<rparr>)) k) (\<lambda>(granted_process, k).
     let grant_issued = (dp_capability_count granted_process = 1);
         granted_use = is_Ok (use_capability granted_process (kt_capabilities k) DYNAMIC_PROOF_RESOURCE_ID RIGHT_READ) in
     bindR (ensure (\<not> (\<not> process_created \<or> \<not> zero_default \<or> \<not> no_grant_denied \<or> \<not> grant_issued \<or> \<not> granted_use))
       ProofFailed) (\<lambda>_.
     Ok \<lparr>dc_process_created = process_created, dc_zero_default = zero_default, dc_no_grant_denied = no_grant_denied,
         dc_grant_issued = grant_issued, dc_granted_use = granted_use\<rparr>)))"

section \<open>Channels\<close>

definition message_intact :: "IpcMessage \<Rightarrow> u16 \<Rightarrow> u8 list \<Rightarrow> bool" where
  "message_intact received type_id payload \<longleftrightarrow>
     \<not> (im_type_id received \<noteq> type_id \<or> im_length received \<noteq> length payload \<or>
        take (im_length received) (im_payload received) \<noteq> payload \<or> im_checksum received \<noteq> ipc_checksum payload)"

definition IPC_PROOF_PAYLOAD :: "u8 list" where
  "IPC_PROOF_PAYLOAD = [0x50, 0x59, 0x54, 0x48, 0x49, 0x50, 0x43, 0x31]"
definition QUEUE_PROOF_A :: "u8 list" where "QUEUE_PROOF_A = [0x51, 0x41, 0x30, 0x31]"
definition QUEUE_PROOF_B :: "u8 list" where "QUEUE_PROOF_B = [0x51, 0x42, 0x30, 0x32]"
definition QUEUE_PROOF_C :: "u8 list" where "QUEUE_PROOF_C = [0x51, 0x43, 0x30, 0x33]"
definition REQUEST_PROOF_PAYLOAD :: "u8 list" where "REQUEST_PROOF_PAYLOAD = [0x52, 0x45, 0x51, 0x31]"
definition REPLY_PROOF_PAYLOAD :: "u8 list" where "REPLY_PROOF_PAYLOAD = [0x52, 0x45, 0x50, 0x31]"

definition ipc_self_test :: "(IpcError, unit) console" where
  "ipc_self_test =
     bindS (pureS (map_errR (\<lambda>_. InvalidEndpoint) (runS (register_task 20) identity_new))) (\<lambda>(sender, identities).
     bindS (pureS (map_errR (\<lambda>_. InvalidEndpoint) (runS (register_task 21) identities))) (\<lambda>(receiver, _).
     bindS (pureS (ipc_message_new 1 IPC_PROOF_PAYLOAD)) (\<lambda>message.
     bindS (pureS (runS (ipc_send sender receiver message) (ipc_channel_new sender receiver))) (\<lambda>(_, channel).
     bindS (write_line ''PYTHOS:CORE:IPC:SEND'') (\<lambda>_.
     bindS (pureS (runS (ipc_receive receiver) channel)) (\<lambda>(received, _).
     bindS (pureS (ensure (message_intact received 1 IPC_PROOF_PAYLOAD) PayloadCorrupt)) (\<lambda>_.
     write_line ''PYTHOS:CORE:IPC:RECV'')))))))"

definition bounded_queue_self_test :: "(IpcError, unit) console" where
  "bounded_queue_self_test =
     bindS (pureS (map_errR (\<lambda>_. InvalidEndpoint) (runS (register_task 22) identity_new))) (\<lambda>(sender, identities).
     bindS (pureS (map_errR (\<lambda>_. InvalidEndpoint) (runS (register_task 23) identities))) (\<lambda>(receiver, _).
     bindS (pureS (ipc_message_new 2 QUEUE_PROOF_A)) (\<lambda>first.
     bindS (pureS (ipc_message_new 2 QUEUE_PROOF_B)) (\<lambda>second.
     bindS (pureS (ipc_message_new 2 QUEUE_PROOF_C)) (\<lambda>overflow.
     bindS (pureS (runS (ipc_send sender receiver first) (ipc_channel_new sender receiver))) (\<lambda>(_, channel).
     bindS (pureS (runS (ipc_send sender receiver second) channel)) (\<lambda>(_, channel).
     let (sent, channel) = ipc_send sender receiver overflow channel in
     bindS (pureS (ensure (\<not> sent \<noteq> Err QueueFull) PayloadCorrupt)) (\<lambda>_.
     bindS (write_line ''PYTHOS:CORE:IPC:QUEUE_FULL'') (\<lambda>_.
     bindS (pureS (runS (ipc_receive receiver) channel)) (\<lambda>(received, channel).
     bindS (pureS (ensure (\<not> received \<noteq> first) PayloadCorrupt)) (\<lambda>_.
     bindS (pureS (runS (ipc_receive receiver) channel)) (\<lambda>(received, channel).
     bindS (pureS (ensure (\<not> received \<noteq> second) PayloadCorrupt)) (\<lambda>_.
     pureS (ensure (\<not> fst (ipc_receive receiver channel) \<noteq> Err QueueEmpty) PayloadCorrupt))))))))))))))"

definition request_reply_self_test :: "(IpcError, unit) console" where
  "request_reply_self_test =
     bindS (pureS (map_errR (\<lambda>_. InvalidEndpoint) (runS (register_task 24) identity_new))) (\<lambda>(requester, identities).
     bindS (pureS (map_errR (\<lambda>_. InvalidEndpoint) (runS (register_task 25) identities))) (\<lambda>(responder, _).
     bindS (pureS (ipc_message_new 3 REQUEST_PROOF_PAYLOAD)) (\<lambda>request.
     bindS (pureS (ipc_message_new 4 REPLY_PROOF_PAYLOAD)) (\<lambda>reply.
     bindS (pureS (runS (ipc_send requester responder request) (ipc_channel_new requester responder))) (\<lambda>(_, channel).
     bindS (write_line ''PYTHOS:CORE:IPC:REQUEST'') (\<lambda>_.
     bindS (pureS (runS (ipc_receive responder) channel)) (\<lambda>(received, channel).
     bindS (pureS (ensure (\<not> received \<noteq> request) PayloadCorrupt)) (\<lambda>_.
     bindS (pureS (runS (ipc_send responder requester reply) channel)) (\<lambda>(_, channel).
     bindS (write_line ''PYTHOS:CORE:IPC:REPLY'') (\<lambda>_.
     bindS (pureS (runS (receive_reply_or_timeout requester 1) channel)) (\<lambda>(received, channel).
     bindS (pureS (ensure (\<not> received \<noteq> reply) PayloadCorrupt)) (\<lambda>_.
     bindS (pureS (ensure (\<not> fst (receive_reply_or_timeout requester 1 channel) \<noteq> Err ReplyTimeout) PayloadCorrupt)) (\<lambda>_.
     write_line ''PYTHOS:CORE:IPC:REPLY_TIMEOUT'')))))))))))))"

section \<open>Quotas\<close>

record MemoryQuotaProof =
  mp_allocation_granted :: bool
  mp_allocation_denied :: bool

record CpuQuotaProof =
  cp_tick_recorded :: bool
  cp_throttle_denied :: bool

definition memory_self_test :: "(QuotaError, MemoryQuotaProof) result" where
  "memory_self_test =
     bindR (map_errR (\<lambda>_. IdentityRegistrationFailed) (runS (register_task 85) identity_new)) (\<lambda>(service_id, _).
     bindR (runS (memory_register service_id 2) memory_quota_new) (\<lambda>(_, quotas).
     bindR (runS (charge_pages service_id 1) quotas) (\<lambda>(_, quotas).
     bindR (used_pages quotas service_id) (\<lambda>used_after_grant.
     let (charged, quotas) = charge_pages service_id 2 quotas; denied = (charged = Err MemoryQuotaExceeded) in
     bindR (used_pages quotas service_id) (\<lambda>used.
     bindR (ensure (\<not> used \<noteq> used_after_grant) MemoryQuotaExceeded) (\<lambda>_.
     Ok \<lparr>mp_allocation_granted = (used_after_grant = 1), mp_allocation_denied = denied\<rparr>))))))"

definition cpu_self_test :: "(QuotaError, CpuQuotaProof) result" where
  "cpu_self_test =
     bindR (map_errR (\<lambda>_. IdentityRegistrationFailed) (runS (register_task 87) identity_new)) (\<lambda>(service_id, _).
     bindR (runS (cpu_register service_id 2) cpu_quota_new) (\<lambda>(_, quotas).
     bindR (runS (charge_tick service_id) quotas) (\<lambda>(_, quotas).
     bindR (used_ticks quotas service_id) (\<lambda>used_after_first_tick.
     bindR (runS (charge_tick service_id) quotas) (\<lambda>(_, quotas).
     bindR (used_ticks quotas service_id) (\<lambda>used_at_budget.
     let (charged, quotas) = charge_tick service_id quotas; throttled = (charged = Err CpuQuotaExceeded) in
     bindR (used_ticks quotas service_id) (\<lambda>used.
     bindR (ensure (\<not> used \<noteq> used_at_budget) CpuQuotaExceeded) (\<lambda>_.
     Ok \<lparr>cp_tick_recorded = (used_after_first_tick = 1), cp_throttle_denied = throttled\<rparr>))))))))"

definition storage_quota_self_test :: "(StorageQuotaError, unit) console" where
  "storage_quota_self_test =
     bindS (pureS (map_errR StorageIdentity (runS (register_task 91) identity_new))) (\<lambda>(service_id, _).
     bindS (pureS (runS (storage_register service_id 2) storage_quota_new)) (\<lambda>(_, quotas).
     bindS (pureS (runS (charge_blocks service_id 1) quotas)) (\<lambda>(_, quotas).
     bindS (pureS (used_blocks quotas service_id)) (\<lambda>used_after_grant.
     bindS (pureS (ensure (\<not> used_after_grant \<noteq> 1) StorageUnknownService)) (\<lambda>_.
     bindS (write_line ''PYTHOS:CORE:STORAGE_QUOTA:GRANTED'') (\<lambda>_.
     let (charged, quotas) = charge_blocks service_id 2 quotas; denied = (charged = Err StorageQuotaExceeded) in
     bindS (pureS (if \<not> denied then Err StorageQuotaExceeded
                   else bindR (used_blocks quotas service_id) (\<lambda>used.
                     ensure (\<not> used \<noteq> used_after_grant) StorageQuotaExceeded))) (\<lambda>_.
     bindS (write_line ''PYTHOS:CORE:STORAGE_QUOTA:DENIED'') (\<lambda>_.
     bindS (pureS (runS (release_blocks service_id 1) quotas)) (\<lambda>(_, quotas).
     bindS (pureS (used_blocks quotas service_id)) (\<lambda>used.
     pureS (ensure (\<not> used \<noteq> 0) StorageCounterOverflow)))))))))))"

section \<open>Guarded services\<close>

definition storage_service_self_test :: "BlockDeviceInfo \<Rightarrow> (StorageServiceError, unit) console" where
  "storage_service_self_test device =
     (let service = storage_service_new device; write_request = request_write 0 1 in
     bindS (pureS (map_errR ServiceIdentityFailure (runS (register_task 70) identity_new))) (\<lambda>(writer, identities).
     bindS (pureS (map_errR ServiceIdentityFailure (runS (register_task 71) identities))) (\<lambda>(intruder, _).
     bindS (pureS (map_errR ServiceCapability
       (runS (grant writer STORAGE_RESOURCE_ID (RIGHT_READ OR RIGHT_WRITE)) capability_new))) (\<lambda>(write_handle, table).
     bindS (pureS (map_errR ServiceCapability (runS (grant writer STORAGE_RESOURCE_ID RIGHT_READ) table))) (\<lambda>(read_only, table).
     bindS (pureS (ensure (\<not> queue_size (ss_device service) = 0) InvalidRange)) (\<lambda>_.
     bindS (pureS (authorize_request service table writer read_only (request_read 0 1))) (\<lambda>_.
     bindS (pureS (authorize_request service table writer write_handle write_request)) (\<lambda>_.
     bindS (write_line ''PYTHOS:CORE:STORAGE:ACCESS_GRANTED'') (\<lambda>_.
     bindS (pureS (ensure (\<not> authorize_request service table intruder write_handle write_request
       \<noteq> Err (ServiceCapability WrongHolder)) (ServiceCapability WrongHolder))) (\<lambda>_.
     bindS (pureS (ensure (\<not> authorize_request service table writer read_only write_request
       \<noteq> Err (ServiceCapability MissingRights)) (ServiceCapability MissingRights))) (\<lambda>_.
     write_line ''PYTHOS:CORE:STORAGE:ACCESS_DENIED'')))))))))))"

definition IPC_SEND_RESOURCE :: ResourceId where "IPC_SEND_RESOURCE = 0x1FC00001"
definition PERMISSION_MESSAGE_TYPE :: u16 where "PERMISSION_MESSAGE_TYPE = 0x70"
definition PERMISSION_PAYLOAD :: "u8 list" where "PERMISSION_PAYLOAD = [0x50, 0x45, 0x52, 0x4D]"

definition permission_validation_self_test :: "(PermissionError, unit) console" where
  "permission_validation_self_test =
     bindS (pureS (map_errR (\<lambda>_. PermissionCapability InvalidHandle) (runS (register_task 50) identity_new))) (\<lambda>(sender, identities).
     bindS (pureS (map_errR (\<lambda>_. PermissionCapability InvalidHandle) (runS (register_task 51) identities))) (\<lambda>(receiver, _).
     bindS (pureS (map_errR PermissionCapability (runS (grant sender IPC_SEND_RESOURCE RIGHT_SEND) capability_new))) (\<lambda>(allowed, table).
     bindS (pureS (map_errR PermissionCapability (runS (grant sender IPC_SEND_RESOURCE RIGHT_READ) table))) (\<lambda>(denied, table).
     bindS (pureS (map_errR PermissionIpc (ipc_message_new PERMISSION_MESSAGE_TYPE PERMISSION_PAYLOAD))) (\<lambda>message.
     bindS (pureS (runS (send_with_capability table sender allowed IPC_SEND_RESOURCE receiver message)
       (ipc_channel_new sender receiver))) (\<lambda>(_, channel).
     bindS (write_line ''PYTHOS:CORE:PERMISSION:IPC_ALLOWED'') (\<lambda>_.
     bindS (pureS (map_errR PermissionIpc (ipc_message_new PERMISSION_MESSAGE_TYPE PERMISSION_PAYLOAD))) (\<lambda>denied_message.
     bindS (pureS (ensure (\<not> fst (send_with_capability table sender denied IPC_SEND_RESOURCE receiver denied_message channel)
       \<noteq> Err (PermissionCapability MissingRights)) (PermissionCapability MissingRights))) (\<lambda>_.
     write_line ''PYTHOS:CORE:PERMISSION:IPC_DENIED'')))))))))"

definition SHARED_MEMORY_RESOURCE :: ResourceId where "SHARED_MEMORY_RESOURCE = 0x5A4D0001"
definition SHARED_REGION_INITIAL :: "u8 list" where "SHARED_REGION_INITIAL = [0x50, 0x59, 0x54, 0x48]"

definition shared_memory_self_test :: "(CapabilityError, unit) console" where
  "shared_memory_self_test =
     bindS (pureS (map_errR (\<lambda>_. InvalidHandle) (runS (register_task 40) identity_new))) (\<lambda>(reader, _).
     bindS (pureS (runS (grant reader SHARED_MEMORY_RESOURCE RIGHT_READ) capability_new)) (\<lambda>(read_only, table).
     let region = \<lparr>sh_resource = SHARED_MEMORY_RESOURCE, sh_bytes = SHARED_REGION_INITIAL\<rparr> in
     bindS (pureS (region_read table reader read_only region)) (\<lambda>bytes.
     bindS (pureS (ensure (\<not> bytes \<noteq> SHARED_REGION_INITIAL) WrongResource)) (\<lambda>_.
     bindS (write_line ''PYTHOS:CORE:SHM:READ_ONLY'') (\<lambda>_.
     let (written, region) = region_write table reader read_only [0x44, 0x52, 0x4F, 0x50] region in
     bindS (pureS (ensure (\<not> written \<noteq> Err MissingRights) WrongResource)) (\<lambda>_.
     bindS (pureS (region_read table reader read_only region)) (\<lambda>bytes.
     bindS (pureS (ensure (\<not> bytes \<noteq> SHARED_REGION_INITIAL) WrongResource)) (\<lambda>_.
     write_line ''PYTHOS:CORE:SHM:WRITE_DENIED''))))))))"

datatype GuardedSharedMemoryError =
    SharedAddressSpace | GuardedCapability CapabilityError | RegionCorrupted | CrossSpaceWriteAllowed

record GuardedSharedMemoryProof =
  gp_ring3_read :: bool
  gp_cross_space_write_denied :: bool

record Ring3Service =
  r3_identity :: ServiceId
  r3_address_space_root :: u64

definition guarded_phase8_self_test ::
    "u64 \<Rightarrow> u64 \<Rightarrow> (GuardedSharedMemoryError, GuardedSharedMemoryProof) result" where
  "guarded_phase8_self_test reader_root writer_root =
     bindR (ensure (\<not> reader_root = writer_root) SharedAddressSpace) (\<lambda>_.
     bindR (map_errR (\<lambda>_. GuardedCapability InvalidHandle) (runS (register_task 82) identity_new)) (\<lambda>(reader_identity, identities).
     bindR (map_errR (\<lambda>_. GuardedCapability InvalidHandle) (runS (register_task 83) identities)) (\<lambda>(writer_identity, _).
     let reader = \<lparr>r3_identity = reader_identity, r3_address_space_root = reader_root\<rparr>;
         writer = \<lparr>r3_identity = writer_identity, r3_address_space_root = writer_root\<rparr> in
     bindR (ensure (\<not> r3_address_space_root reader = r3_address_space_root writer) SharedAddressSpace) (\<lambda>_.
     bindR (map_errR GuardedCapability
       (runS (grant (r3_identity reader) SHARED_MEMORY_RESOURCE RIGHT_READ) capability_new)) (\<lambda>(read_only, table).
     let region = \<lparr>sh_resource = SHARED_MEMORY_RESOURCE, sh_bytes = SHARED_REGION_INITIAL\<rparr> in
     bindR (map_errR GuardedCapability (region_read table (r3_identity reader) read_only region)) (\<lambda>bytes.
     bindR (ensure (\<not> bytes \<noteq> SHARED_REGION_INITIAL) RegionCorrupted) (\<lambda>_.
     let (written, region) = region_write table (r3_identity writer) read_only [0x44, 0x52, 0x4F, 0x50] region in
     bindR (ensure (\<not> written \<noteq> Err WrongHolder) CrossSpaceWriteAllowed) (\<lambda>_.
     bindR (map_errR GuardedCapability (region_read table (r3_identity reader) read_only region)) (\<lambda>bytes.
     bindR (ensure (\<not> bytes \<noteq> SHARED_REGION_INITIAL) RegionCorrupted) (\<lambda>_.
     Ok \<lparr>gp_ring3_read = True, gp_cross_space_write_denied = True\<rparr>))))))))))"

section \<open>Audit log\<close>

datatype AuditError = LogFull | MissingEvent | InvalidService
datatype AuditOperation = AuditGrant | AuditUse | AuditDenial | AuditRevocation
datatype AuditOutcome = AuditAllowed | AuditDenied | AuditRevoked

record AuditEvent =
  ae_service :: ServiceId
  ae_resource :: ResourceId
  ae_operation :: AuditOperation
  ae_outcome :: AuditOutcome

record AuditLog =
  al_events :: "AuditEvent option list"
  al_len :: usize

definition audit_log_new :: AuditLog where
  "audit_log_new = \<lparr>al_events = replicate 8 None, al_len = 0\<rparr>"

definition audit_record :: "AuditEvent \<Rightarrow> (AuditLog, AuditError, unit) op" where
  "audit_record event =
     bindS (readS (\<lambda>log. ensure (\<not> al_len log = length (al_events log)) LogFull)) (\<lambda>_.
     bindS (readS (\<lambda>log. if al_len log < length (al_events log) then Ok () else Panic)) (\<lambda>_.
     modifyS (\<lambda>log. log\<lparr>al_events := (al_events log)[al_len log := Some event], al_len := al_len log + 1\<rparr>)))"

definition audit_event :: "AuditLog \<Rightarrow> usize \<Rightarrow> AuditEvent option" where
  "audit_event log index = (if index < length (al_events log) then al_events log ! index else None)"

definition AUDIT_RESOURCE :: ResourceId where "AUDIT_RESOURCE = 0xA0170001"

definition audit_logging_self_test :: "(AuditError, unit) console" where
  "audit_logging_self_test =
     bindS (pureS (map_errR (\<lambda>_. InvalidService) (runS (register_task 60) identity_new))) (\<lambda>(service, _).
     bindS (pureS (runS (audit_record \<lparr>ae_service = service, ae_resource = AUDIT_RESOURCE, ae_operation = AuditGrant,
       ae_outcome = AuditAllowed\<rparr>) audit_log_new)) (\<lambda>(_, log).
     bindS (write_line ''PYTHOS:CORE:AUDIT:GRANT'') (\<lambda>_.
     bindS (pureS (runS (audit_record \<lparr>ae_service = service, ae_resource = AUDIT_RESOURCE, ae_operation = AuditUse,
       ae_outcome = AuditAllowed\<rparr>) log)) (\<lambda>(_, log).
     bindS (write_line ''PYTHOS:CORE:AUDIT:USE'') (\<lambda>_.
     bindS (pureS (runS (audit_record \<lparr>ae_service = service, ae_resource = AUDIT_RESOURCE, ae_operation = AuditDenial,
       ae_outcome = AuditDenied\<rparr>) log)) (\<lambda>(_, log).
     bindS (write_line ''PYTHOS:CORE:AUDIT:DENIAL'') (\<lambda>_.
     bindS (pureS (runS (audit_record \<lparr>ae_service = service, ae_resource = AUDIT_RESOURCE, ae_operation = AuditRevocation,
       ae_outcome = AuditRevoked\<rparr>) log)) (\<lambda>(_, log).
     bindS (write_line ''PYTHOS:CORE:AUDIT:REVOCATION'') (\<lambda>_.
     pureS (ensure (\<not> (map_option ae_operation (audit_event log 0) \<noteq> Some AuditGrant
       \<or> map_option ae_operation (audit_event log 1) \<noteq> Some AuditUse
       \<or> map_option ae_outcome (audit_event log 2) \<noteq> Some AuditDenied
       \<or> map_option ae_outcome (audit_event log 3) \<noteq> Some AuditRevoked)) MissingEvent))))))))))"

section \<open>The service phase of the boot\<close>

text \<open>
  One step of the boot in \<open>main.rs\<close>: a self-test, then a line; a self-test that fails is reported as
  \<open>PYTHOS:PANIC\<close> and the processor does not go on, which is the error \<open>()\<close> here.
\<close>

definition boot_step :: "('e, 'a) console \<Rightarrow> string \<Rightarrow> (unit, unit) console" where
  "boot_step self_test ready out =
     (case self_test out of
        (Ok _, out) \<Rightarrow> write_line ready out
      | (Err _, out) \<Rightarrow> (Err (), out @ [''PYTHOS:PANIC''])
      | (Panic, out) \<Rightarrow> (Panic, out)
      | (Diverge, out) \<Rightarrow> (Diverge, out))"

definition phase_3 :: "(unit, unit) console" where
  "phase_3 =
     bindS (boot_step (pureS identity_self_test) ''PYTHOS:CORE:SERVICE_IDENTITY_READY'') (\<lambda>_.
     bindS (boot_step ipc_self_test ''PYTHOS:CORE:IPC_CHANNELS_READY'') (\<lambda>_.
     bindS (boot_step bounded_queue_self_test ''PYTHOS:CORE:BOUNDED_QUEUES_READY'') (\<lambda>_.
     bindS (boot_step request_reply_self_test ''PYTHOS:CORE:REQUEST_REPLY_READY'') (\<lambda>_.
     bindS (boot_step capability_handle_self_test ''PYTHOS:CORE:CAPABILITY_HANDLES_READY'') (\<lambda>_.
     bindS (boot_step shared_memory_self_test ''PYTHOS:CORE:SHARED_MEMORY_HANDLES_READY'') (\<lambda>_.
     bindS (boot_step permission_validation_self_test ''PYTHOS:CORE:PERMISSION_VALIDATION_READY'') (\<lambda>_.
     bindS (boot_step revocation_self_test ''PYTHOS:CORE:REVOCATION_READY'') (\<lambda>_.
     bindS (boot_step negative_authorization_self_test ''PYTHOS:CORE:NEGATIVE_AUTHORIZATION_READY'') (\<lambda>_.
     bindS (boot_step audit_logging_self_test ''PYTHOS:CORE:AUDIT_LOGGING_READY'') (\<lambda>_.
     write_line ''PYTHOS:CORE:PHASE_3_COMPLETE''))))))))))"

section \<open>Tables with a few entries\<close>

definition identities_after :: "(ServiceId \<times> TaskId) list \<Rightarrow> u64 \<Rightarrow> ServiceIdentityTable" where
  "identities_after xs n = \<lparr>sit_records = map (\<lambda>(s, t). \<lparr>sr_service_id = s, sr_task_id = t, sr_active = True\<rparr>) xs
     @ replicate (8 - length xs) service_record_empty, sit_next_id = n\<rparr>"

definition capabilities_with :: "CapabilityEntry list \<Rightarrow> CapabilityTable" where
  "capabilities_with es = \<lparr>ct_entries = map Some es @ replicate (32 - length es) None\<rparr>"

lemma first_update: "0 < n \<Longrightarrow> (replicate n e)[0 := r] = r # replicate (n - 1) e"
  by (cases n) simp_all

lemma register_first: "runS (register_task task) identity_new = Ok (1, identities_after [(1, task)] 2)"
  by (simp add: runS_def register_task_def identity_new_def MAX_SERVICES_def service_record_empty_def FIRST_SERVICE_ID_def
      checked_add_word_def identities_after_def first_update)

lemma register_second:
  "runS (register_task task') (identities_after [(1, task)] 2) = Ok (2, identities_after [(1, task), (2, task')] 3)"
  by (simp add: runS_def register_task_def service_record_empty_def checked_add_word_def identities_after_def first_update)

lemma identity_test: "identity_self_test = Ok ()"
proof -
  have un: "runS (unregister 1) (identities_after [(1, 10)] 2) = Ok ((), \<lparr>sit_records =
      \<lparr>sr_service_id = 1, sr_task_id = 10, sr_active = False\<rparr> # replicate 7 service_record_empty, sit_next_id = 2\<rparr>)"
    by (simp add: runS_def unregister_def identities_after_def names_service_def)
  have again: "runS (register_task 11) \<lparr>sit_records =
      \<lparr>sr_service_id = 1, sr_task_id = 10, sr_active = False\<rparr> # replicate 7 service_record_empty, sit_next_id = 2\<rparr> =
      Ok (2, \<lparr>sit_records = \<lparr>sr_service_id = 2, sr_task_id = 11, sr_active = True\<rparr> # replicate 7 service_record_empty,
        sit_next_id = 3\<rparr>)"
    by (simp add: runS_def register_task_def checked_add_word_def)
  have known: "task_for \<lparr>sit_records = \<lparr>sr_service_id = 2, sr_task_id = 11, sr_active = True\<rparr> # replicate 7 service_record_empty,
        sit_next_id = 3\<rparr> s = (if s = 2 then Some 11 else None)" for s
    by (simp add: task_for_def names_service_def service_record_empty_def)
  show ?thesis unfolding identity_self_test_def register_first by (simp add: un again known)
qed

lemma capability_new_with: "capability_new = capabilities_with []"
  by (simp add: capability_new_def capabilities_with_def CAPABILITY_TABLE_SLOTS_def)

lemma grant_next:
  assumes "length es < 32" and "\<forall>e \<in> set es. \<not> same_grant c r q (Some e)"
  shows "runS (grant c r q) (capabilities_with es) = Ok (\<lparr>ch_slot = of_nat (length es), ch_generation = 1\<rparr>,
    capabilities_with (es @ [\<lparr>ce_holder = c, ce_resource = r, ce_rights = q, ce_generation = 1, ce_state = Active\<rparr>]))"
proof -
  let ?e = "\<lparr>ce_holder = c, ce_resource = r, ce_rights = q, ce_generation = 1, ce_state = Active\<rparr>"
  have "position (same_grant c r q) (map Some es) = None" using assms(2) by (auto simp: position_None)
  then have none: "position (same_grant c r q) (ct_entries (capabilities_with es)) = None"
    by (simp add: capabilities_with_def position_append same_grant_def [of _ _ _ None])
  have "position (\<lambda>entry. entry = None) (map Some es) = None" by (simp add: position_None)
  then have free: "position (\<lambda>entry. entry = None) (ct_entries (capabilities_with es)) = Some (length es)"
    using assms(1) by (simp add: capabilities_with_def position_append)
  have "(map Some es @ replicate (32 - length es) None)[length es := Some ?e] =
      map Some (es @ [?e]) @ replicate (32 - length (es @ [?e])) None"
    by (rule used_store [OF assms(1)])
  then have "(ct_entries (capabilities_with es))[length es := Some ?e] = ct_entries (capabilities_with (es @ [?e]))"
    by (simp add: capabilities_with_def)
  then show ?thesis
    by (simp add: runS_def grant_def grant_with_provenance_def none free Let_def)
qed

lemma entry_at_with: "entry_at (capabilities_with es) slot = (if unat slot < length es then Some (es ! unat slot) else None)"
  by (auto simp: entry_at_def capabilities_with_def nth_append)

lemmas console_simps = bindS_def readS_def modifyS_def pureS_def write_line_def
lemmas right_simps = PROOF_RIGHTS_def RIGHT_READ_def RIGHT_WRITE_def RIGHT_SEND_def rights_contains_def

lemma capability_handle_test:
  "capability_handle_self_test out = (Ok (), out @ [''PYTHOS:CORE:CAPABILITY:GRANT'', ''PYTHOS:CORE:CAPABILITY:USE''])"
  unfolding capability_handle_self_test_def register_first capability_new_with
  by (simp add: console_simps grant_next validate_def entry_at_with right_simps)

lemma revoke_with:
  assumes "unat (ch_slot h) < length es" and "ce_generation (es ! unat (ch_slot h)) = ch_generation h"
  shows "runS (revoke h) (capabilities_with es) = Ok ((), capabilities_with (es[unat (ch_slot h) :=
    (es ! unat (ch_slot h))\<lparr>ce_state := Revoked, ce_generation := ch_generation h + 1\<rparr>]))"
  using assms by (simp add: runS_def revoke_def entry_at_with) (simp add: capabilities_with_def list_update_append map_update)

lemma revocation_test:
  "revocation_self_test out = (Ok (), out @ [''PYTHOS:CORE:CAPABILITY:REVOKE'', ''PYTHOS:CORE:CAPABILITY:STALE_DENIED''])"
  unfolding revocation_self_test_def register_first capability_new_with
  by (simp add: console_simps grant_next same_grant_def PROOF_RESOURCE_ID_def revoke_with validate_def entry_at_with
      right_simps)

lemma negative_authorization_test:
  "negative_authorization_self_test out = (Ok (), out @ [''PYTHOS:CORE:CAPABILITY:KNOWN_TARGET_DENIED''])"
  unfolding negative_authorization_self_test_def register_first capability_new_with
  by (simp add: console_simps validate_def entry_at_with)


definition quotas_with :: "ServiceId \<Rightarrow> u64 \<Rightarrow> u64 \<Rightarrow> QuotaTable" where
  "quotas_with s m u = \<lparr>qr_service_id = s, qr_max = m, qr_used = u, qr_active = True\<rparr> # replicate 3 quota_record_empty"

lemma quota_register_first:
  "runS (quota_register duplicate full s m) (replicate 4 quota_record_empty) = Ok ((), quotas_with s m 0)"
  by (simp add: runS_def quota_register_def quotas_with_def bindS_def readS_def modifyS_def quota_record_empty_def quota_of_def list_ex_iff
      first_update)

lemma quota_charge_with: "quota_charge unknown overflow exceeded s n (quotas_with s m u) =
  (case checked_add_word u n of None \<Rightarrow> (Err overflow, quotas_with s m u)
   | Some v \<Rightarrow> if m < v then (Err exceeded, quotas_with s m u) else (Ok (), quotas_with s m v))"
  by (simp add: quota_charge_def quotas_with_def quota_of_def bindS_def readS_def modifyS_def split: option.splits)

lemma quota_used_with: "quota_used unknown (quotas_with s m u) s = Ok u"
  by (simp add: quota_used_def quotas_with_def quota_of_def)

lemma memory_test: "memory_self_test = Ok \<lparr>mp_allocation_granted = True, mp_allocation_denied = True\<rparr>"
  unfolding memory_self_test_def register_first memory_register_def memory_quota_new_def MAX_QUOTA_RECORDS_def
    charge_pages_def used_pages_def map_errR.simps bindR.simps prod.case quota_register_first
  by (simp add: quota_charge_with quota_used_with checked_add_word_def runS_def)

lemma cpu_test: "cpu_self_test = Ok \<lparr>cp_tick_recorded = True, cp_throttle_denied = True\<rparr>"
  unfolding cpu_self_test_def register_first cpu_register_def cpu_quota_new_def MAX_QUOTA_RECORDS_def
    charge_tick_def used_ticks_def map_errR.simps bindR.simps prod.case quota_register_first
  by (simp add: quota_charge_with quota_used_with checked_add_word_def runS_def)

lemma release_with: "n \<le> u \<Longrightarrow> runS (release_blocks s n) (quotas_with s m u) = Ok ((), quotas_with s m (u - n))"
  by (simp add: runS_def release_blocks_def quotas_with_def quota_of_def bindS_def readS_def modifyS_def
      checked_sub_word_def)

lemma storage_quota_test:
  "storage_quota_self_test out = (Ok (), out @ [''PYTHOS:CORE:STORAGE_QUOTA:GRANTED'', ''PYTHOS:CORE:STORAGE_QUOTA:DENIED''])"
proof -
  have charge: "runS (charge_blocks 1 1) (quotas_with 1 2 0) = Ok ((), quotas_with 1 2 1)"
    by (simp add: runS_def charge_blocks_def quota_charge_with checked_add_word_def)
  have denied: "charge_blocks 1 2 (quotas_with 1 2 1) = (Err StorageQuotaExceeded, quotas_with 1 2 1)"
    by (simp add: charge_blocks_def quota_charge_with checked_add_word_def)
  show ?thesis
    unfolding storage_quota_self_test_def register_first storage_register_def storage_quota_new_def
      MAX_STORAGE_QUOTAS_def quota_register_first
    by (simp add: console_simps charge denied used_blocks_def quota_used_with release_with)
qed

lemma validate_with: "validate (capabilities_with es) c h r q =
  (if unat (ch_slot h) < length es then
     let entry = es ! unat (ch_slot h) in
     bindR (ensure (\<not> ce_generation entry \<noteq> ch_generation h) InvalidHandle) (\<lambda>_.
     bindR (ensure (\<not> ce_state entry \<noteq> Active) CapabilityRevoked) (\<lambda>_.
     bindR (ensure (\<not> ce_holder entry \<noteq> c) WrongHolder) (\<lambda>_.
     bindR (ensure (\<not> ce_resource entry \<noteq> r) WrongResource) (\<lambda>_.
     ensure (rights_contains (ce_rights entry) q) MissingRights))))
   else Err InvalidHandle)"
  by (simp add: validate_def entry_at_with Let_def)

lemma storage_service_test:
  "storage_service_self_test device out =
    (if queue_size device = 0 \<or> capacity_sectors device = 0 then (Err InvalidRange, out)
     else (Ok (), out @ [''PYTHOS:CORE:STORAGE:ACCESS_GRANTED'', ''PYTHOS:CORE:STORAGE:ACCESS_DENIED'']))"
  unfolding storage_service_self_test_def register_first capability_new_with Let_def
  by (cases "queue_size device = 0")
    (simp_all add: register_second console_simps grant_next same_grant_def authorize_request_def validate_with Let_def
      validate_range_def required_rights_def storage_service_new_def request_read_def request_write_def right_simps
      checked_add_word_def)

lemma permission_validation_test:
  "permission_validation_self_test out =
    (Ok (), out @ [''PYTHOS:CORE:PERMISSION:IPC_ALLOWED'', ''PYTHOS:CORE:PERMISSION:IPC_DENIED''])"
proof -
  obtain m where new: "ipc_message_new PERMISSION_MESSAGE_TYPE PERMISSION_PAYLOAD = Ok m" and "ipc_verify m = Ok ()"
    by (simp add: ipc_message_new_def PERMISSION_PAYLOAD_def MAX_MESSAGE_SIZE_def ipc_verify_def)
  then obtain c where sent: "ipc_send 1 2 m (ipc_channel_new 1 2) = (Ok (), c)"
    by (simp add: ipc_send_def op_simps ipc_channel_new_def has_endpoint_pair_def CHANNEL_QUEUE_DEPTH_def)
  then have allowed: "runS (send_with_capability t 1 h r 2 m) (ipc_channel_new 1 2) = Ok ((), c)"
    if "validate t 1 h r RIGHT_SEND = Ok ()" for t h r
    using that by (simp add: runS_def send_with_capability_def bindS_def readS_def onS_def)
  have refused: "fst (send_with_capability t 1 h r 2 m c) = Err (PermissionCapability MissingRights)"
    if "validate t 1 h r RIGHT_SEND = Err MissingRights" for t h r
    using that by (simp add: send_with_capability_def bindS_def readS_def)
  show ?thesis
    unfolding permission_validation_self_test_def register_first capability_new_with
    by (simp add: register_second console_simps grant_next same_grant_def allowed refused validate_with right_simps new)
qed

lemma shared_memory_test:
  "shared_memory_self_test out = (Ok (), out @ [''PYTHOS:CORE:SHM:READ_ONLY'', ''PYTHOS:CORE:SHM:WRITE_DENIED''])"
  unfolding shared_memory_self_test_def register_first capability_new_with
  by (simp add: console_simps grant_next region_read_def region_write_def validate_with right_simps)

lemma guarded_phase8_test:
  "guarded_phase8_self_test reader_root writer_root = (if reader_root = writer_root then Err SharedAddressSpace
     else Ok \<lparr>gp_ring3_read = True, gp_cross_space_write_denied = True\<rparr>)"
  unfolding guarded_phase8_self_test_def register_first capability_new_with
  by (simp add: register_second console_simps grant_next region_read_def region_write_def validate_with right_simps)

definition channel_with :: "QueuedMessage list \<Rightarrow> usize \<Rightarrow> IpcChannel" where
  "channel_with q h = \<lparr>ic_owner = 1, ic_peer = 2, ic_queue = (if h = 0 then map Some q @ replicate (2 - length q) None
     else rotate1 (map Some q @ replicate (2 - length q) None)), ic_head = h, ic_length = length q\<rparr>"

lemma channel_new_with: "ipc_channel_new 1 2 = channel_with [] 0"
  by (simp add: ipc_channel_new_def channel_with_def CHANNEL_QUEUE_DEPTH_def)

lemma intact_send:
  assumes "ipc_verify m = Ok ()" and "has_endpoint_pair (channel_with [] 0) a b" and "h < 2"
  shows "ipc_send a b m (channel_with [] h) = (Ok (), channel_with [\<lparr>qm_from = a, qm_to = b, qm_message = m\<rparr>] h)"
    "ipc_send a b m (channel_with [x] h) = (Ok (), channel_with [x, \<lparr>qm_from = a, qm_to = b, qm_message = m\<rparr>] h)"
    "ipc_send a b m (channel_with [x, y] h) = (Err QueueFull, channel_with [x, y] h)"
proof -
  have h: "h = 0 \<or> h = 1" using assms(3) by auto
  have two: "replicate 2 (None :: QueuedMessage option) = [None, None]" by (simp add: numeral_2_eq_2)
  show "ipc_send a b m (channel_with [] h) = (Ok (), channel_with [\<lparr>qm_from = a, qm_to = b, qm_message = m\<rparr>] h)"
    "ipc_send a b m (channel_with [x] h) = (Ok (), channel_with [x, \<lparr>qm_from = a, qm_to = b, qm_message = m\<rparr>] h)"
    "ipc_send a b m (channel_with [x, y] h) = (Err QueueFull, channel_with [x, y] h)"
    using h assms(1,2)
    by (auto simp: ipc_send_def channel_with_def has_endpoint_pair_def bindS_def readS_def modifyS_def CHANNEL_QUEUE_DEPTH_def two
        Let_def)
qed

lemma intact_receive:
  assumes "h < 2" and "r = 1 \<or> r = 2"
  shows "ipc_receive r (channel_with [] h) = (Err QueueEmpty, channel_with [] h)"
    "ipc_verify m = Ok () \<Longrightarrow>
     ipc_receive r (channel_with [\<lparr>qm_from = a, qm_to = r, qm_message = m\<rparr>] h) = (Ok m, channel_with [] (1 - h))"
    "ipc_verify m = Ok () \<Longrightarrow>
     ipc_receive r (channel_with [\<lparr>qm_from = a, qm_to = r, qm_message = m\<rparr>, y] h) = (Ok m, channel_with [y] (1 - h))"
proof -
  have h: "h = 0 \<or> h = 1" using assms(1) by auto
  have two: "replicate 2 (None :: QueuedMessage option) = [None, None]" by (simp add: numeral_2_eq_2)
  note eval = ipc_receive_def channel_with_def bindS_def readS_def modifyS_def CHANNEL_QUEUE_DEPTH_def two
  show "ipc_receive r (channel_with [] h) = (Err QueueEmpty, channel_with [] h)"
    using h assms(2) by (auto simp: eval)
  show "ipc_verify m = Ok () \<Longrightarrow>
     ipc_receive r (channel_with [\<lparr>qm_from = a, qm_to = r, qm_message = m\<rparr>] h) = (Ok m, channel_with [] (1 - h))"
    using h assms(2) by (auto simp: eval)
  show "ipc_verify m = Ok () \<Longrightarrow>
     ipc_receive r (channel_with [\<lparr>qm_from = a, qm_to = r, qm_message = m\<rparr>, y] h) = (Ok m, channel_with [y] (1 - h))"
    using h assms(2) by (auto simp: eval)
qed

lemma message_for:
  assumes "length bytes \<le> 16"
  obtains m where "ipc_message_new t bytes = Ok m" "ipc_verify m = Ok ()" "message_intact m t bytes"
proof -
  obtain m where m: "ipc_message_new t bytes = Ok m" "message_intact m t bytes"
    using assms by (auto simp: ipc_message_new_Ok message_intact_def MAX_MESSAGE_SIZE_def)
  then show ?thesis using that ipc_message_new_verifies by blast
qed

lemma endpoint_pair: "has_endpoint_pair (channel_with [] 0) 1 2" "has_endpoint_pair (channel_with [] 0) 2 1"
  by (simp_all add: has_endpoint_pair_def channel_with_def)

lemma run_send:
  assumes "ipc_verify m = Ok ()" and "has_endpoint_pair (channel_with [] 0) a b" and "h < 2"
  shows "runS (ipc_send a b m) (channel_with [] h) = Ok ((), channel_with [\<lparr>qm_from = a, qm_to = b, qm_message = m\<rparr>] h)"
    "runS (ipc_send a b m) (channel_with [x] h) = Ok ((), channel_with [x, \<lparr>qm_from = a, qm_to = b, qm_message = m\<rparr>] h)"
  using intact_send [OF assms] by (simp_all add: runS_def)

lemma run_receive:
  assumes "h < 2" and "r = 1 \<or> r = 2" and "ipc_verify m = Ok ()"
  shows "runS (ipc_receive r) (channel_with [\<lparr>qm_from = a, qm_to = r, qm_message = m\<rparr>] h) = Ok (m, channel_with [] (1 - h))"
    "runS (ipc_receive r) (channel_with [\<lparr>qm_from = a, qm_to = r, qm_message = m\<rparr>, y] h) = Ok (m, channel_with [y] (1 - h))"
  using intact_receive [OF assms(1,2)] assms(3) by (simp_all add: runS_def)

lemma timed_receive:
  assumes "h < 2" and "r = 1 \<or> r = 2"
  shows "ipc_verify m = Ok () \<Longrightarrow> runS (receive_reply_or_timeout r 1) (channel_with
      [\<lparr>qm_from = a, qm_to = r, qm_message = m\<rparr>] h) = Ok (m, channel_with [] (1 - h))"
    and "fst (receive_reply_or_timeout r 1 (channel_with [] h)) = Err ReplyTimeout"
  using assms by (simp_all add: receive_reply_or_timeout_def runS_def intact_receive)

lemmas channel_evals = console_simps register_second channel_new_with run_send run_receive intact_send(3)
  intact_receive(1) endpoint_pair timed_receive

lemma ipc_test: "ipc_self_test out = (Ok (), out @ [''PYTHOS:CORE:IPC:SEND'', ''PYTHOS:CORE:IPC:RECV''])"
proof -
  have "length IPC_PROOF_PAYLOAD \<le> 16" by (simp add: IPC_PROOF_PAYLOAD_def)
  then obtain m where "ipc_message_new 1 IPC_PROOF_PAYLOAD = Ok m" "ipc_verify m = Ok ()"
    "message_intact m 1 IPC_PROOF_PAYLOAD" by (rule message_for)
  then show ?thesis
    unfolding ipc_self_test_def register_first map_errR.simps pureS_def
    by (simp add: channel_evals)
qed

lemma bounded_queue_test: "bounded_queue_self_test out = (Ok (), out @ [''PYTHOS:CORE:IPC:QUEUE_FULL''])"
proof -
  have len: "length QUEUE_PROOF_A \<le> 16" "length QUEUE_PROOF_B \<le> 16" "length QUEUE_PROOF_C \<le> 16"
    by (simp_all add: QUEUE_PROOF_A_def QUEUE_PROOF_B_def QUEUE_PROOF_C_def)
  obtain a where "ipc_message_new 2 QUEUE_PROOF_A = Ok a" "ipc_verify a = Ok ()" using len(1) by (rule message_for)
  moreover obtain b where "ipc_message_new 2 QUEUE_PROOF_B = Ok b" "ipc_verify b = Ok ()" using len(2) by (rule message_for)
  moreover obtain c where "ipc_message_new 2 QUEUE_PROOF_C = Ok c" "ipc_verify c = Ok ()" using len(3) by (rule message_for)
  ultimately show ?thesis
    unfolding bounded_queue_self_test_def register_first map_errR.simps pureS_def
    by (simp add: channel_evals)
qed

lemma request_reply_test: "request_reply_self_test out =
  (Ok (), out @ [''PYTHOS:CORE:IPC:REQUEST'', ''PYTHOS:CORE:IPC:REPLY'', ''PYTHOS:CORE:IPC:REPLY_TIMEOUT''])"
proof -
  have len: "length REQUEST_PROOF_PAYLOAD \<le> 16" "length REPLY_PROOF_PAYLOAD \<le> 16"
    by (simp_all add: REQUEST_PROOF_PAYLOAD_def REPLY_PROOF_PAYLOAD_def)
  obtain a where "ipc_message_new 3 REQUEST_PROOF_PAYLOAD = Ok a" "ipc_verify a = Ok ()"
    using len(1) by (rule message_for)
  moreover obtain b where "ipc_message_new 4 REPLY_PROOF_PAYLOAD = Ok b" "ipc_verify b = Ok ()"
    using len(2) by (rule message_for)
  ultimately show ?thesis
    unfolding request_reply_self_test_def register_first map_errR.simps pureS_def
    by (simp add: channel_evals)
qed

definition proof_grant :: InitialGrant where
  "proof_grant = \<lparr>ig_resource = DYNAMIC_PROOF_RESOURCE_ID, ig_rights = DYNAMIC_PROOF_RIGHTS\<rparr>"

definition proof_process :: DynamicProcess where
  "proof_process = (process_new 2 121 2)\<lparr>dp_capabilities := Some \<lparr>pc_handle = \<lparr>ch_slot = 0, ch_generation = 1\<rparr>,
     pc_resource = DYNAMIC_PROOF_RESOURCE_ID, pc_rights = DYNAMIC_PROOF_RIGHTS\<rparr> # replicate 3 None, dp_capability_count := 1\<rparr>"

definition proof_entry :: CapabilityEntry where
  "proof_entry = \<lparr>ce_holder = 2, ce_resource = DYNAMIC_PROOF_RESOURCE_ID, ce_rights = DYNAMIC_PROOF_RIGHTS,
     ce_generation = 1, ce_state = Active\<rparr>"

definition proof_kernel :: "(ServiceId \<times> TaskId) list \<Rightarrow> CapabilityEntry list \<Rightarrow> DynamicProcess list \<Rightarrow> kernel_tables" where
  "proof_kernel xs es ps = \<lparr>kt_identities = identities_after xs (of_nat (length xs + 1)), kt_capabilities = capabilities_with es,
     kt_processes = \<lparr>dpt_processes = map Some ps @ replicate (4 - length ps) None, dpt_next_id = of_nat (length ps + 1)\<rparr>\<rparr>"

lemma runS_Ok: "runS m s = Ok (a, s') \<longleftrightarrow> m s = (Ok a, s')"
  by (cases "m s"; cases "fst (m s)") (auto simp: runS_def)

lemma spawn_empty: "runS (spawn 120 policy_empty) kernel_start =
  Ok (process_new 1 120 1, proof_kernel [(1, 120)] [] [process_new 1 120 1])"
proof -
  have "register_task 120 identity_new = (Ok 1, identities_after [(1, 120)] 2)"
    using register_first [of 120] by (simp add: runS_Ok)
  moreover have "add_grants policy_empty 0 p t = (Ok p, t)" for p t
    unfolding add_grants.simps [of policy_empty 0] by (simp add: policy_empty_def)
  moreover have "(replicate 4 None)[0 := Some p] = Some p # replicate 3 None" for p :: DynamicProcess
    by (simp add: first_update)
  ultimately show ?thesis
    unfolding runS_Ok
    by (simp add: spawn_def kernel_start_def proof_kernel_def bindS_def readS_def onS_def modifyS_def processes_new_def
        MAX_DYNAMIC_PROCESSES_def has_task_def list_ex_iff take_process_id_def checked_add_word_def capability_new_with)
qed

lemma grants_single: "add_grants (policy_single proof_grant) 0 (process_new 2 121 2) (capabilities_with []) =
  (Ok proof_process, capabilities_with [proof_entry])"
proof -
  have grant: "grant 2 DYNAMIC_PROOF_RESOURCE_ID DYNAMIC_PROOF_RIGHTS (capabilities_with []) =
      (Ok \<lparr>ch_slot = 0, ch_generation = 1\<rparr>, capabilities_with [proof_entry])"
    using grant_next [of "[]" 2 DYNAMIC_PROOF_RESOURCE_ID DYNAMIC_PROOF_RIGHTS] by (simp add: runS_Ok proof_entry_def)
  have "add_initial_grant proof_grant (process_new 2 121 2) (capabilities_with []) = (Ok proof_process, capabilities_with [proof_entry])"
    by (simp add: add_initial_grant_def bindS_def readS_def onS_def process_new_def MAX_PROCESS_CAPABILITIES_def
        proof_grant_def grant proof_process_def first_update)
  then show ?thesis
    unfolding add_grants.simps [of "policy_single proof_grant" 0] add_grants.simps [of "policy_single proof_grant" "0 + 1"]
    by (simp add: policy_single_def policy_empty_def MAX_PROCESS_CAPABILITIES_def)
qed

lemma spawn_granted: "runS (spawn 121 (policy_single proof_grant)) (proof_kernel [(1, 120)] [] [process_new 1 120 1]) =
  Ok (proof_process, proof_kernel [(1, 120), (2, 121)] [proof_entry] [process_new 1 120 1, proof_process])"
proof -
  have "register_task 121 (identities_after [(1, 120)] 2) = (Ok 2, identities_after [(1, 120), (2, 121)] 3)"
    using register_second [of 121 120] by (simp add: runS_Ok)
  moreover have "(replicate 3 None)[0 := Some p] = Some p # replicate 2 None" for p :: DynamicProcess
    by (simp add: first_update)
  ultimately show ?thesis
    unfolding runS_Ok
    by (simp add: spawn_def proof_kernel_def bindS_def readS_def onS_def modifyS_def has_task_def list_ex_iff
        take_process_id_def checked_add_word_def grants_single process_new_def [of 1])
qed

lemma dynamic_capabilities_test: "dynamic_capabilities_self_test = Ok \<lparr>dc_process_created = True, dc_zero_default = True,
  dc_no_grant_denied = True, dc_grant_issued = True, dc_granted_use = True\<rparr>"
proof -
  have "task_for (kt_identities (proof_kernel [(1, 120)] [] [process_new 1 120 1])) 1 = Some 120"
    by (simp add: proof_kernel_def task_for_def names_service_def identities_after_def)
  moreover have "use_capability (process_new 1 120 1) t r q = Err NoGrant" for t r q
    unfolding use_capability_def use_from.simps [of "process_new 1 120 1" t r q False 0] by (simp add: process_new_def)
  moreover have "is_Ok (use_capability proof_process (capabilities_with [proof_entry]) DYNAMIC_PROOF_RESOURCE_ID RIGHT_READ)"
    unfolding use_capability_def
      use_from.simps [of proof_process "capabilities_with [proof_entry]" DYNAMIC_PROOF_RESOURCE_ID RIGHT_READ False 0]
    by (simp add: proof_process_def process_new_def validate_with proof_entry_def DYNAMIC_PROOF_RIGHTS_def right_simps)
  moreover have "dp_capability_count proof_process = 1" by (simp add: proof_process_def)
  ultimately show ?thesis
    unfolding dynamic_capabilities_self_test_def spawn_empty
    by (simp add: spawn_granted [unfolded proof_grant_def]) (simp add: process_new_def proof_kernel_def)
qed

definition log_with :: "AuditEvent list \<Rightarrow> AuditLog" where
  "log_with es = \<lparr>al_events = map Some es @ replicate (8 - length es) None, al_len = length es\<rparr>"

lemma audit_new_with: "audit_log_new = log_with []"
  by (simp add: audit_log_new_def log_with_def)

lemma audit_record_with: "length es < 8 \<Longrightarrow> runS (audit_record event) (log_with es) = Ok ((), log_with (es @ [event]))"
  using used_store [of es 8 event]
  by (simp add: runS_def audit_record_def log_with_def bindS_def readS_def modifyS_def)

lemma audit_event_with: "i < length es \<Longrightarrow> audit_event (log_with es) i = Some (es ! i)"
  by (simp add: audit_event_def log_with_def nth_append)

lemma audit_logging_test: "audit_logging_self_test out = (Ok (), out @ [''PYTHOS:CORE:AUDIT:GRANT'',
  ''PYTHOS:CORE:AUDIT:USE'', ''PYTHOS:CORE:AUDIT:DENIAL'', ''PYTHOS:CORE:AUDIT:REVOCATION''])"
  unfolding audit_logging_self_test_def register_first audit_new_with
  by (simp add: console_simps audit_record_with audit_event_with)

lemmas console_tests = identity_test ipc_test bounded_queue_test request_reply_test capability_handle_test
  shared_memory_test permission_validation_test revocation_test negative_authorization_test audit_logging_test


end
