(* ===== verification/Net_Bytes.thy ===== *)
theory Net_Bytes
  imports Prelude
begin

text \<open>
  What the packet codecs of \<open>user/probes\<close> share: reads and writes of byte slices that abort out of
  range, integers in network byte order, and the Internet checksum with its arithmetic meaning, the
  sum of the 16-bit words modulo 65535.
\<close>

section \<open>Slices and network byte order\<close>

definition byte_at :: "u8 list \<Rightarrow> usize \<Rightarrow> ('e, u8) result" where
  "byte_at bytes i = (if i < length bytes then Ok (bytes ! i) else Panic)"

definition slice_at :: "u8 list \<Rightarrow> usize \<Rightarrow> usize \<Rightarrow> ('e, u8 list) result" where
  "slice_at bytes i j = expectR (slice_get bytes i j)"

text \<open>\<open>bytes[i..j].copy_from_slice(data)\<close>, and with one byte the assignment \<open>bytes[i] = b\<close>.\<close>

definition copy_range :: "usize \<Rightarrow> usize \<Rightarrow> u8 list \<Rightarrow> u8 list \<Rightarrow> ('e, u8 list) result" where
  "copy_range i j data bytes =
     (if i \<le> j \<and> j \<le> length bytes \<and> length data = j - i then Ok (take i bytes @ data @ drop j bytes) else Panic)"

definition from_be_bytes :: "u8 list \<Rightarrow> 'w::len word" where
  "from_be_bytes bytes = from_le_bytes (rev bytes)"

definition to_be_bytes :: "'w::len word \<Rightarrow> u8 list" where
  "to_be_bytes w = rev (to_le_bytes w)"

definition u16_at :: "u8 list \<Rightarrow> usize \<Rightarrow> ('e, u16) result" where
  "u16_at bytes i = bindR (byte_at bytes i) (\<lambda>a. bindR (byte_at bytes (i + 1)) (\<lambda>b. Ok (from_be_bytes [a, b])))"

section \<open>The checksum\<close>

text \<open>
  \<open>add_word\<close> of \<open>udp.rs\<close>, the same two statements as in the loops of \<open>ipv4.rs\<close> and \<open>icmp.rs\<close>. The sum
  is a 32-bit integer; it never exceeds \<open>0x10000\<close> between steps, so that the addition does not wrap.
\<close>

definition add_word :: "u32 \<Rightarrow> u32 \<Rightarrow> u32" where
  "add_word acc word = (let acc = acc + word in (acc AND 0xFFFF) + drop_bit 16 acc)"

text \<open>The loop over \<open>chunks_exact(2)\<close> and the odd byte after it.\<close>

fun add_words :: "u32 \<Rightarrow> u8 list \<Rightarrow> u32" where
  "add_words acc (a # b # bytes) = add_words (add_word acc (ucast (from_be_bytes [a, b] :: u16))) bytes"
| "add_words acc [a] = add_word acc (push_bit 8 (ucast a))"
| "add_words acc [] = acc"

lemma carry_nat:
  fixes s :: u32
  shows "unat ((s AND 0xFFFF) + drop_bit 16 s) = unat s mod 65536 + unat s div 65536"
proof -
  have "s AND 0xFFFF = take_bit 16 s" by (simp add: take_bit_eq_mask mask_eq_exp_minus_1)
  then have a: "unat (s AND 0xFFFF) = unat s mod 65536" by (simp add: take_bit_eq_mod unat_mod_distrib)
  have d: "unat (drop_bit 16 s) = unat s div 65536"
    by (simp add: drop_bit_eq_div unat_div_distrib)
  have "unat s < 4294967296" using unat_bound [of s] by simp
  then have "unat s div 65536 < 65536" by (rule less_mult_imp_div_less [OF order_less_le_trans]) simp
  moreover have "unat s mod 65536 < 65536" by simp
  ultimately have "unat s mod 65536 + unat s div 65536 < 2 ^ 32" by simp
  then show ?thesis using a d by (simp add: unat_word_ariths)
qed

function fold_carries :: "u32 \<Rightarrow> u32" where
  "fold_carries acc = (if 0xFFFF < acc then fold_carries ((acc AND 0xFFFF) + drop_bit 16 acc) else acc)"
  by pat_completeness auto
termination
proof (relation "measure unat")
  fix acc :: u32
  assume "0xFFFF < acc"
  then have "65535 < unat acc" by (simp add: word_less_nat_alt)
  then have "1 \<le> unat acc div 65536" by (simp add: less_eq_div_iff_mult_less_eq)
  then have "unat acc mod 65536 + unat acc div 65536 < unat acc" 
    using div_mult_mod_eq [of "unat acc" 65536] by linarith
  then show "((acc AND 0xFFFF) + drop_bit 16 acc, acc) \<in> measure unat" by (simp add: carry_nat)
qed simp

declare fold_carries.simps [simp del]

definition finish_sum :: "u32 \<Rightarrow> u16" where
  "finish_sum acc = NOT (ucast (fold_carries acc))"


section \<open>Network byte order\<close>

lemma unat_from_be16: "unat (from_be_bytes [a, b] :: u16) = 256 * unat a + unat b"
proof -
  have "unat a < 256" "unat b < 256" using unat_bound [of a] unat_bound [of b] by simp_all
  then have lt: "nat_of_le [b, a] < 2 ^ LENGTH(16)" by simp
  have "unat (from_be_bytes [a, b] :: u16) = nat_of_le [b, a]"
    unfolding from_be_bytes_def from_le_bytes_def rev.simps append.simps unat_of_nat using lt by (rule mod_less)
  then show ?thesis by simp
qed

lemma be16_bound: "256 * unat (a :: u8) + unat (b :: u8) < 65536"
  using unat_bound [of a] unat_bound [of b] by simp

lemma to_be16: obtains a b where "to_be_bytes (w :: u16) = [a, b]" and "from_be_bytes [a, b] = w"
proof -
  have "length (to_be_bytes w) = 2" by (simp add: to_be_bytes_def)
  then obtain a b where ab: "to_be_bytes w = [a, b]" by (auto simp: length_Suc_conv numeral_2_eq_2)
  have "from_be_bytes (to_be_bytes w) = w" by (simp add: from_be_bytes_def to_be_bytes_def)
  then show ?thesis using that ab by simp
qed

section \<open>Arithmetic of the checksum\<close>

text \<open>The sum of the 16-bit words of a buffer as a number, with an odd last byte as a high half.\<close>

fun word_sum :: "u8 list \<Rightarrow> nat" where
  "word_sum (a # b # bytes) = 256 * unat a + unat b + word_sum bytes"
| "word_sum [a] = 256 * unat a"
| "word_sum [] = 0"

text \<open>\<open>represents s n\<close>: the running sum \<open>s\<close> stands for the number \<open>n\<close> in one's complement.\<close>

definition represents :: "u32 \<Rightarrow> nat \<Rightarrow> bool" where
  "represents s n \<longleftrightarrow> unat s \<le> 65536 \<and> unat s mod 65535 = n mod 65535 \<and> (unat s = 0 \<longleftrightarrow> n = 0)"

lemma carry_mod: "(n mod 65536 + n div 65536) mod 65535 = n mod (65535 :: nat)"
proof -
  have "n = 65535 * (n div 65536) + (n mod 65536 + n div 65536)"
    using div_mult_mod_eq [of n 65536] by linarith
  then show ?thesis by (metis mod_mult_self4)
qed

lemma carry_zero: "n mod 65536 + n div 65536 = 0 \<longleftrightarrow> n = (0 :: nat)"
  by auto

lemma represents_add:
  assumes "represents s n" and "unat w \<le> 65535"
  shows "represents (add_word s w) (n + unat w)"
proof -
  from assms have b: "unat s + unat w \<le> 131071" by (simp add: represents_def)
  then have u: "unat (s + w) = unat s + unat w" by (simp add: unat_word_ariths)
  then have v: "unat (add_word s w) = (unat s + unat w) mod 65536 + (unat s + unat w) div 65536"
    by (simp add: add_word_def Let_def carry_nat)
  have "(unat s + unat w) div 65536 \<le> 1" using b by simp
  moreover have "(unat s + unat w) mod 65536 < 65536" by simp
  ultimately have "unat (add_word s w) \<le> 65536" unfolding v by linarith
  moreover have "unat (add_word s w) mod 65535 = (n + unat w) mod 65535"
    unfolding v carry_mod using assms(1) by (intro mod_add_cong) (simp_all add: represents_def)
  moreover have "unat (add_word s w) = 0 \<longleftrightarrow> n + unat w = 0"
    unfolding v carry_zero using assms(1) by (auto simp: represents_def)
  ultimately show ?thesis by (simp add: represents_def)
qed

lemma represents_words: "represents s n \<Longrightarrow> represents (add_words s bytes) (n + word_sum bytes)"
proof (induction s bytes arbitrary: n rule: add_words.induct)
  case (1 acc a b bytes)
  let ?w = "ucast (from_be_bytes [a, b] :: u16) :: u32"
  have w: "unat ?w = 256 * unat a + unat b"
    using be16_bound [of a b] by (simp add: unsigned_ucast_eq unat_from_be16 take_bit_nat_eq_self)
  then have "unat ?w \<le> 65535" using be16_bound [of a b] by simp
  then have "represents (add_word acc ?w) (n + (256 * unat a + unat b))" using represents_add [OF 1(2), of ?w] w by simp
  then show ?case using 1(1) [of "n + (256 * unat a + unat b)"] by (simp add: add.assoc)
next
  case (2 acc a)
  have "unat a < 256" using unat_bound [of a] by simp
  then have "unat (push_bit 8 (ucast a) :: u32) = 256 * unat a"
    by (simp add: push_bit_eq_mult unat_word_ariths unsigned_ucast_eq take_bit_nat_eq_self)
  moreover from this \<open>unat a < 256\<close> have "unat (push_bit 8 (ucast a) :: u32) \<le> 65535" by simp
  ultimately show ?case using represents_add [OF 2, of "push_bit 8 (ucast a)"] by simp
next
  case (3 acc)
  then show ?case by simp
qed

lemma fold_carries_represents: "unat (fold_carries s) \<le> 65535 \<and>
  unat (fold_carries s) mod 65535 = unat s mod 65535 \<and> (unat (fold_carries s) = 0 \<longleftrightarrow> unat s = 0)"
proof (induction s rule: fold_carries.induct)
  case (1 s)
  show ?case
  proof (cases "0xFFFF < s")
    case True
    then show ?thesis
      using 1 carry_zero [of "unat s"] by (simp add: fold_carries.simps [of s] carry_nat carry_mod)
  next
    case False
    then show ?thesis by (simp add: fold_carries.simps [of s] word_less_nat_alt)
  qed
qed

lemma unat_NOT16: "unat (NOT x :: u16) = 65535 - unat x"
proof -
  have "NOT x = 0xFFFF - x" by (simp add: not_eq_complement)
  moreover have "x \<le> 0xFFFF" using unat_bound [of x] by (simp add: word_le_nat_alt)
  ultimately show ?thesis by (simp add: unat_sub)
qed

lemma finish_sum_nat: "unat (finish_sum s) = 65535 - unat (fold_carries s)"
  using fold_carries_represents [of s] by (simp add: finish_sum_def unat_NOT16 unsigned_ucast_eq take_bit_nat_eq_self)

text \<open>What a checksum of zero means, and what writing the checksum into a zero field achieves.\<close>

lemma finish_sum_zero:
  assumes "represents s n"
  shows "finish_sum s = 0 \<longleftrightarrow> 0 < n \<and> 65535 dvd n"
proof -
  let ?f = "unat (fold_carries s)"
  have f: "?f \<le> 65535" "?f mod 65535 = n mod 65535" "?f = 0 \<longleftrightarrow> n = 0"
    using fold_carries_represents [of s] assms by (simp_all add: represents_def)
  have "finish_sum s = 0 \<longleftrightarrow> ?f = 65535"
    using f(1) finish_sum_nat [of s] unat_eq_zero [of "finish_sum s"] by auto
  also have "\<dots> \<longleftrightarrow> 0 < n \<and> 65535 dvd n"
  proof (cases "?f = 65535")
    case True
    then show ?thesis using f by (auto simp: dvd_eq_mod_eq_0)
  next
    case False
    then show ?thesis using f by (auto simp: dvd_eq_mod_eq_0)
  qed
  finally show ?thesis .
qed

lemma finish_sum_completes:
  assumes "represents s n"
  shows "65535 dvd n + unat (finish_sum s)"
proof -
  let ?f = "unat (fold_carries s)"
  have f: "?f \<le> 65535" "?f mod 65535 = n mod 65535"
    using fold_carries_represents [of s] assms by (simp_all add: represents_def)
  have "(n + (65535 - ?f)) mod 65535 = (?f + (65535 - ?f)) mod 65535" by (rule mod_add_cong) (simp_all add: f(2))
  then show ?thesis using f(1) by (simp add: finish_sum_nat dvd_eq_mod_eq_0)
qed

lemma represents_start: "represents 0 0"
  by (simp add: represents_def)

lemma word_sum_append: "even (length xs) \<Longrightarrow> word_sum (xs @ ys) = word_sum xs + word_sum ys"
  by (induction xs rule: word_sum.induct) simp_all

section \<open>Slices and checksums in proofs\<close>

lemma length_4: "length xs = 4 \<Longrightarrow> \<exists>a b c d. xs = [a, b, c, d]"
  by (auto simp: length_Suc_conv numeral_eq_Suc)

lemma length_to_be16 [simp]: "length (to_be_bytes (w :: u16)) = 2"
  by (simp add: to_be_bytes_def)

lemma first_4: "4 \<le> length zs \<Longrightarrow> \<exists>a b c d. zs = [a, b, c, d] @ drop 4 zs"
  using length_4 [of "take 4 zs"] append_take_drop_id [of 4 zs] by (metis length_take min.absorb2)

lemma explicit_20:
  assumes "20 \<le> length zs"
  obtains a b c d e f g h i j k l m n p q r s t u where
    "zs = [a, b, c, d, e, f, g, h, i, j, k, l, m, n, p, q, r, s, t, u] @ drop 20 zs"
proof -
  have 1: "\<exists>a b c d. zs = [a, b, c, d] @ drop 4 zs" using assms by (intro first_4) simp
  have 2: "\<exists>a b c d. drop 4 zs = [a, b, c, d] @ drop 8 zs" using first_4 [of "drop 4 zs"] assms by simp
  have 3: "\<exists>a b c d. drop 8 zs = [a, b, c, d] @ drop 12 zs" using first_4 [of "drop 8 zs"] assms by simp
  have 4: "\<exists>a b c d. drop 12 zs = [a, b, c, d] @ drop 16 zs" using first_4 [of "drop 12 zs"] assms by simp
  have 5: "\<exists>a b c d. drop 16 zs = [a, b, c, d] @ drop 20 zs" using first_4 [of "drop 16 zs"] assms by simp
  from 1 2 3 4 5 show thesis by (elim exE) (rule that, simp)
qed

lemma slice_at_Ok: "i \<le> j \<Longrightarrow> j \<le> length bytes \<Longrightarrow> slice_at bytes i j = Ok (take (j - i) (drop i bytes))"
  by (simp add: slice_at_def slice_get_def)

lemma u16_at_Ok: "i + 1 < length bytes \<Longrightarrow> u16_at bytes i = Ok (from_be_bytes [bytes ! i, bytes ! (i + 1)])"
  by (simp add: u16_at_def byte_at_def)

lemma checksum_zero: "finish_sum (add_words 0 bytes) = 0 \<longleftrightarrow> 0 < word_sum bytes \<and> 65535 dvd word_sum bytes"
  using finish_sum_zero [OF represents_words [OF represents_start]] by simp

lemma checksum_completes: "65535 dvd word_sum bytes + unat (finish_sum (add_words 0 bytes))"
  using finish_sum_completes [OF represents_words [OF represents_start]] by simp

lemma word_sum_be16: "word_sum (to_be_bytes (w :: u16) @ bytes) = unat w + word_sum bytes"
proof -
  obtain a b where "to_be_bytes w = [a, b]" "from_be_bytes [a, b] = w" by (rule to_be16)
  then show ?thesis using unat_from_be16 [of a b] by simp
qed

text \<open>Corruption of one 16-bit word.\<close>

lemma word_sum_at:
  assumes "even i" and "i + 1 < length bytes"
  shows "word_sum bytes = word_sum (take i bytes) + (256 * unat (bytes ! i) + unat (bytes ! (i + 1))) + word_sum (drop (i + 2) bytes)"
proof -
  have "bytes = take i bytes @ bytes ! i # bytes ! (i + 1) # drop (i + 2) bytes"
    using assms(2) by (simp add: Cons_nth_drop_Suc)
  moreover have "even (length (take i bytes))" using assms by simp
  ultimately show ?thesis
    by (metis (no_types, lifting) word_sum_append word_sum.simps(1) add.assoc)
qed


definition replace_word :: "usize \<Rightarrow> u16 \<Rightarrow> u8 list \<Rightarrow> u8 list" where
  "replace_word k w bytes = take (2 * k) bytes @ to_be_bytes w @ drop (2 * k + 2) bytes"

definition word_at :: "usize \<Rightarrow> u8 list \<Rightarrow> u16" where
  "word_at k bytes = from_be_bytes [bytes ! (2 * k), bytes ! (2 * k + 1)]"

lemma replaced_sum:
  assumes "2 * k + 1 < length bytes"
  shows "word_sum (replace_word k w bytes) + unat (word_at k bytes) = word_sum bytes + unat w"
proof -
  have "even (length (take (2 * k) bytes))" using assms by simp
  then have "word_sum (replace_word k w bytes) = word_sum (take (2 * k) bytes) + (unat w + word_sum (drop (2 * k + 2) bytes))"
    by (simp add: replace_word_def word_sum_append word_sum_be16)
  then show ?thesis using word_sum_at [of "2 * k" bytes] assms by (simp add: word_at_def unat_from_be16)
qed

lemma same_residue:
  fixes v w :: u16
  assumes "65535 dvd n" and "65535 dvd m" and "m + unat v = n + unat w"
  shows "v = w \<or> {v, w} = {0, 0xFFFF}"
proof -
  have "unat v mod 65535 = (m + unat v) mod 65535" using assms(2) by (simp add: mod_add_left_eq [symmetric] dvd_imp_mod_0)
  also have "\<dots> = unat w mod 65535"
    unfolding assms(3) using assms(1) by (simp add: mod_add_left_eq [symmetric] dvd_imp_mod_0)
  finally have eq: "unat v mod 65535 = unat w mod 65535" .
  have b: "unat v \<le> 65535" "unat w \<le> 65535" using unat_bound [of v] unat_bound [of w] by simp_all
  have top: "x = 0xFFFF \<longleftrightarrow> unat x = 65535" "x = 0 \<longleftrightarrow> unat x = 0" for x :: u16
    by (simp_all add: word_unat_eq_iff)
  have "unat v = unat w \<or> (unat v = 0 \<and> unat w = 65535) \<or> (unat v = 65535 \<and> unat w = 0)"
    using eq b by (cases "unat v = 65535"; cases "unat w = 65535") auto
  then show ?thesis using top by (auto simp: word_unat_eq_iff)
qed

lemma checksum_detects:
  assumes "finish_sum (add_words 0 bytes) = 0" and "2 * k + 1 < length bytes"
    and "w \<noteq> word_at k bytes" and "{w, word_at k bytes} \<noteq> {0, 0xFFFF}"
  shows "finish_sum (add_words 0 (replace_word k w bytes)) \<noteq> 0"
proof
  assume "finish_sum (add_words 0 (replace_word k w bytes)) = 0"
  then have "65535 dvd word_sum (replace_word k w bytes)" and "65535 dvd word_sum bytes"
    using assms(1) by (simp_all add: checksum_zero)
  then have "word_at k bytes = w \<or> {word_at k bytes, w} = {0, 0xFFFF}"
    using replaced_sum [OF assms(2), of w] by (intro same_residue)
  then show False using assms(3,4) by (simp add: insert_commute)
qed

section \<open>The contract of a packet codec\<close>

text \<open>
  A codec decodes what it encoded, with any bytes behind it. Encodings are then prefix free: bytes on the
  wire begin with the encoding of at most one packet.
\<close>

locale codec =
  fixes wf :: "'a \<Rightarrow> bool" and encoded :: "'a \<Rightarrow> u8 list" and decode :: "u8 list \<Rightarrow> ('e, 'a) result"
  assumes decode_encoded: "wf x \<Longrightarrow> decode (encoded x @ tail) = Ok x"
begin

lemma prefix_free:
  assumes "wf x" and "wf y" and "encoded x @ tail = encoded y @ tail'"
  shows "x = y"
proof -
  have "Ok x = decode (encoded x @ tail)" using assms(1) by (simp add: decode_encoded)
  also have "\<dots> = Ok y" using assms(2) unfolding assms(3) by (rule decode_encoded)
  finally show ?thesis by simp
qed

end

end
