(* ===== verification/Net_Frames.thy ===== *)
theory Net_Frames
  imports Net_Bytes
begin

text \<open>
  The packet codecs of \<open>user/probes\<close>: Ethernet frames (\<open>link-layer/src/ethernet.rs\<close>), ARP
  (\<open>arp/src/arp.rs\<close>), IPv4 headers (\<open>ipv4/src/ipv4.rs\<close>), ICMP echo messages (\<open>icmp/src/icmp.rs\<close>) and UDP
  datagrams (\<open>udp/src/udp.rs\<close>). A buffer that is written through \<open>&mut [u8]\<close> is returned with the
  result; every error is found before the first write, so that a failed encoding leaves it as it was.
\<close>

section \<open>Ethernet\<close>

definition ETHERNET_HEADER_BYTES :: usize where "ETHERNET_HEADER_BYTES = 14"
definition MIN_FRAME_BYTES :: usize where "MIN_FRAME_BYTES = 60"
definition MAX_FRAME_BYTES :: usize where "MAX_FRAME_BYTES = 1514"

record EthernetFrame =
  ef_destination :: "u8 list"
  ef_source :: "u8 list"
  ef_ether_type :: u16
  ef_payload :: "u8 list"

datatype EthernetError = EthTooShort | EthTooLong | EthPayloadTooLong

definition parse_frame :: "u8 list \<Rightarrow> (EthernetError, EthernetFrame) result" where
  "parse_frame frame =
     bindR (ensure (\<not> length frame < MIN_FRAME_BYTES) EthTooShort) (\<lambda>_.
     bindR (ensure (\<not> MAX_FRAME_BYTES < length frame) EthTooLong) (\<lambda>_.
     bindR (slice_at frame 0 6) (\<lambda>destination.
     bindR (slice_at frame 6 12) (\<lambda>source.
     bindR (u16_at frame 12) (\<lambda>ether_type.
     bindR (slice_at frame ETHERNET_HEADER_BYTES (length frame)) (\<lambda>payload.
     Ok \<lparr>ef_destination = destination, ef_source = source, ef_ether_type = ether_type, ef_payload = payload\<rparr>))))))"

definition encode_minimum_frame :: "u8 list \<Rightarrow> u8 list \<Rightarrow> u16 \<Rightarrow> u8 list \<Rightarrow> (EthernetError, u8 list) result" where
  "encode_minimum_frame destination source ether_type payload =
     bindR (ensure (\<not> MIN_FRAME_BYTES - ETHERNET_HEADER_BYTES < length payload) EthPayloadTooLong) (\<lambda>_.
     bindR (copy_range 0 6 destination (replicate MIN_FRAME_BYTES 0)) (\<lambda>frame.
     bindR (copy_range 6 12 source frame) (\<lambda>frame.
     bindR (copy_range 12 14 (to_be_bytes ether_type) frame) (\<lambda>frame.
     copy_range ETHERNET_HEADER_BYTES (ETHERNET_HEADER_BYTES + length payload) payload frame))))"

section \<open>ARP\<close>

definition ARP_PAYLOAD_BYTES :: usize where "ARP_PAYLOAD_BYTES = 28"

record ArpPacket =
  ap_hardware_type :: u16
  ap_protocol_type :: u16
  ap_hardware_len :: u8
  ap_protocol_len :: u8
  ap_operation :: u16
  ap_sender_hardware :: "u8 list"
  ap_sender_protocol :: "u8 list"
  ap_target_hardware :: "u8 list"
  ap_target_protocol :: "u8 list"

datatype ArpError = ArpTooShort

definition parse_arp :: "u8 list \<Rightarrow> (ArpError, ArpPacket) result" where
  "parse_arp payload =
     bindR (ensure (\<not> length payload < ARP_PAYLOAD_BYTES) ArpTooShort) (\<lambda>_.
     bindR (slice_at payload 8 14) (\<lambda>sender_hardware.
     bindR (slice_at payload 14 18) (\<lambda>sender_protocol.
     bindR (slice_at payload 18 24) (\<lambda>target_hardware.
     bindR (slice_at payload 24 28) (\<lambda>target_protocol.
     bindR (u16_at payload 0) (\<lambda>hardware_type.
     bindR (u16_at payload 2) (\<lambda>protocol_type.
     bindR (byte_at payload 4) (\<lambda>hardware_len.
     bindR (byte_at payload 5) (\<lambda>protocol_len.
     bindR (u16_at payload 6) (\<lambda>operation.
     Ok \<lparr>ap_hardware_type = hardware_type, ap_protocol_type = protocol_type, ap_hardware_len = hardware_len,
         ap_protocol_len = protocol_len, ap_operation = operation, ap_sender_hardware = sender_hardware,
         ap_sender_protocol = sender_protocol, ap_target_hardware = target_hardware,
         ap_target_protocol = target_protocol\<rparr>))))))))))"

definition encode_arp :: "ArpPacket \<Rightarrow> (ArpError, u8 list) result" where
  "encode_arp packet =
     bindR (copy_range 0 2 (to_be_bytes (ap_hardware_type packet)) (replicate ARP_PAYLOAD_BYTES 0)) (\<lambda>payload.
     bindR (copy_range 2 4 (to_be_bytes (ap_protocol_type packet)) payload) (\<lambda>payload.
     bindR (copy_range 4 5 [ap_hardware_len packet] payload) (\<lambda>payload.
     bindR (copy_range 5 6 [ap_protocol_len packet] payload) (\<lambda>payload.
     bindR (copy_range 6 8 (to_be_bytes (ap_operation packet)) payload) (\<lambda>payload.
     bindR (copy_range 8 14 (ap_sender_hardware packet) payload) (\<lambda>payload.
     bindR (copy_range 14 18 (ap_sender_protocol packet) payload) (\<lambda>payload.
     bindR (copy_range 18 24 (ap_target_hardware packet) payload) (\<lambda>payload.
     copy_range 24 28 (ap_target_protocol packet) payload))))))))"

section \<open>IPv4\<close>

definition IPV4_HEADER_BYTES :: usize where "IPV4_HEADER_BYTES = 20"

record Ipv4Header =
  ih_version :: u8
  ih_ihl :: u8
  ih_dscp_ecn :: u8
  ih_identification :: u16
  ih_flags_fragment_offset :: u16
  ih_ttl :: u8
  ih_protocol :: u8
  ih_source :: "u8 list"
  ih_destination :: "u8 list"

record Ipv4Packet =
  ip_header :: Ipv4Header
  ip_total_length :: u16
  ip_header_checksum :: u16
  ip_payload :: "u8 list"

datatype Ipv4EncodeError = NonCanonicalHeader | PayloadTooLong | Ipv4OutputTooSmall

datatype Ipv4DecodeError =
    HeaderTooShort | UnsupportedVersion | InvalidIhl | HeaderLengthExceedsInput | TotalLengthBelowHeader
  | TotalLengthExceedsInput | Ipv4BadChecksum

definition ipv4_header_checksum :: "u8 list \<Rightarrow> u16" where
  "ipv4_header_checksum header = finish_sum (add_words 0 header)"

definition encode_ipv4_packet ::
    "Ipv4Header \<Rightarrow> u8 list \<Rightarrow> u8 list \<Rightarrow> (Ipv4EncodeError, usize \<times> u8 list) result" where
  "encode_ipv4_packet header payload output =
     bindR (ensure (\<not> (ih_version header \<noteq> 4 \<or> ih_ihl header \<noteq> 5)) NonCanonicalHeader) (\<lambda>_.
     bindR (ok_or (checked_add_usize IPV4_HEADER_BYTES (length payload)) PayloadTooLong) (\<lambda>total_length.
     bindR (ensure (total_length < 2 ^ 16) PayloadTooLong) (\<lambda>_.
     let total_length_u16 = of_nat total_length :: u16 in
     bindR (ensure (\<not> length output < total_length) Ipv4OutputTooSmall) (\<lambda>_.
     bindR (slice_at output 0 total_length) (\<lambda>datagram.
     bindR (copy_range 0 1 [0x45] datagram) (\<lambda>datagram.
     bindR (copy_range 1 2 [ih_dscp_ecn header] datagram) (\<lambda>datagram.
     bindR (copy_range 2 4 (to_be_bytes total_length_u16) datagram) (\<lambda>datagram.
     bindR (copy_range 4 6 (to_be_bytes (ih_identification header)) datagram) (\<lambda>datagram.
     bindR (copy_range 6 8 (to_be_bytes (ih_flags_fragment_offset header)) datagram) (\<lambda>datagram.
     bindR (copy_range 8 9 [ih_ttl header] datagram) (\<lambda>datagram.
     bindR (copy_range 9 10 [ih_protocol header] datagram) (\<lambda>datagram.
     bindR (copy_range 10 12 (replicate 2 0) datagram) (\<lambda>datagram.
     bindR (copy_range 12 16 (ih_source header) datagram) (\<lambda>datagram.
     bindR (copy_range 16 20 (ih_destination header) datagram) (\<lambda>datagram.
     bindR (slice_at datagram 0 IPV4_HEADER_BYTES) (\<lambda>head.
     let checksum = ipv4_header_checksum head in
     bindR (copy_range 10 12 (to_be_bytes checksum) datagram) (\<lambda>datagram.
     bindR (copy_range IPV4_HEADER_BYTES (length datagram) payload datagram) (\<lambda>datagram.
     Ok (total_length, datagram @ drop total_length output)))))))))))))))))))"

definition decode_ipv4_packet :: "u8 list \<Rightarrow> (Ipv4DecodeError, Ipv4Packet) result" where
  "decode_ipv4_packet datagram =
     bindR (ensure (\<not> length datagram < IPV4_HEADER_BYTES) HeaderTooShort) (\<lambda>_.
     bindR (byte_at datagram 0) (\<lambda>version_ihl.
     let version = drop_bit 4 version_ihl in
     bindR (ensure (\<not> version \<noteq> 4) UnsupportedVersion) (\<lambda>_.
     let ihl = version_ihl AND 0x0F in
     bindR (ensure (\<not> ihl < 5) InvalidIhl) (\<lambda>_.
     bindR (ok_or (checked_mul_usize (unat ihl) 4) HeaderLengthExceedsInput) (\<lambda>header_length.
     bindR (ensure (\<not> length datagram < header_length) HeaderLengthExceedsInput) (\<lambda>_.
     bindR (ensure (\<not> ihl \<noteq> 5) InvalidIhl) (\<lambda>_.
     bindR (u16_at datagram 2) (\<lambda>total_length.
     let total_length_usize = unat total_length in
     bindR (ensure (\<not> total_length_usize < header_length) TotalLengthBelowHeader) (\<lambda>_.
     bindR (ensure (\<not> length datagram < total_length_usize) TotalLengthExceedsInput) (\<lambda>_.
     bindR (slice_at datagram 0 header_length) (\<lambda>header.
     bindR (ensure (\<not> ipv4_header_checksum header \<noteq> 0) Ipv4BadChecksum) (\<lambda>_.
     bindR (byte_at datagram 1) (\<lambda>dscp_ecn.
     bindR (u16_at datagram 4) (\<lambda>identification.
     bindR (u16_at datagram 6) (\<lambda>flags_fragment_offset.
     bindR (byte_at datagram 8) (\<lambda>ttl.
     bindR (byte_at datagram 9) (\<lambda>protocol.
     bindR (slice_at datagram 12 16) (\<lambda>source.
     bindR (slice_at datagram 16 20) (\<lambda>destination.
     bindR (u16_at datagram 10) (\<lambda>header_checksum.
     bindR (slice_at datagram header_length total_length_usize) (\<lambda>payload.
     Ok \<lparr>ip_header = \<lparr>ih_version = version, ih_ihl = ihl, ih_dscp_ecn = dscp_ecn,
           ih_identification = identification, ih_flags_fragment_offset = flags_fragment_offset,
           ih_ttl = ttl, ih_protocol = protocol, ih_source = source, ih_destination = destination\<rparr>,
         ip_total_length = total_length, ip_header_checksum = header_checksum,
         ip_payload = payload\<rparr>)))))))))))))))))))))"

section \<open>ICMP echo\<close>

definition ICMP_HEADER_BYTES :: usize where "ICMP_HEADER_BYTES = 8"
definition ICMP_IDENTIFIER :: u16 where "ICMP_IDENTIFIER = 0x1403"
definition ICMP_SEQUENCE :: u16 where "ICMP_SEQUENCE = 1"
definition ICMP_DATA :: "u8 list" where "ICMP_DATA = [0x50, 0x59, 0x54, 0x48, 0x49, 0x43, 0x4D, 0x50]"

record IcmpEcho =
  ie_icmp_type :: u8
  ie_code :: u8
  ie_identifier :: u16
  ie_sequence :: u16
  ie_data :: "u8 list"

datatype IcmpError =
    IcmpInputTooShort | IcmpInputTooLarge | IcmpUnsupportedType | IcmpInvalidCode | IcmpInvalidIdentifier
  | IcmpInvalidSequence | IcmpInvalidData | IcmpBadChecksum | IcmpOutputTooSmall | IcmpOutputTooLarge

definition icmp_checksum :: "u8 list \<Rightarrow> u16" where
  "icmp_checksum message = finish_sum (add_words 0 message)"

definition validate_encode_profile :: "IcmpEcho \<Rightarrow> (IcmpError, unit) result" where
  "validate_encode_profile message =
     bindR (ensure (\<not> (ie_icmp_type message \<noteq> 8 \<and> ie_icmp_type message \<noteq> 0)) IcmpUnsupportedType) (\<lambda>_.
     bindR (ensure (\<not> ie_code message \<noteq> 0) IcmpInvalidCode) (\<lambda>_.
     bindR (ensure (\<not> ie_identifier message \<noteq> ICMP_IDENTIFIER) IcmpInvalidIdentifier) (\<lambda>_.
     bindR (ensure (\<not> ie_sequence message \<noteq> ICMP_SEQUENCE) IcmpInvalidSequence) (\<lambda>_.
     ensure (\<not> ie_data message \<noteq> ICMP_DATA) IcmpInvalidData))))"

definition encode_echo :: "IcmpEcho \<Rightarrow> u8 list \<Rightarrow> (IcmpError, usize \<times> u8 list) result" where
  "encode_echo message output =
     bindR (validate_encode_profile message) (\<lambda>_.
     bindR (ok_or (checked_add_usize ICMP_HEADER_BYTES (length ICMP_DATA)) IcmpOutputTooLarge) (\<lambda>message_len.
     bindR (ensure (\<not> length output < message_len) IcmpOutputTooSmall) (\<lambda>_.
     bindR (ensure (\<not> message_len < length output) IcmpOutputTooLarge) (\<lambda>_.
     bindR (ok_or (slice_get output 0 message_len) IcmpOutputTooSmall) (\<lambda>encoded.
     bindR (copy_range 0 1 [ie_icmp_type message] encoded) (\<lambda>encoded.
     bindR (copy_range 1 2 [ie_code message] encoded) (\<lambda>encoded.
     bindR (copy_range 2 4 (replicate 2 0) encoded) (\<lambda>encoded.
     bindR (copy_range 4 6 (to_be_bytes (ie_identifier message)) encoded) (\<lambda>encoded.
     bindR (copy_range 6 8 (to_be_bytes (ie_sequence message)) encoded) (\<lambda>encoded.
     bindR (copy_range ICMP_HEADER_BYTES message_len (ie_data message) encoded) (\<lambda>encoded.
     let checksum = icmp_checksum encoded in
     bindR (copy_range 2 4 (to_be_bytes checksum) encoded) (\<lambda>encoded.
     Ok (message_len, encoded @ drop message_len output)))))))))))))"

definition decode_echo :: "u8 list \<Rightarrow> (IcmpError, IcmpEcho) result" where
  "decode_echo message =
     bindR (ok_or (checked_add_usize ICMP_HEADER_BYTES (length ICMP_DATA)) IcmpInputTooLarge) (\<lambda>message_len.
     bindR (ensure (\<not> length message < message_len) IcmpInputTooShort) (\<lambda>_.
     bindR (ensure (\<not> message_len < length message) IcmpInputTooLarge) (\<lambda>_.
     bindR (byte_at message 0) (\<lambda>icmp_type.
     bindR (ensure (\<not> (icmp_type \<noteq> 8 \<and> icmp_type \<noteq> 0)) IcmpUnsupportedType) (\<lambda>_.
     bindR (byte_at message 1) (\<lambda>code.
     bindR (ensure (\<not> code \<noteq> 0) IcmpInvalidCode) (\<lambda>_.
     bindR (u16_at message 4) (\<lambda>identifier.
     bindR (ensure (\<not> identifier \<noteq> ICMP_IDENTIFIER) IcmpInvalidIdentifier) (\<lambda>_.
     bindR (u16_at message 6) (\<lambda>sequence.
     bindR (ensure (\<not> sequence \<noteq> ICMP_SEQUENCE) IcmpInvalidSequence) (\<lambda>_.
     bindR (ok_or (slice_get message ICMP_HEADER_BYTES message_len) IcmpInputTooShort) (\<lambda>data.
     bindR (ensure (\<not> data \<noteq> ICMP_DATA) IcmpInvalidData) (\<lambda>_.
     bindR (ensure (\<not> icmp_checksum message \<noteq> 0) IcmpBadChecksum) (\<lambda>_.
     Ok \<lparr>ie_icmp_type = icmp_type, ie_code = code, ie_identifier = identifier, ie_sequence = sequence,
         ie_data = data\<rparr>))))))))))))))"

section \<open>UDP\<close>

definition UDP_HEADER_BYTES :: usize where "UDP_HEADER_BYTES = 8"
definition UDP_DATAGRAM_BYTES :: usize where "UDP_DATAGRAM_BYTES = 15"
definition UDP_LENGTH :: u16 where "UDP_LENGTH = of_nat UDP_DATAGRAM_BYTES"
definition UDP_PROTOCOL :: u8 where "UDP_PROTOCOL = 17"
definition REQUEST_SOURCE_PORT :: u16 where "REQUEST_SOURCE_PORT = 0x1405"
definition REQUEST_DESTINATION_PORT :: u16 where "REQUEST_DESTINATION_PORT = 0x1406"
definition REQUEST_SOURCE_IPV4 :: "u8 list" where "REQUEST_SOURCE_IPV4 = [192, 168, 14, 2]"
definition REQUEST_DESTINATION_IPV4 :: "u8 list" where "REQUEST_DESTINATION_IPV4 = [192, 168, 14, 1]"
definition UDP_DATA :: "u8 list" where "UDP_DATA = [0x50, 0x59, 0x54, 0x48, 0x55, 0x44, 0x50]"

record UdpDatagram =
  ud_source_port :: u16
  ud_destination_port :: u16
  ud_data :: "u8 list"

datatype UdpEncodeError = UdpEncodeProfile | UdpOutputTooSmall | UdpOutputTooLarge

datatype UdpDecodeError =
    UdpInputTooShort | UdpInputTooLarge | UdpInvalidLength | UdpZeroChecksum | UdpBadChecksum | UdpDecodeProfile

text \<open>The addresses are arrays of four bytes, so that the first four words are those of the two lists.\<close>

definition udp_checksum :: "u8 list \<Rightarrow> u8 list \<Rightarrow> u8 list \<Rightarrow> u16" where
  "udp_checksum source_ipv4 destination_ipv4 datagram =
     (let acc = add_words 0 source_ipv4;
          acc = add_words acc destination_ipv4;
          acc = add_word acc (ucast UDP_PROTOCOL);
          acc = add_word acc (ucast (if length datagram < 2 ^ 16 then of_nat (length datagram) else 0xFFFF :: u16))
      in finish_sum (add_words acc datagram))"

definition validate_udp_profile :: "UdpDatagram \<Rightarrow> u8 list \<Rightarrow> u8 list \<Rightarrow> (unit, unit) result" where
  "validate_udp_profile datagram source_ipv4 destination_ipv4 =
     (let is_request = (ud_source_port datagram = REQUEST_SOURCE_PORT
            \<and> ud_destination_port datagram = REQUEST_DESTINATION_PORT
            \<and> source_ipv4 = REQUEST_SOURCE_IPV4 \<and> destination_ipv4 = REQUEST_DESTINATION_IPV4);
          is_reply = (ud_source_port datagram = REQUEST_DESTINATION_PORT
            \<and> ud_destination_port datagram = REQUEST_SOURCE_PORT
            \<and> source_ipv4 = REQUEST_DESTINATION_IPV4 \<and> destination_ipv4 = REQUEST_SOURCE_IPV4)
      in if (is_request \<or> is_reply) \<and> ud_data datagram = UDP_DATA then Ok () else Err ())"

definition encode_datagram ::
    "UdpDatagram \<Rightarrow> u8 list \<Rightarrow> u8 list \<Rightarrow> u8 list \<Rightarrow> (UdpEncodeError, usize \<times> u8 list) result" where
  "encode_datagram datagram source_ipv4 destination_ipv4 output =
     bindR (map_errR (\<lambda>_. UdpEncodeProfile) (validate_udp_profile datagram source_ipv4 destination_ipv4)) (\<lambda>_.
     bindR (ensure (\<not> length output < UDP_DATAGRAM_BYTES) UdpOutputTooSmall) (\<lambda>_.
     bindR (ensure (\<not> UDP_DATAGRAM_BYTES < length output) UdpOutputTooLarge) (\<lambda>_.
     bindR (copy_range 0 2 (to_be_bytes (ud_source_port datagram)) output) (\<lambda>output.
     bindR (copy_range 2 4 (to_be_bytes (ud_destination_port datagram)) output) (\<lambda>output.
     bindR (copy_range 4 6 (to_be_bytes UDP_LENGTH) output) (\<lambda>output.
     bindR (copy_range 6 8 (replicate 2 0) output) (\<lambda>output.
     bindR (copy_range UDP_HEADER_BYTES (length output) (ud_data datagram) output) (\<lambda>output.
     let checksum = udp_checksum source_ipv4 destination_ipv4 output in
     bindR (copy_range 6 8 (to_be_bytes checksum) output) (\<lambda>output.
     Ok (UDP_DATAGRAM_BYTES, output))))))))))"

definition decode_datagram :: "u8 list \<Rightarrow> u8 list \<Rightarrow> u8 list \<Rightarrow> (UdpDecodeError, UdpDatagram) result" where
  "decode_datagram bytes source_ipv4 destination_ipv4 =
     bindR (ensure (\<not> length bytes < UDP_DATAGRAM_BYTES) UdpInputTooShort) (\<lambda>_.
     bindR (ensure (\<not> UDP_DATAGRAM_BYTES < length bytes) UdpInputTooLarge) (\<lambda>_.
     bindR (u16_at bytes 4) (\<lambda>len.
     bindR (ensure (\<not> len \<noteq> UDP_LENGTH) UdpInvalidLength) (\<lambda>_.
     bindR (u16_at bytes 6) (\<lambda>checksum.
     bindR (ensure (\<not> checksum = 0) UdpZeroChecksum) (\<lambda>_.
     bindR (ensure (\<not> udp_checksum source_ipv4 destination_ipv4 bytes \<noteq> 0) UdpBadChecksum) (\<lambda>_.
     bindR (u16_at bytes 0) (\<lambda>source_port.
     bindR (u16_at bytes 2) (\<lambda>destination_port.
     bindR (ok_or (slice_get bytes UDP_HEADER_BYTES UDP_DATAGRAM_BYTES) UdpInputTooShort) (\<lambda>data.
     let datagram = \<lparr>ud_source_port = source_port, ud_destination_port = destination_port, ud_data = data\<rparr> in
     bindR (map_errR (\<lambda>_. UdpDecodeProfile) (validate_udp_profile datagram source_ipv4 destination_ipv4)) (\<lambda>_.
     Ok datagram)))))))))))"

section \<open>Flat encodings\<close>

definition ipv4_header_bytes :: "Ipv4Header \<Rightarrow> u16 \<Rightarrow> u16 \<Rightarrow> u8 list" where
  "ipv4_header_bytes header total_length checksum =
     [0x45, ih_dscp_ecn header] @ to_be_bytes total_length @ to_be_bytes (ih_identification header)
     @ to_be_bytes (ih_flags_fragment_offset header) @ [ih_ttl header, ih_protocol header] @ to_be_bytes checksum
     @ ih_source header @ ih_destination header"

definition wf_ipv4_header :: "Ipv4Header \<Rightarrow> bool" where
  "wf_ipv4_header header \<longleftrightarrow> ih_version header = 4 \<and> ih_ihl header = 5 \<and>
     length (ih_source header) = 4 \<and> length (ih_destination header) = 4"

lemma encode_ipv4_flat:
  assumes "wf_ipv4_header header" and "20 + length payload < 65536" and "20 + length payload \<le> length output"
  shows "encode_ipv4_packet header payload output =
    (let total = 20 + length payload; t = of_nat total in
     Ok (total, ipv4_header_bytes header t (ipv4_header_checksum (ipv4_header_bytes header t 0)) @ payload @ drop total output))"
proof -
  define t where "t = (of_nat (20 + length payload) :: u16)"
  let ?c = "ipv4_header_checksum (ipv4_header_bytes header t 0)"
  have len: "20 \<le> length (take (20 + length payload) output)" using assms(3) by simp
  obtain z0 z1 z2 z3 z4 z5 z6 z7 z8 z9 z10 z11 z12 z13 z14 z15 z16 z17 z18 z19 where
    z: "take (20 + length payload) output = [z0, z1, z2, z3, z4, z5, z6, z7, z8, z9, z10, z11, z12, z13, z14, z15,
      z16, z17, z18, z19] @ drop 20 (take (20 + length payload) output)"
    by (rule explicit_20 [OF len])
  define rest where "rest = drop 20 (take (20 + length payload) output)"
  have rest: "length rest = length payload" using assms(3) by (simp add: rest_def)
  note z = z [folded rest_def]
  obtain s0 s1 s2 s3 where s: "ih_source header = [s0, s1, s2, s3]"
    using assms(1) length_4 [of "ih_source header"] by (auto simp: wf_ipv4_header_def)
  obtain d0 d1 d2 d3 where d: "ih_destination header = [d0, d1, d2, d3]"
    using assms(1) length_4 [of "ih_destination header"] by (auto simp: wf_ipv4_header_def)
  obtain t0 t1 where tb: "to_be_bytes t = [t0, t1]" by (rule to_be16)
  obtain i0 i1 where i: "to_be_bytes (ih_identification header) = [i0, i1]" by (rule to_be16)
  obtain f0 f1 where f: "to_be_bytes (ih_flags_fragment_offset header) = [f0, f1]" by (rule to_be16)
  obtain c0 c1 where c: "to_be_bytes ?c = [c0, c1]" by (rule to_be16)
  have zero: "to_be_bytes (0 :: u16) = [0, 0]" by (simp add: to_be_bytes_def to_le_bytes_def numeral_2_eq_2)
  have t: "20 + word_of_nat (length payload) = t" by (simp add: t_def)
  have two: "replicate 2 (0 :: u8) = [0, 0]" by (simp add: numeral_2_eq_2)
  have "20 + length payload \<le> USIZE_MAX" using assms(2) by (simp add: USIZE_MAX_def)
  then show ?thesis
    using assms rest c
    by (simp add: encode_ipv4_packet_def wf_ipv4_header_def IPV4_HEADER_BYTES_def slice_at_def slice_get_def
        checked_add_usize_def z copy_range_def s d tb i f zero two ipv4_header_bytes_def Let_def t)
qed


text \<open>The decoder as one equation: the order of its checks, no abort, and what it reads.\<close>

definition ipv4_fields :: "u8 list \<Rightarrow> Ipv4Packet" where
  "ipv4_fields d = \<lparr>ip_header = \<lparr>ih_version = drop_bit 4 (d ! 0), ih_ihl = d ! 0 AND 0x0F, ih_dscp_ecn = d ! 1,
       ih_identification = from_be_bytes [d ! 4, d ! 5], ih_flags_fragment_offset = from_be_bytes [d ! 6, d ! 7],
       ih_ttl = d ! 8, ih_protocol = d ! 9, ih_source = take 4 (drop 12 d), ih_destination = take 4 (drop 16 d)\<rparr>,
     ip_total_length = from_be_bytes [d ! 2, d ! 3], ip_header_checksum = from_be_bytes [d ! 10, d ! 11],
     ip_payload = take (unat (from_be_bytes [d ! 2, d ! 3] :: u16) - 20) (drop 20 d)\<rparr>"

lemma decode_ipv4_eq:
  "decode_ipv4_packet d =
    (if length d < 20 then Err HeaderTooShort
     else if drop_bit 4 (d ! 0) \<noteq> 4 then Err UnsupportedVersion
     else if d ! 0 AND 0x0F < 5 then Err InvalidIhl
     else if length d < unat (d ! 0 AND 0x0F) * 4 then Err HeaderLengthExceedsInput
     else if d ! 0 AND 0x0F \<noteq> 5 then Err InvalidIhl
     else if unat (from_be_bytes [d ! 2, d ! 3] :: u16) < 20 then Err TotalLengthBelowHeader
     else if length d < unat (from_be_bytes [d ! 2, d ! 3] :: u16) then Err TotalLengthExceedsInput
     else if ipv4_header_checksum (take 20 d) \<noteq> 0 then Err Ipv4BadChecksum
     else Ok (ipv4_fields d))"
proof (cases "length d < 20")
  case True
  then show ?thesis by (simp add: decode_ipv4_packet_def IPV4_HEADER_BYTES_def ensure_def)
next
  case False
  have usize: "unat (d ! 0 AND 0x0F) * 4 \<le> USIZE_MAX"
  proof -
    have "unat (d ! 0 AND 0x0F) < 256" using unat_bound [of "d ! 0 AND 0x0F"] by simp
    then show ?thesis by (simp add: USIZE_MAX_def)
  qed
  have reads: "byte_at d i = Ok (d ! i)" if "i < 20" for i using that False by (simp add: byte_at_def)
  have words: "u16_at d i = Ok (from_be_bytes [d ! i, d ! (i + 1)])" if "i + 1 < 20" for i
    using that False by (intro u16_at_Ok) simp
  show ?thesis
    using False usize
    by (simp add: decode_ipv4_packet_def IPV4_HEADER_BYTES_def reads words checked_mul_usize_def slice_at_Ok
        ipv4_fields_def Let_def ensure_def)
qed


lemma word_sum_header: "word_sum (ipv4_header_bytes header t c) = word_sum (ipv4_header_bytes header t 0) + unat c"
  by (simp add: ipv4_header_bytes_def word_sum_be16)

lemma ipv4_checksum_written:
  "ipv4_header_checksum (ipv4_header_bytes header t (ipv4_header_checksum (ipv4_header_bytes header t 0))) = 0"
proof -
  let ?b = "ipv4_header_bytes header t 0"
  let ?c = "finish_sum (add_words 0 ?b)"
  have "0 < word_sum ?b" by (simp add: ipv4_header_bytes_def word_sum_be16)
  then have "0 < word_sum (ipv4_header_bytes header t ?c) \<and> 65535 dvd word_sum (ipv4_header_bytes header t ?c)"
    using checksum_completes [of ?b] unfolding word_sum_header [of header t ?c] by blast
  then show ?thesis unfolding ipv4_header_checksum_def checksum_zero .
qed

lemma length_ipv4_header: "wf_ipv4_header header \<Longrightarrow> length (ipv4_header_bytes header t c) = 20"
  by (simp add: ipv4_header_bytes_def wf_ipv4_header_def)

lemma decode_ipv4_flat:
  assumes wf: "wf_ipv4_header header" and len: "20 + length payload < 65536"
    and t: "t = of_nat (20 + length payload)" and c: "ipv4_header_checksum (ipv4_header_bytes header t c) = 0"
  shows "decode_ipv4_packet (ipv4_header_bytes header t c @ payload @ padding) =
    Ok \<lparr>ip_header = header, ip_total_length = t, ip_header_checksum = c, ip_payload = payload\<rparr>"
proof -
  have ut: "unat t = 20 + length payload" using len unfolding t by (simp add: unat_of_nat del: of_nat_add)
  obtain s0 s1 s2 s3 where s: "ih_source header = [s0, s1, s2, s3]"
    using wf length_4 [of "ih_source header"] by (auto simp: wf_ipv4_header_def)
  obtain d0 d1 d2 d3 where d: "ih_destination header = [d0, d1, d2, d3]"
    using wf length_4 [of "ih_destination header"] by (auto simp: wf_ipv4_header_def)
  obtain t0 t1 where tb: "to_be_bytes t = [t0, t1]" "from_be_bytes [t0, t1] = t" by (rule to_be16)
  obtain i0 i1 where i: "to_be_bytes (ih_identification header) = [i0, i1]" "from_be_bytes [i0, i1] = ih_identification header"
    by (rule to_be16)
  obtain f0 f1 where f: "to_be_bytes (ih_flags_fragment_offset header) = [f0, f1]"
    "from_be_bytes [f0, f1] = ih_flags_fragment_offset header" by (rule to_be16)
  obtain c0 c1 where cb: "to_be_bytes c = [c0, c1]" "from_be_bytes [c0, c1] = c" by (rule to_be16)
  show ?thesis
    unfolding decode_ipv4_eq ipv4_fields_def
    using c wf ut tb i f cb s d by (simp add: ipv4_header_bytes_def wf_ipv4_header_def)
qed


lemma encode_frame_flat:
  assumes "length destination = 6" and "length source = 6" and "length payload \<le> 46"
  shows "encode_minimum_frame destination source ether_type payload =
    Ok (destination @ source @ to_be_bytes ether_type @ payload @ replicate (46 - length payload) 0)"
  using assms by (simp add: encode_minimum_frame_def MIN_FRAME_BYTES_def ETHERNET_HEADER_BYTES_def copy_range_def)

lemma parse_frame_flat:
  assumes "length destination = 6" and "length source = 6" and "46 \<le> length payload" and "length payload \<le> 1500"
  shows "parse_frame (destination @ source @ to_be_bytes ether_type @ payload) =
    Ok \<lparr>ef_destination = destination, ef_source = source, ef_ether_type = ether_type, ef_payload = payload\<rparr>"
proof -
  obtain a b where "to_be_bytes ether_type = [a, b]" "from_be_bytes [a, b] = ether_type" by (rule to_be16)
  then show ?thesis
    using assms by (simp add: parse_frame_def MIN_FRAME_BYTES_def MAX_FRAME_BYTES_def ETHERNET_HEADER_BYTES_def
        slice_at_Ok u16_at_Ok nth_append)
qed

definition wf_arp :: "ArpPacket \<Rightarrow> bool" where
  "wf_arp packet \<longleftrightarrow> length (ap_sender_hardware packet) = 6 \<and> length (ap_sender_protocol packet) = 4 \<and>
     length (ap_target_hardware packet) = 6 \<and> length (ap_target_protocol packet) = 4"

definition arp_bytes :: "ArpPacket \<Rightarrow> u8 list" where
  "arp_bytes packet = to_be_bytes (ap_hardware_type packet) @ to_be_bytes (ap_protocol_type packet)
     @ [ap_hardware_len packet, ap_protocol_len packet] @ to_be_bytes (ap_operation packet) @ ap_sender_hardware packet
     @ ap_sender_protocol packet @ ap_target_hardware packet @ ap_target_protocol packet"

lemma length_arp_bytes: "wf_arp packet \<Longrightarrow> length (arp_bytes packet) = 28"
  by (simp add: arp_bytes_def wf_arp_def)

lemma encode_arp_flat: "wf_arp packet \<Longrightarrow> encode_arp packet = Ok (arp_bytes packet)"
  by (simp add: encode_arp_def arp_bytes_def wf_arp_def ARP_PAYLOAD_BYTES_def copy_range_def)

lemma parse_arp_flat:
  assumes "wf_arp packet"
  shows "parse_arp (arp_bytes packet @ padding) = Ok packet"
proof -
  obtain h0 h1 where "to_be_bytes (ap_hardware_type packet) = [h0, h1]" "from_be_bytes [h0, h1] = ap_hardware_type packet"
    by (rule to_be16)
  moreover obtain p0 p1 where "to_be_bytes (ap_protocol_type packet) = [p0, p1]" "from_be_bytes [p0, p1] = ap_protocol_type packet"
    by (rule to_be16)
  moreover obtain o0 o1 where "to_be_bytes (ap_operation packet) = [o0, o1]" "from_be_bytes [o0, o1] = ap_operation packet"
    by (rule to_be16)
  ultimately show ?thesis
    using assms by (simp add: parse_arp_def arp_bytes_def wf_arp_def ARP_PAYLOAD_BYTES_def slice_at_Ok u16_at_Ok byte_at_def)
qed

lemma take_replace_word: "k < 10 \<Longrightarrow> 20 \<le> length d \<Longrightarrow> take 20 (replace_word k w d) = replace_word k w (take 20 d)"
  by (simp add: replace_word_def min_def drop_take)

definition icmp_bytes :: "IcmpEcho \<Rightarrow> u16 \<Rightarrow> u8 list" where
  "icmp_bytes message checksum = [ie_icmp_type message, ie_code message] @ to_be_bytes checksum
     @ to_be_bytes (ie_identifier message) @ to_be_bytes (ie_sequence message) @ ie_data message"

lemma echo_profile: "validate_encode_profile message = Ok () \<longleftrightarrow> (ie_icmp_type message = 8 \<or> ie_icmp_type message = 0) \<and>
  ie_code message = 0 \<and> ie_identifier message = ICMP_IDENTIFIER \<and> ie_sequence message = ICMP_SEQUENCE \<and>
  ie_data message = ICMP_DATA"
  by (auto simp: validate_encode_profile_def)

lemma icmp_sum: "word_sum (icmp_bytes message c) = word_sum (icmp_bytes message 0) + unat c"
  by (simp add: icmp_bytes_def word_sum_be16)

lemma icmp_checksum_written:
  assumes "validate_encode_profile message = Ok ()"
  shows "icmp_checksum (icmp_bytes message (icmp_checksum (icmp_bytes message 0))) = 0"
proof -
  let ?b = "icmp_bytes message 0"
  let ?c = "finish_sum (add_words 0 ?b)"
  have "0 < word_sum ?b" using assms by (simp add: echo_profile icmp_bytes_def word_sum_be16 ICMP_DATA_def)
  then have "0 < word_sum (icmp_bytes message ?c) \<and> 65535 dvd word_sum (icmp_bytes message ?c)"
    using checksum_completes [of ?b] unfolding icmp_sum [of message ?c] by blast
  then show ?thesis unfolding icmp_checksum_def checksum_zero .
qed

lemma encode_echo_flat:
  assumes "validate_encode_profile message = Ok ()" and "length output = 16"
  shows "encode_echo message output = Ok (16, icmp_bytes message (icmp_checksum (icmp_bytes message 0)))"
proof -
  have "\<exists>a b c d. take 4 output = [a, b, c, d]" using assms(2) by (intro length_4) simp
  moreover have "\<exists>a b c d. take 4 (drop 4 output) = [a, b, c, d]" using assms(2) by (intro length_4) simp
  ultimately obtain a b c d e f g h where "take 4 output = [a, b, c, d]" "take 4 (drop 4 output) = [e, f, g, h]" by blast
  then have z: "output = [a, b, c, d, e, f, g, h] @ drop 8 output"
    using append_take_drop_id [of 4 "output"] append_take_drop_id [of 4 "drop 4 output"] by simp
  define r where "r = drop 8 output"
  have r: "length r = 8" using assms(2) by (simp add: r_def)
  note z = z [folded r_def]
  have data: "length (ie_data message) = 8" using assms(1) by (simp add: echo_profile ICMP_DATA_def)
  obtain i0 i1 where i: "to_be_bytes (ie_identifier message) = [i0, i1]" by (rule to_be16)
  obtain s0 s1 where s: "to_be_bytes (ie_sequence message) = [s0, s1]" by (rule to_be16)
  obtain c0 c1 where cs: "to_be_bytes (icmp_checksum (icmp_bytes message 0)) = [c0, c1]" by (rule to_be16)
  have two: "replicate 2 (0 :: u8) = [0, 0]" by (simp add: numeral_2_eq_2)
  have zero: "to_be_bytes (0 :: u16) = [0, 0]" by (simp add: to_be_bytes_def to_le_bytes_def numeral_2_eq_2)
  have "(16 :: nat) \<le> USIZE_MAX" by (simp add: USIZE_MAX_def)
  then show ?thesis
    using assms(1) r data cs unfolding z
    by (simp add: encode_echo_def ICMP_HEADER_BYTES_def ICMP_DATA_def checked_add_usize_def slice_get_def copy_range_def
        i s two zero icmp_bytes_def Let_def)
qed

lemma decode_echo_flat:
  assumes "validate_encode_profile message = Ok ()" and "icmp_checksum (icmp_bytes message c) = 0"
  shows "decode_echo (icmp_bytes message c) = Ok message"
proof -
  have data: "ie_data message = ICMP_DATA" using assms(1) by (simp add: echo_profile)
  obtain i0 i1 where i: "to_be_bytes (ie_identifier message) = [i0, i1]" "from_be_bytes [i0, i1] = ie_identifier message"
    by (rule to_be16)
  obtain s0 s1 where s: "to_be_bytes (ie_sequence message) = [s0, s1]" "from_be_bytes [s0, s1] = ie_sequence message"
    by (rule to_be16)
  obtain c0 c1 where cs: "to_be_bytes c = [c0, c1]" by (rule to_be16)
  have "(16 :: nat) \<le> USIZE_MAX" by (simp add: USIZE_MAX_def)
  moreover have eq: "icmp_bytes message c = [ie_icmp_type message, ie_code message, c0, c1, i0, i1, s0, s1] @ ICMP_DATA"
    by (simp add: icmp_bytes_def cs i s data)
  ultimately show ?thesis
    using assms i(2) s(2) data unfolding eq
    by (auto simp: decode_echo_def ICMP_HEADER_BYTES_def ICMP_DATA_def checked_add_usize_def slice_get_def byte_at_def
        u16_at_Ok echo_profile)
qed

section \<open>The codecs meet their contract\<close>

interpretation arp_codec: codec wf_arp arp_bytes parse_arp
  by unfold_locales (rule parse_arp_flat)

definition wf_ipv4 :: "Ipv4Header \<times> u8 list \<Rightarrow> bool" where
  "wf_ipv4 p \<longleftrightarrow> wf_ipv4_header (fst p) \<and> length (snd p) < 65516"

definition ipv4_bytes :: "Ipv4Header \<times> u8 list \<Rightarrow> u8 list" where
  "ipv4_bytes p = (let t = of_nat (20 + length (snd p)) in
     ipv4_header_bytes (fst p) t (ipv4_header_checksum (ipv4_header_bytes (fst p) t 0)) @ snd p)"

definition ipv4_contents :: "u8 list \<Rightarrow> (Ipv4DecodeError, Ipv4Header \<times> u8 list) result" where
  "ipv4_contents d = bindR (decode_ipv4_packet d) (\<lambda>p. Ok (ip_header p, ip_payload p))"

lemma decode_ipv4_bytes:
  assumes "wf_ipv4 p"
  shows "decode_ipv4_packet (ipv4_bytes p @ padding) = Ok \<lparr>ip_header = fst p, ip_total_length = of_nat (20 + length (snd p)),
    ip_header_checksum = ipv4_header_checksum (ipv4_header_bytes (fst p) (of_nat (20 + length (snd p))) 0), ip_payload = snd p\<rparr>"
  using decode_ipv4_flat [OF _ _ refl ipv4_checksum_written, of "fst p" "snd p" padding] assms
  by (simp add: wf_ipv4_def ipv4_bytes_def Let_def)

interpretation ipv4_codec: codec wf_ipv4 ipv4_bytes ipv4_contents
  by unfold_locales (simp add: ipv4_contents_def decode_ipv4_bytes)

section \<open>Properties\<close>


definition demo_header :: Ipv4Header where
  "demo_header = \<lparr>ih_version = 4, ih_ihl = 5, ih_dscp_ecn = 0, ih_identification = 0x1401, ih_flags_fragment_offset = 0,
     ih_ttl = 64, ih_protocol = 253, ih_source = [192, 168, 14, 2], ih_destination = [192, 168, 14, 1]\<rparr>"

definition demo_arp :: ArpPacket where
  "demo_arp = \<lparr>ap_hardware_type = 1, ap_protocol_type = 0x0800, ap_hardware_len = 6, ap_protocol_len = 4,
     ap_operation = 1, ap_sender_hardware = [2, 0, 0, 0, 0, 1], ap_sender_protocol = [192, 0, 2, 2],
     ap_target_hardware = replicate 6 0, ap_target_protocol = [192, 0, 2, 1]\<rparr>"

definition demo_echo :: IcmpEcho where
  "demo_echo = \<lparr>ie_icmp_type = 8, ie_code = 0, ie_identifier = ICMP_IDENTIFIER, ie_sequence = ICMP_SEQUENCE,
     ie_data = ICMP_DATA\<rparr>"


text \<open>
  C40. Corrupted headers. When a received IPv4 packet is accepted and one of the ten 16-bit words of its
  header is replaced by another value, the decoder rejects it, whatever the word holds: version, length,
  identification, addresses or the checksum itself. The only exception one's complement allows is the
  exchange of \<open>0\<close> and \<open>0xFFFF\<close>.
\<close>

theorem ipv4_corruption_detected:
  assumes "decode_ipv4_packet datagram = Ok packet" and "k < 10"
    and "w \<noteq> word_at k datagram" and "{w, word_at k datagram} \<noteq> {0, 0xFFFF}"
  shows "\<exists>e. decode_ipv4_packet (replace_word k w datagram) = Err e"
proof -
  have ok: "20 \<le> length datagram" "ipv4_header_checksum (take 20 datagram) = 0"
    using assms(1) by (simp_all add: decode_ipv4_eq split: if_splits)
  have "word_at k (take 20 datagram) = word_at k datagram" using assms(2) by (simp add: word_at_def)
  then have "ipv4_header_checksum (take 20 (replace_word k w datagram)) \<noteq> 0"
    using checksum_detects [of "take 20 datagram" k w] ok assms(2-4) 
    by (simp add: ipv4_header_checksum_def take_replace_word)
  then show ?thesis unfolding decode_ipv4_eq [of "replace_word k w datagram"] by simp
qed

definition demo_datagram :: "u8 list" where
  "demo_datagram = [0x45, 0, 0, 0x1C, 0x14, 1, 0, 0, 0x40, 0xFD, 0xC8, 0x90, 0xC0, 0xA8, 0x0E, 2, 0xC0, 0xA8, 0x0E, 1,
     80, 89, 84, 72, 73, 80, 82, 81]"

lemma demo_datagram_accepted: "decode_ipv4_packet demo_datagram = Ok (ipv4_fields demo_datagram)"
proof -
  have "ipv4_header_checksum (take 20 demo_datagram) = 0"
    unfolding ipv4_header_checksum_def checksum_zero by (simp add: demo_datagram_def)
  then show ?thesis unfolding decode_ipv4_eq by (simp add: demo_datagram_def unat_from_be16)
qed

theorem ipv4_corruption_detected_witness:
  "\<exists>e. decode_ipv4_packet (replace_word 4 0x3FFD demo_datagram) = Err e"
proof -
  have "word_at 4 demo_datagram = 0x40FD"
    by (simp add: word_at_def demo_datagram_def word_unat_eq_iff unat_from_be16)
  then show ?thesis using ipv4_corruption_detected [OF demo_datagram_accepted, of 4 "0x3FFD"] by (simp add: doubleton_eq_iff)
qed

end
