(* ===== verification/Net_Probe.thy ===== *)
theory Net_Probe
  imports Net_Frames
begin

text \<open>
  The exchange of the UDP probe, \<open>user/probes/udp/src/main.rs\<close>: the ARP and UDP frames it sends, the
  replies it accepts and its bounded polling. The system calls behind \<open>receive\<close> are a parameter. The
  lemmas show that each reply check accepts one frame only, the one the peer encodes with the codecs.
\<close>

section \<open>Frames of the exchange\<close>

definition BROADCAST_MAC :: "u8 list" where "BROADCAST_MAC = replicate 6 0xFF"
definition PEER_MAC :: "u8 list" where "PEER_MAC = [2, 0, 0, 0, 0, 2]"
definition LOCAL_IPV4 :: "u8 list" where "LOCAL_IPV4 = [192, 168, 14, 2]"
definition PEER_IPV4 :: "u8 list" where "PEER_IPV4 = [192, 168, 14, 1]"
definition ARP_ETHER_TYPE :: u16 where "ARP_ETHER_TYPE = 0x0806"
definition IPV4_ETHER_TYPE :: u16 where "IPV4_ETHER_TYPE = 0x0800"
definition UDP_SOURCE_PORT :: u16 where "UDP_SOURCE_PORT = 0x1405"
definition UDP_DESTINATION_PORT :: u16 where "UDP_DESTINATION_PORT = 0x1406"
definition IPV4_REQUEST_ID :: u16 where "IPV4_REQUEST_ID = 0x1405"
definition IPV4_REPLY_ID :: u16 where "IPV4_REPLY_ID = 0x1406"
definition IPV4_TTL :: u8 where "IPV4_TTL = 64"
definition IPV4_DATAGRAM_BYTES :: usize where "IPV4_DATAGRAM_BYTES = 20 + UDP_DATAGRAM_BYTES"
definition MAX_RECEIVE_POLL_ATTEMPTS :: usize where "MAX_RECEIVE_POLL_ATTEMPTS = 1024"

text \<open>\<open>match m { Ok(x) => f(x), Err(_) => return false }\<close>\<close>

definition or_false :: "('e, 'a) result \<Rightarrow> ('a \<Rightarrow> (unit, bool) result) \<Rightarrow> (unit, bool) result" where
  "or_false m f = (case m of Ok x \<Rightarrow> f x | Err _ \<Rightarrow> Ok False | Panic \<Rightarrow> Panic | Diverge \<Rightarrow> Diverge)"

definition arp_request_packet :: "u8 list \<Rightarrow> ArpPacket" where
  "arp_request_packet local_mac = \<lparr>ap_hardware_type = 1, ap_protocol_type = IPV4_ETHER_TYPE, ap_hardware_len = 6,
     ap_protocol_len = 4, ap_operation = 1, ap_sender_hardware = local_mac, ap_sender_protocol = LOCAL_IPV4,
     ap_target_hardware = replicate 6 0, ap_target_protocol = PEER_IPV4\<rparr>"

definition arp_request_frame :: "u8 list \<Rightarrow> (ArpError, u8 list) result" where
  "arp_request_frame local_mac =
     bindR (copy_range 0 6 BROADCAST_MAC (replicate MIN_FRAME_BYTES 0)) (\<lambda>frame.
     bindR (copy_range 6 12 local_mac frame) (\<lambda>frame.
     bindR (copy_range 12 14 (to_be_bytes ARP_ETHER_TYPE) frame) (\<lambda>frame.
     bindR (encode_arp (arp_request_packet local_mac)) (\<lambda>payload.
     copy_range 14 (14 + ARP_PAYLOAD_BYTES) payload frame))))"

definition arp_reply_packet_matches :: "ArpPacket \<Rightarrow> u8 list \<Rightarrow> bool" where
  "arp_reply_packet_matches packet local_mac \<longleftrightarrow>
     ap_hardware_type packet = 1 \<and> ap_protocol_type packet = IPV4_ETHER_TYPE \<and> ap_hardware_len packet = 6 \<and>
     ap_protocol_len packet = 4 \<and> ap_operation packet = 2 \<and> ap_sender_hardware packet = PEER_MAC \<and>
     ap_sender_protocol packet = PEER_IPV4 \<and> ap_target_hardware packet = local_mac \<and>
     ap_target_protocol packet = LOCAL_IPV4"

definition arp_reply_frame_matches :: "u8 list \<Rightarrow> u8 list \<Rightarrow> (unit, bool) result" where
  "arp_reply_frame_matches frame_bytes local_mac =
     (if length frame_bytes \<noteq> MIN_FRAME_BYTES then Ok False else
      bindR (slice_at frame_bytes 42 (length frame_bytes)) (\<lambda>padding.
      if \<not> list_all (\<lambda>byte. byte = 0) padding then Ok False else
      or_false (parse_frame frame_bytes) (\<lambda>frame.
      if ef_destination frame \<noteq> local_mac \<or> ef_source frame \<noteq> PEER_MAC \<or> ef_ether_type frame \<noteq> ARP_ETHER_TYPE
      then Ok False else
      bindR (slice_at (ef_payload frame) 0 ARP_PAYLOAD_BYTES) (\<lambda>payload.
      or_false (parse_arp payload) (\<lambda>packet.
      Ok (arp_reply_packet_matches packet local_mac))))))"

definition udp_request_frame :: "u8 list \<Rightarrow> (unit, u8 list) result" where
  "udp_request_frame local_mac =
     (let datagram = \<lparr>ud_source_port = UDP_SOURCE_PORT, ud_destination_port = UDP_DESTINATION_PORT, ud_data = UDP_DATA\<rparr>;
          header = \<lparr>ih_version = 4, ih_ihl = 5, ih_dscp_ecn = 0, ih_identification = IPV4_REQUEST_ID,
            ih_flags_fragment_offset = 0, ih_ttl = IPV4_TTL, ih_protocol = UDP_PROTOCOL, ih_source = LOCAL_IPV4,
            ih_destination = PEER_IPV4\<rparr> in
     bindR (map_errR (\<lambda>_. ()) (encode_datagram datagram LOCAL_IPV4 PEER_IPV4 (replicate UDP_DATAGRAM_BYTES 0)))
       (\<lambda>(written, udp_bytes).
     bindR (ensure (\<not> written \<noteq> UDP_DATAGRAM_BYTES) ()) (\<lambda>_.
     bindR (map_errR (\<lambda>_. ()) (encode_ipv4_packet header udp_bytes (replicate IPV4_DATAGRAM_BYTES 0)))
       (\<lambda>(written, ipv4_bytes).
     bindR (ensure (\<not> written \<noteq> IPV4_DATAGRAM_BYTES) ()) (\<lambda>_.
     map_errR (\<lambda>_. ()) (encode_minimum_frame PEER_MAC local_mac IPV4_ETHER_TYPE ipv4_bytes))))))"

definition udp_reply_frame_matches :: "u8 list \<Rightarrow> u8 list \<Rightarrow> (unit, bool) result" where
  "udp_reply_frame_matches frame_bytes local_mac =
     (if length frame_bytes \<noteq> MIN_FRAME_BYTES then Ok False else
      bindR (slice_at frame_bytes (14 + IPV4_DATAGRAM_BYTES) (length frame_bytes)) (\<lambda>padding.
      if \<not> list_all (\<lambda>byte. byte = 0) padding then Ok False else
      or_false (parse_frame frame_bytes) (\<lambda>frame.
      if ef_destination frame \<noteq> local_mac \<or> ef_source frame \<noteq> PEER_MAC \<or> ef_ether_type frame \<noteq> IPV4_ETHER_TYPE
      then Ok False else
      bindR (slice_at (ef_payload frame) 0 IPV4_DATAGRAM_BYTES) (\<lambda>datagram_bytes.
      or_false (decode_ipv4_packet datagram_bytes) (\<lambda>packet.
      if ih_version (ip_header packet) \<noteq> 4 \<or> ih_ihl (ip_header packet) \<noteq> 5 \<or> ih_dscp_ecn (ip_header packet) \<noteq> 0
        \<or> unat (ip_total_length packet) \<noteq> IPV4_DATAGRAM_BYTES \<or> ih_identification (ip_header packet) \<noteq> IPV4_REPLY_ID
        \<or> ih_flags_fragment_offset (ip_header packet) \<noteq> 0 \<or> ih_ttl (ip_header packet) \<noteq> IPV4_TTL
        \<or> ih_protocol (ip_header packet) \<noteq> UDP_PROTOCOL \<or> ih_source (ip_header packet) \<noteq> PEER_IPV4
        \<or> ih_destination (ip_header packet) \<noteq> LOCAL_IPV4 \<or> ip_header_checksum packet \<noteq> 0xC970
      then Ok False else
      or_false (decode_datagram (ip_payload packet) PEER_IPV4 LOCAL_IPV4) (\<lambda>datagram.
      Ok (ud_source_port datagram = UDP_DESTINATION_PORT \<and> ud_destination_port datagram = UDP_SOURCE_PORT
        \<and> ud_data datagram = UDP_DATA)))))))"

section \<open>Polling\<close>

text \<open>
  \<open>receive\<close> is a system call that returns a status and, when the status is OK, a frame. Its answers are
  a list here, in the order of the calls. The probe stops with \<open>error\<close>, which never returns.
\<close>

datatype ReceiveStatus = StatusOk "u8 list" | StatusEmpty | StatusOther

definition empty_receive_poll_exhausted :: "usize \<Rightarrow> bool \<times> usize" where
  "empty_receive_poll_exhausted empty_polls =
     (let empty_polls = min (empty_polls + 1) USIZE_MAX in (MAX_RECEIVE_POLL_ATTEMPTS \<le> empty_polls, empty_polls))"

function receive_matching_frame ::
    "(nat \<Rightarrow> ReceiveStatus) \<Rightarrow> (u8 list \<Rightarrow> (unit, bool) result) \<Rightarrow> nat \<Rightarrow> usize \<Rightarrow> (unit, u8 list) result" where
  "receive_matching_frame receive matches call empty_polls =
     (case receive call of
        StatusEmpty \<Rightarrow>
          (let (exhausted, empty_polls') = empty_receive_poll_exhausted empty_polls in
           if exhausted then Err () else receive_matching_frame receive matches (call + 1) empty_polls')
      | StatusOther \<Rightarrow> Err ()
      | StatusOk frame \<Rightarrow>
          if length frame \<noteq> MIN_FRAME_BYTES then Err ()
          else bindR (matches frame) (\<lambda>m. if \<not> m then Err () else Ok frame))"
  by pat_completeness auto
termination
  by (relation "measure (\<lambda>(_, _, _, empty_polls). MAX_RECEIVE_POLL_ATTEMPTS - empty_polls)")
    (auto simp: empty_receive_poll_exhausted_def MAX_RECEIVE_POLL_ATTEMPTS_def USIZE_MAX_def min_def Let_def split: if_splits)

declare receive_matching_frame.simps [simp del]

section \<open>Accepted packets are the encoded ones\<close>

lemma to_from_be16: "to_be_bytes (from_be_bytes [a, b] :: u16) = [a, b]"
proof -
  have "nat_of_le [b, a] < 2 ^ 16" using be16_bound [of a b] by simp
  then have "unat (from_le_bytes [b, a] :: u16) = nat_of_le [b, a]"
    using unat_from_be16 [of a b] by (simp add: from_be_bytes_def)
  then have "to_le_bytes (from_le_bytes [b, a] :: u16) = [b, a]"
    using le_bytes_of_nat_of_le [of "[b, a]" 2] by (simp add: to_le_bytes_def)
  then show ?thesis by (simp add: to_be_bytes_def from_be_bytes_def)
qed

lemma parse_frame_inverse:
  assumes "parse_frame f = Ok frame"
  shows "f = ef_destination frame @ ef_source frame @ to_be_bytes (ef_ether_type frame) @ ef_payload frame"
proof -
  have len: "60 \<le> length f" using assms by (simp add: parse_frame_def MIN_FRAME_BYTES_def)
  have f: "frame = \<lparr>ef_destination = take 6 f, ef_source = take 6 (drop 6 f),
      ef_ether_type = from_be_bytes [f ! 12, f ! 13], ef_payload = drop 14 f\<rparr>"
    using assms len by (simp add: parse_frame_def ETHERNET_HEADER_BYTES_def slice_at_Ok u16_at_Ok)
  have "f = take 6 f @ take 6 (drop 6 f) @ [f ! 12, f ! 13] @ drop 14 f"
  proof -
    have "drop 12 f = f ! 12 # f ! 13 # drop 14 f" using len Cons_nth_drop_Suc [of 12 f] Cons_nth_drop_Suc [of 13 f] by simp
    then show ?thesis using append_take_drop_id [of 6 f] append_take_drop_id [of 6 "drop 6 f"] by simp
  qed
  then show ?thesis unfolding f by (simp add: to_from_be16)
qed

lemma version_byte: "drop_bit 4 b = 4 \<Longrightarrow> b AND 0x0F = 5 \<Longrightarrow> b = (0x45 :: u8)"
proof -
  assume a: "drop_bit 4 b = 4" "b AND 0x0F = 5"
  have "b AND 0x0F = take_bit 4 b" by (simp add: take_bit_eq_mask mask_eq_exp_minus_1)
  then have "b mod 16 = 5" using a(2) by (simp add: take_bit_eq_mod)
  then have "unat (b mod 16) = 5" by simp
  then have "unat b mod 16 = 5" unfolding unat_mod_distrib by simp
  moreover have "unat b div 16 = 4" using arg_cong [OF a(1), of unat] by (simp add: drop_bit_eq_div unat_div_distrib)
  ultimately have "unat b = 69" using div_mult_mod_eq [of "unat b" 16] by simp
  then show ?thesis by (simp add: word_unat_eq_iff)
qed

lemma decode_ipv4_inverse:
  assumes "decode_ipv4_packet d = Ok packet"
  shows "take 20 d = ipv4_header_bytes (ip_header packet) (ip_total_length packet) (ip_header_checksum packet)"
    and "ip_payload packet = take (unat (ip_total_length packet) - 20) (drop 20 d)"
proof -
  have p: "packet = ipv4_fields d" and len: "20 \<le> length d" and v: "drop_bit 4 (d ! 0) = 4" "d ! 0 AND 0x0F = 5"
    using assms by (auto simp: decode_ipv4_eq split: if_splits)
  have b: "d ! 0 = 0x45" by (rule version_byte [OF v])
  obtain a0 a1 a2 a3 a4 a5 a6 a7 a8 a9 a10 a11 a12 a13 a14 a15 a16 a17 a18 a19 where
    e: "d = [a0, a1, a2, a3, a4, a5, a6, a7, a8, a9, a10, a11, a12, a13, a14, a15, a16, a17, a18, a19] @ drop 20 d"
    by (rule explicit_20 [OF len])
  define r where "r = drop 20 d"
  note e = e [folded r_def]
  show "take 20 d = ipv4_header_bytes (ip_header packet) (ip_total_length packet) (ip_header_checksum packet)"
    using b unfolding p e by (simp add: ipv4_fields_def ipv4_header_bytes_def to_from_be16)
  show "ip_payload packet = take (unat (ip_total_length packet) - 20) (drop 20 d)"
    unfolding p by (simp add: ipv4_fields_def)
qed

lemma parse_arp_inverse:
  assumes "parse_arp payload = Ok packet"
  shows "take 28 payload = arp_bytes packet"
proof -
  have len: "28 \<le> length payload" using assms by (simp add: parse_arp_def ARP_PAYLOAD_BYTES_def)
  then have len20: "20 \<le> length payload" by simp
  have p: "packet = \<lparr>ap_hardware_type = from_be_bytes [payload ! 0, payload ! 1],
      ap_protocol_type = from_be_bytes [payload ! 2, payload ! 3], ap_hardware_len = payload ! 4,
      ap_protocol_len = payload ! 5, ap_operation = from_be_bytes [payload ! 6, payload ! 7],
      ap_sender_hardware = take 6 (drop 8 payload), ap_sender_protocol = take 4 (drop 14 payload),
      ap_target_hardware = take 6 (drop 18 payload), ap_target_protocol = take 4 (drop 24 payload)\<rparr>"
    using assms len by (simp add: parse_arp_def slice_at_Ok u16_at_Ok byte_at_def)
  obtain a0 a1 a2 a3 a4 a5 a6 a7 a8 a9 a10 a11 a12 a13 a14 a15 a16 a17 a18 a19 where
    e: "payload = [a0, a1, a2, a3, a4, a5, a6, a7, a8, a9, a10, a11, a12, a13, a14, a15, a16, a17, a18, a19] @ drop 20 payload"
    by (rule explicit_20 [OF len20])
  define r where "r = drop 20 payload"
  note e = e [folded r_def]
  have "8 \<le> length r" using len by (simp add: r_def)
  then have "take 8 r = take 4 r @ take 4 (drop 4 r)" using take_add [of 4 4 r] by simp
  then show ?thesis unfolding p e by (simp add: arp_bytes_def to_from_be16)
qed

section \<open>The reply of the peer\<close>

lemma ucast_small: "unat w \<le> 65535 \<Longrightarrow> unat (ucast (w :: u16) :: u32) = unat w"
  by (simp add: unsigned_ucast_eq take_bit_nat_eq_self)

definition udp_pseudo_sum :: "u8 list \<Rightarrow> u8 list \<Rightarrow> u8 list \<Rightarrow> nat" where
  "udp_pseudo_sum source destination datagram = word_sum source + word_sum destination + 17 + length datagram + word_sum datagram"

lemma udp_represents:
  assumes "length datagram < 65536"
  shows "\<exists>acc. udp_checksum source destination datagram = finish_sum acc \<and>
    represents acc (udp_pseudo_sum source destination datagram)"
proof -
  let ?p = "ucast UDP_PROTOCOL :: u32" and ?l = "ucast (of_nat (length datagram) :: u16) :: u32"
  have p: "unat ?p = 17" by (simp add: UDP_PROTOCOL_def)
  have "unat (of_nat (length datagram) :: u16) = length datagram" using assms by (simp add: unat_of_nat)
  then have l: "unat ?l = length datagram" using assms by (simp add: unsigned_ucast_eq take_bit_nat_eq_self)
  have "represents (add_words (add_words 0 source) destination) (word_sum source + word_sum destination)"
    using represents_words [OF represents_words [OF represents_start]] by simp
  then have "represents (add_word (add_words (add_words 0 source) destination) ?p) (word_sum source + word_sum destination + 17)"
    using represents_add [of _ _ ?p] p by simp
  then have "represents (add_word (add_word (add_words (add_words 0 source) destination) ?p) ?l)
      (word_sum source + word_sum destination + 17 + length datagram)"
    using represents_add [of _ _ ?l] l assms by simp
  then show ?thesis
    using represents_words assms unfolding udp_checksum_def udp_pseudo_sum_def Let_def by auto
qed

lemma udp_checksum_zero:
  "length datagram < 65536 \<Longrightarrow> udp_checksum source destination datagram = 0 \<longleftrightarrow>
     65535 dvd udp_pseudo_sum source destination datagram"
  using udp_represents [of datagram source destination] finish_sum_zero
  by (auto simp: udp_pseudo_sum_def)

lemma udp_checksum_completes:
  "length datagram < 65536 \<Longrightarrow> 65535 dvd udp_pseudo_sum source destination datagram + unat (udp_checksum source destination datagram)"
  using udp_represents [of datagram source destination] finish_sum_completes by metis

lemma only_residue:
  fixes c :: u16
  assumes "65535 dvd n + unat c" and "65535 dvd n + unat v" and "v \<noteq> 0" and "v \<noteq> 0xFFFF"
  shows "c = v"
  using same_residue [of "n + unat c" "n + unat v" c v] assms by (auto simp: doubleton_eq_iff)

definition udp_reply :: UdpDatagram where
  "udp_reply = \<lparr>ud_source_port = UDP_DESTINATION_PORT, ud_destination_port = UDP_SOURCE_PORT, ud_data = UDP_DATA\<rparr>"

definition udp_reply_bytes :: "u16 \<Rightarrow> u8 list" where
  "udp_reply_bytes checksum = [0x14, 6, 0x14, 5, 0, 15] @ to_be_bytes checksum @ [0x50, 0x59, 0x54, 0x48, 0x55, 0x44, 0x50]"

lemma udp_reply_sum: "udp_pseudo_sum PEER_IPV4 LOCAL_IPV4 (udp_reply_bytes c) = 200562 + unat c"
  by (simp add: udp_pseudo_sum_def udp_reply_bytes_def word_sum_be16 PEER_IPV4_def LOCAL_IPV4_def)

lemma udp_reply_checksum: "65535 dvd udp_pseudo_sum PEER_IPV4 LOCAL_IPV4 (udp_reply_bytes c) \<longleftrightarrow> c = 0xF08A"
proof
  assume "65535 dvd udp_pseudo_sum PEER_IPV4 LOCAL_IPV4 (udp_reply_bytes c)"
  then show "c = 0xF08A" unfolding udp_reply_sum by (rule only_residue) simp_all
qed (simp add: udp_reply_sum)

lemma ports: "from_be_bytes [0x14, 6] = (0x1406 :: u16)" "from_be_bytes [0x14, 5] = (0x1405 :: u16)"
  "from_be_bytes [0, 15] = (15 :: u16)"
  by (simp_all add: word_unat_eq_iff unat_from_be16)

lemma to_be_fixed: "to_be_bytes (0x1406 :: u16) = [0x14, 6]" "to_be_bytes (0x1405 :: u16) = [0x14, 5]"
  "to_be_bytes (15 :: u16) = [0, 15]"
  using to_from_be16 ports by metis+

lemmas udp_constants = UDP_DESTINATION_PORT_def REQUEST_DESTINATION_PORT_def UDP_SOURCE_PORT_def REQUEST_SOURCE_PORT_def
  PEER_IPV4_def LOCAL_IPV4_def REQUEST_DESTINATION_IPV4_def REQUEST_SOURCE_IPV4_def

lemma udp_reply_profile:
  "validate_udp_profile datagram PEER_IPV4 LOCAL_IPV4 = (if datagram = udp_reply then Ok () else Err ())"
  by (cases datagram) (auto simp: validate_udp_profile_def udp_reply_def udp_constants)

lemma decode_udp_eq:
  assumes "length bytes = 15"
  shows "decode_datagram bytes source destination =
    (let datagram = \<lparr>ud_source_port = from_be_bytes [bytes ! 0, bytes ! 1],
         ud_destination_port = from_be_bytes [bytes ! 2, bytes ! 3], ud_data = drop 8 bytes\<rparr> in
     if from_be_bytes [bytes ! 4, bytes ! 5] \<noteq> (15 :: u16) then Err UdpInvalidLength
     else if from_be_bytes [bytes ! 6, bytes ! 7] = (0 :: u16) then Err UdpZeroChecksum
     else if \<not> 65535 dvd udp_pseudo_sum source destination bytes then Err UdpBadChecksum
     else if validate_udp_profile datagram source destination \<noteq> Ok () then Err UdpDecodeProfile else Ok datagram)"
proof -
  have "bindR (map_errR (\<lambda>_. UdpDecodeProfile) (validate_udp_profile g source destination)) (\<lambda>_. Ok g) =
      (if validate_udp_profile g source destination \<noteq> Ok () then Err UdpDecodeProfile else Ok g)" for g
    by (simp add: validate_udp_profile_def Let_def)
  then show ?thesis
    using assms udp_checksum_zero [of bytes source destination]
    by (auto simp: decode_datagram_def UDP_DATAGRAM_BYTES_def UDP_HEADER_BYTES_def UDP_LENGTH_def u16_at_Ok slice_get_def
        Let_def ensure_def)
qed

lemma first_2: "2 \<le> length zs \<Longrightarrow> zs = [zs ! 0, zs ! 1] @ drop 2 zs"
  by (cases zs; cases "tl zs") auto

lemma decode_udp_reply:
  "decode_datagram bytes PEER_IPV4 LOCAL_IPV4 = Ok datagram \<longleftrightarrow> bytes = udp_reply_bytes 0xF08A \<and> datagram = udp_reply"
proof
  assume ok: "decode_datagram bytes PEER_IPV4 LOCAL_IPV4 = Ok datagram"
  have len: "length bytes = 15" using ok by (simp add: decode_datagram_def UDP_DATAGRAM_BYTES_def)
  have d: "datagram = udp_reply" and sum: "65535 dvd udp_pseudo_sum PEER_IPV4 LOCAL_IPV4 bytes"
    and f: "\<lparr>ud_source_port = from_be_bytes [bytes ! 0, bytes ! 1], ud_destination_port = from_be_bytes [bytes ! 2, bytes ! 3],
        ud_data = drop 8 bytes\<rparr> = udp_reply" "from_be_bytes [bytes ! 4, bytes ! 5] = (15 :: u16)"
    using ok unfolding decode_udp_eq [OF len] Let_def udp_reply_profile by (auto split: if_splits)
  have w: "[bytes ! 0, bytes ! 1] = [0x14, 6]" "[bytes ! 2, bytes ! 3] = [0x14, 5]" "[bytes ! 4, bytes ! 5] = [0, 15]"
    using f to_be_fixed to_from_be16 [of "bytes ! 0" "bytes ! 1"] to_from_be16 [of "bytes ! 2" "bytes ! 3"]
      to_from_be16 [of "bytes ! 4" "bytes ! 5"] by (simp_all add: udp_reply_def udp_constants)
  have "bytes = [bytes ! 0, bytes ! 1] @ [bytes ! 2, bytes ! 3] @ [bytes ! 4, bytes ! 5] @ [bytes ! 6, bytes ! 7] @ drop 8 bytes"
    using len first_2 [of bytes] first_2 [of "drop 2 bytes"] first_2 [of "drop 4 bytes"] first_2 [of "drop 6 bytes"] by simp
  then have b: "bytes = udp_reply_bytes (from_be_bytes [bytes ! 6, bytes ! 7])"
    using f(1) unfolding w by (simp add: udp_reply_bytes_def to_from_be16 udp_reply_def UDP_DATA_def)
  moreover have "from_be_bytes [bytes ! 6, bytes ! 7] = (0xF08A :: u16)"
    using sum udp_reply_checksum [of "from_be_bytes [bytes ! 6, bytes ! 7]"] b by simp
  ultimately show "bytes = udp_reply_bytes 0xF08A \<and> datagram = udp_reply" using d by simp
next
  assume a: "bytes = udp_reply_bytes 0xF08A \<and> datagram = udp_reply"
  obtain c0 c1 where c: "to_be_bytes (0xF08A :: u16) = [c0, c1]" "from_be_bytes [c0, c1] = (0xF08A :: u16)" by (rule to_be16)
  have "length (udp_reply_bytes 0xF08A) = 15" by (simp add: udp_reply_bytes_def)
  then show "decode_datagram bytes PEER_IPV4 LOCAL_IPV4 = Ok datagram"
    using a c udp_reply_checksum [of "0xF08A"]
    by (simp add: decode_udp_eq Let_def udp_reply_profile) (simp add: udp_reply_bytes_def ports udp_reply_def udp_constants UDP_DATA_def)
qed

lemma encode_udp_reply:
  "encode_datagram udp_reply PEER_IPV4 LOCAL_IPV4 (replicate 15 0) = Ok (15, udp_reply_bytes 0xF08A)"
proof -
  let ?c = "udp_checksum PEER_IPV4 LOCAL_IPV4 (udp_reply_bytes 0)"
  obtain c0 c1 where c: "to_be_bytes ?c = [c0, c1]" by (rule to_be16)
  have zero: "to_be_bytes (0 :: u16) = [0, 0]" by (simp add: to_be_bytes_def to_le_bytes_def numeral_2_eq_2)
  have rep: "replicate 15 (0 :: u8) = [0, 0, 0, 0, 0, 0, 0, 0, 0, 0, 0, 0, 0, 0, 0]" "replicate 2 (0 :: u8) = [0, 0]"
    by (simp_all add: numeral_eq_Suc)
  have "65535 dvd udp_pseudo_sum PEER_IPV4 LOCAL_IPV4 (udp_reply_bytes ?c)"
    using udp_checksum_completes [of "udp_reply_bytes 0" PEER_IPV4 LOCAL_IPV4]
    by (simp add: udp_reply_sum) (simp add: udp_reply_bytes_def)
  then have eq: "?c = 0xF08A" by (simp add: udp_reply_checksum)
  have "validate_udp_profile udp_reply PEER_IPV4 LOCAL_IPV4 = Ok ()"
    by (simp add: validate_udp_profile_def udp_reply_def UDP_DESTINATION_PORT_def REQUEST_DESTINATION_PORT_def
        UDP_SOURCE_PORT_def REQUEST_SOURCE_PORT_def PEER_IPV4_def LOCAL_IPV4_def REQUEST_DESTINATION_IPV4_def
        REQUEST_SOURCE_IPV4_def)
  then show ?thesis
    using c eq
    by (simp add: encode_datagram_def UDP_DATAGRAM_BYTES_def UDP_HEADER_BYTES_def rep copy_range_def udp_reply_def
        UDP_DESTINATION_PORT_def UDP_SOURCE_PORT_def UDP_LENGTH_def UDP_DATA_def to_be_fixed zero udp_reply_bytes_def Let_def)
qed

definition ipv4_reply_header :: Ipv4Header where
  "ipv4_reply_header = \<lparr>ih_version = 4, ih_ihl = 5, ih_dscp_ecn = 0, ih_identification = IPV4_REPLY_ID,
     ih_flags_fragment_offset = 0, ih_ttl = IPV4_TTL, ih_protocol = UDP_PROTOCOL, ih_source = PEER_IPV4,
     ih_destination = LOCAL_IPV4\<rparr>"

definition ipv4_reply_bytes :: "u8 list" where
  "ipv4_reply_bytes = ipv4_header_bytes ipv4_reply_header 35 0xC970 @ udp_reply_bytes 0xF08A"

lemma reply_header_wf: "wf_ipv4_header ipv4_reply_header"
  by (simp add: wf_ipv4_header_def ipv4_reply_header_def PEER_IPV4_def LOCAL_IPV4_def)

lemma reply_header_sum: "word_sum (ipv4_header_bytes ipv4_reply_header 35 0) = 145037"
  by (simp add: ipv4_header_bytes_def word_sum_be16 ipv4_reply_header_def IPV4_REPLY_ID_def IPV4_TTL_def UDP_PROTOCOL_def
      PEER_IPV4_def LOCAL_IPV4_def)

lemma reply_header_checksum: "ipv4_header_checksum (ipv4_header_bytes ipv4_reply_header 35 0) = 0xC970"
proof (rule only_residue)
  show "65535 dvd word_sum (ipv4_header_bytes ipv4_reply_header 35 0) +
      unat (ipv4_header_checksum (ipv4_header_bytes ipv4_reply_header 35 0))"
    unfolding ipv4_header_checksum_def by (rule checksum_completes)
qed (simp_all add: reply_header_sum)

lemma length_udp_reply_bytes [simp]: "length (udp_reply_bytes c) = 15"
  by (simp add: udp_reply_bytes_def)

lemma length_ipv4_reply_bytes [simp]: "length ipv4_reply_bytes = 35"
  by (simp add: ipv4_reply_bytes_def length_ipv4_header reply_header_wf)

lemma encode_ipv4_reply: "encode_ipv4_packet ipv4_reply_header (udp_reply_bytes 0xF08A) (replicate 35 0) = Ok (35, ipv4_reply_bytes)"
  using encode_ipv4_flat [OF reply_header_wf, of "udp_reply_bytes 0xF08A" "replicate 35 0"]
  by (simp add: Let_def reply_header_checksum ipv4_reply_bytes_def)

lemma decode_ipv4_reply: "decode_ipv4_packet ipv4_reply_bytes =
  Ok \<lparr>ip_header = ipv4_reply_header, ip_total_length = 35, ip_header_checksum = 0xC970, ip_payload = udp_reply_bytes 0xF08A\<rparr>"
proof -
  have "ipv4_header_checksum (ipv4_header_bytes ipv4_reply_header 35 0xC970) = 0"
    using ipv4_checksum_written [of ipv4_reply_header 35] by (simp add: reply_header_checksum)
  then show ?thesis
    using decode_ipv4_flat [OF reply_header_wf, of "udp_reply_bytes 0xF08A" 35 "0xC970" "[]"] by (simp add: ipv4_reply_bytes_def)
qed

definition udp_reply_frame :: "u8 list \<Rightarrow> u8 list" where
  "udp_reply_frame local_mac = local_mac @ PEER_MAC @ to_be_bytes IPV4_ETHER_TYPE @ ipv4_reply_bytes @ replicate 11 0"

lemma or_false_True: "or_false m f = Ok True \<longleftrightarrow> (\<exists>x. m = Ok x \<and> f x = Ok True)"
  by (cases m) (auto simp: or_false_def)

definition decided :: "(unit, bool) result \<Rightarrow> bool" where
  "decided r \<longleftrightarrow> r = Ok True \<or> r = Ok False"

lemma decidedI:
  "decided (Ok b)"
  "(\<not> c \<Longrightarrow> decided r) \<Longrightarrow> decided (if c then Ok False else r)"
  "settled m \<Longrightarrow> (\<And>x. m = Ok x \<Longrightarrow> decided (f x)) \<Longrightarrow> decided (or_false m f)"
  "j \<le> length bytes \<Longrightarrow> i \<le> j \<Longrightarrow> (\<And>y. decided (g y)) \<Longrightarrow> decided (bindR (slice_at bytes i j) g)"
  by (auto simp: decided_def or_false_def slice_at_Ok settled_def split: result.splits)

lemma zeros: "list_all (\<lambda>byte. byte = 0) xs \<longleftrightarrow> xs = replicate (length xs) 0"
  by (induction xs) auto

lemma udp_reply_only:
  assumes ok: "udp_reply_frame_matches f local_mac = Ok True"
  shows "f = udp_reply_frame local_mac"
proof -
  have len: "length f = 60" using ok by (auto simp: udp_reply_frame_matches_def MIN_FRAME_BYTES_def split: if_splits)
  then have pad: "drop 49 f = replicate 11 0"
    using ok zeros [of "drop 49 f"]
    by (auto simp: udp_reply_frame_matches_def slice_at_Ok MIN_FRAME_BYTES_def IPV4_DATAGRAM_BYTES_def UDP_DATAGRAM_BYTES_def
        split: if_splits)
  obtain frame packet datagram where fr: "parse_frame f = Ok frame"
    and eth: "ef_destination frame = local_mac" "ef_source frame = PEER_MAC" "ef_ether_type frame = IPV4_ETHER_TYPE"
    and ip: "slice_at (ef_payload frame) 0 35 = (Ok datagram :: (unit, u8 list) result)" "decode_ipv4_packet datagram = Ok packet"
    and hd: "ip_header packet = ipv4_reply_header" "unat (ip_total_length packet) = 35" "ip_header_checksum packet = 0xC970"
    and ud: "decode_datagram (ip_payload packet) PEER_IPV4 LOCAL_IPV4 = Ok udp_reply"
    using ok len
    by (auto simp: udp_reply_frame_matches_def or_false_True slice_at_Ok MIN_FRAME_BYTES_def IPV4_DATAGRAM_BYTES_def
        UDP_DATAGRAM_BYTES_def ipv4_reply_header_def decode_udp_reply split: if_splits)
  let ?p = "ef_payload frame"
  have f: "f = local_mac @ PEER_MAC @ to_be_bytes IPV4_ETHER_TYPE @ ?p" using parse_frame_inverse [OF fr] eth by simp
  have lp: "length local_mac = 6" "length ?p = 46" 
    using fr eth len by (auto simp: parse_frame_def slice_at_Ok u16_at_Ok ETHERNET_HEADER_BYTES_def MIN_FRAME_BYTES_def
        MAX_FRAME_BYTES_def)
  have dg: "datagram = take 35 ?p" using ip(1) lp by (simp add: slice_at_Ok)
  have t: "ip_total_length packet = 35" using hd(2) by (simp add: word_unat_eq_iff)
  have "take 20 datagram = ipv4_header_bytes ipv4_reply_header 35 0xC970" using decode_ipv4_inverse(1) [OF ip(2)] hd t by simp
  moreover have "take 15 (drop 20 datagram) = udp_reply_bytes 0xF08A"
    using decode_ipv4_inverse(2) [OF ip(2)] hd(2) ud by (simp add: decode_udp_reply)
  moreover have "datagram = take 20 datagram @ take 15 (drop 20 datagram)"
    using dg lp append_take_drop_id [of 20 datagram] by simp
  ultimately have "take 35 ?p = ipv4_reply_bytes" using dg by (simp add: ipv4_reply_bytes_def)
  moreover have "drop 35 ?p = replicate 11 0" using pad lp by (subst (asm) f) (simp add: PEER_MAC_def)
  ultimately have "?p = ipv4_reply_bytes @ replicate 11 0" using append_take_drop_id [of 35 ?p] by simp
  then show ?thesis using f by (simp add: udp_reply_frame_def)
qed

lemma settled_parse_frame: "settled (parse_frame f)"
  by (cases "length f < 60"; cases "1514 < length f")
    (simp_all add: parse_frame_def MIN_FRAME_BYTES_def MAX_FRAME_BYTES_def ETHERNET_HEADER_BYTES_def slice_at_Ok u16_at_Ok
      ensure_def)

lemma settled_decode_ipv4: "settled (decode_ipv4_packet d)"
  unfolding decode_ipv4_eq by simp

lemma settled_decode_datagram: "settled (decode_datagram bytes source destination)"
proof (cases "length bytes = 15")
  case True
  then show ?thesis unfolding decode_udp_eq [OF True] Let_def by simp
next
  case False
  then show ?thesis by (auto simp: decode_datagram_def UDP_DATAGRAM_BYTES_def ensure_def)
qed

lemma parse_frame_payload: "parse_frame f = Ok frame \<Longrightarrow> length f = 60 \<Longrightarrow> length (ef_payload frame) = 46"
  by (auto simp: parse_frame_def slice_at_Ok u16_at_Ok ETHERNET_HEADER_BYTES_def MIN_FRAME_BYTES_def MAX_FRAME_BYTES_def)

lemma udp_reply_decided: "decided (udp_reply_frame_matches f local_mac)"
  unfolding udp_reply_frame_matches_def IPV4_DATAGRAM_BYTES_def UDP_DATAGRAM_BYTES_def MIN_FRAME_BYTES_def
  by (intro decidedI settled_parse_frame settled_decode_ipv4 settled_decode_datagram) (simp_all add: parse_frame_payload)

lemma udp_reply_accepted:
  assumes "length local_mac = 6"
  shows "udp_reply_frame_matches (udp_reply_frame local_mac) local_mac = Ok True"
proof -
  have len: "length (udp_reply_frame local_mac) = 60" using assms by (simp add: udp_reply_frame_def PEER_MAC_def)
  have fr: "parse_frame (udp_reply_frame local_mac) = Ok \<lparr>ef_destination = local_mac, ef_source = PEER_MAC,
      ef_ether_type = IPV4_ETHER_TYPE, ef_payload = ipv4_reply_bytes @ replicate 11 0\<rparr>"
    unfolding udp_reply_frame_def using assms by (intro parse_frame_flat) (simp_all add: PEER_MAC_def)
  have pad: "drop 49 (udp_reply_frame local_mac) = replicate 11 0" using assms by (simp add: udp_reply_frame_def PEER_MAC_def)
  have ud: "decode_datagram (udp_reply_bytes 0xF08A) PEER_IPV4 LOCAL_IPV4 = Ok udp_reply" by (simp add: decode_udp_reply)
  have "udp_reply_frame_matches (udp_reply_frame local_mac) local_mac = 
    Ok (ud_source_port udp_reply = UDP_DESTINATION_PORT \<and> ud_destination_port udp_reply = UDP_SOURCE_PORT \<and> ud_data udp_reply = UDP_DATA)"
    using len
    by (simp add: udp_reply_frame_matches_def MIN_FRAME_BYTES_def IPV4_DATAGRAM_BYTES_def UDP_DATAGRAM_BYTES_def slice_at_Ok
        pad fr or_false_def decode_ipv4_reply ud list_all_iff) (simp add: ipv4_reply_header_def)
  then show ?thesis by (simp add: udp_reply_def)
qed

lemma udp_reply_exact: "length local_mac = 6 \<Longrightarrow> udp_reply_frame_matches f local_mac = Ok (f = udp_reply_frame local_mac)"
  using udp_reply_only udp_reply_accepted udp_reply_decided [of f local_mac] by (auto simp: decided_def)

definition arp_reply_packet :: "u8 list \<Rightarrow> ArpPacket" where
  "arp_reply_packet local_mac = \<lparr>ap_hardware_type = 1, ap_protocol_type = IPV4_ETHER_TYPE, ap_hardware_len = 6,
     ap_protocol_len = 4, ap_operation = 2, ap_sender_hardware = PEER_MAC, ap_sender_protocol = PEER_IPV4,
     ap_target_hardware = local_mac, ap_target_protocol = LOCAL_IPV4\<rparr>"

definition arp_reply_frame :: "u8 list \<Rightarrow> u8 list" where
  "arp_reply_frame local_mac =
     local_mac @ PEER_MAC @ to_be_bytes ARP_ETHER_TYPE @ arp_bytes (arp_reply_packet local_mac) @ replicate 18 0"

lemma arp_reply_packet_matches_eq: "arp_reply_packet_matches packet local_mac \<longleftrightarrow> packet = arp_reply_packet local_mac"
  by (cases packet) (auto simp: arp_reply_packet_matches_def arp_reply_packet_def)

lemma arp_reply_wf: "length local_mac = 6 \<Longrightarrow> wf_arp (arp_reply_packet local_mac)"
  by (simp add: wf_arp_def arp_reply_packet_def PEER_MAC_def PEER_IPV4_def LOCAL_IPV4_def)

lemma settled_parse_arp: "settled (parse_arp p)"
  by (cases "length p < 28") (simp_all add: parse_arp_def ARP_PAYLOAD_BYTES_def slice_at_Ok u16_at_Ok byte_at_def ensure_def)

lemma arp_reply_decided: "decided (arp_reply_frame_matches f local_mac)"
  unfolding arp_reply_frame_matches_def ARP_PAYLOAD_BYTES_def MIN_FRAME_BYTES_def
  by (intro decidedI settled_parse_frame settled_parse_arp) (simp_all add: parse_frame_payload)

lemma arp_reply_only:
  assumes ok: "arp_reply_frame_matches f local_mac = Ok True"
  shows "f = arp_reply_frame local_mac"
proof -
  have len: "length f = 60" using ok by (auto simp: arp_reply_frame_matches_def MIN_FRAME_BYTES_def split: if_splits)
  then have pad: "drop 42 f = replicate 18 0"
    using ok zeros [of "drop 42 f"]
    by (auto simp: arp_reply_frame_matches_def slice_at_Ok MIN_FRAME_BYTES_def split: if_splits)
  obtain frame payload where fr: "parse_frame f = Ok frame"
    and eth: "ef_destination frame = local_mac" "ef_source frame = PEER_MAC" "ef_ether_type frame = ARP_ETHER_TYPE"
    and arp: "slice_at (ef_payload frame) 0 28 = (Ok payload :: (unit, u8 list) result)"
      "parse_arp payload = Ok (arp_reply_packet local_mac)"
    using ok len
    by (auto simp: arp_reply_frame_matches_def or_false_True slice_at_Ok MIN_FRAME_BYTES_def ARP_PAYLOAD_BYTES_def
        arp_reply_packet_matches_eq split: if_splits)
  let ?p = "ef_payload frame"
  have f: "f = local_mac @ PEER_MAC @ to_be_bytes ARP_ETHER_TYPE @ ?p" using parse_frame_inverse [OF fr] eth by simp
  have lp: "length ?p = 46" by (rule parse_frame_payload [OF fr len])
  then have "length local_mac = 6" using arg_cong [OF f, of length] len by (simp add: PEER_MAC_def)
  then have "drop 28 ?p = replicate 18 0" using pad by (subst (asm) f) (simp add: PEER_MAC_def)
  moreover have "take 28 ?p = arp_bytes (arp_reply_packet local_mac)"
  proof -
    have "payload = take 28 ?p" using arp(1) lp by (simp add: slice_at_Ok)
    then show ?thesis using parse_arp_inverse [OF arp(2)] by simp
  qed
  ultimately have "?p = arp_bytes (arp_reply_packet local_mac) @ replicate 18 0" using append_take_drop_id [of 28 ?p] by simp
  then show ?thesis using f by (simp add: arp_reply_frame_def)
qed

lemma arp_reply_accepted:
  assumes "length local_mac = 6"
  shows "arp_reply_frame_matches (arp_reply_frame local_mac) local_mac = Ok True"
proof -
  let ?a = "arp_bytes (arp_reply_packet local_mac)"
  have la: "length ?a = 28" by (rule length_arp_bytes [OF arp_reply_wf [OF assms]])
  have len: "length (arp_reply_frame local_mac) = 60" using assms la by (simp add: arp_reply_frame_def PEER_MAC_def)
  have fr: "parse_frame (arp_reply_frame local_mac) = Ok \<lparr>ef_destination = local_mac, ef_source = PEER_MAC,
      ef_ether_type = ARP_ETHER_TYPE, ef_payload = ?a @ replicate 18 0\<rparr>"
    unfolding arp_reply_frame_def using assms la by (intro parse_frame_flat) (simp_all add: PEER_MAC_def)
  have pad: "drop 42 (arp_reply_frame local_mac) = replicate 18 0"
    using assms la by (simp add: arp_reply_frame_def PEER_MAC_def)
  have "parse_arp ?a = Ok (arp_reply_packet local_mac)" using parse_arp_flat [OF arp_reply_wf [OF assms], of "[]"] by simp
  then show ?thesis
    using len la by (simp add: arp_reply_frame_matches_def MIN_FRAME_BYTES_def slice_at_Ok pad fr or_false_def list_all_iff
        ARP_PAYLOAD_BYTES_def arp_reply_packet_matches_eq)
qed

lemma arp_reply_exact: "length local_mac = 6 \<Longrightarrow> arp_reply_frame_matches f local_mac = Ok (f = arp_reply_frame local_mac)"
  using arp_reply_only arp_reply_accepted arp_reply_decided [of f local_mac] by (auto simp: decided_def)

definition first_answer :: "(nat \<Rightarrow> ReceiveStatus) \<Rightarrow> nat \<Rightarrow> usize \<Rightarrow> u8 list \<Rightarrow> bool" where
  "first_answer receive call bound frame \<longleftrightarrow>
     (\<exists>k < bound. receive (call + k) = StatusOk frame \<and> (\<forall>j < k. receive (call + j) = StatusEmpty))"

lemma first_answer_empty:
  "receive call = StatusEmpty \<Longrightarrow> first_answer receive call bound frame \<longleftrightarrow> first_answer receive (call + 1) (bound - 1) frame"
proof
  assume e: "receive call = StatusEmpty" and "first_answer receive call bound frame"
  then obtain k where k: "k < bound" "receive (call + k) = StatusOk frame" "\<forall>j < k. receive (call + j) = StatusEmpty"
    by (auto simp: first_answer_def)
  then obtain i where i: "k = Suc i" using e by (cases k) auto
  then have "receive (call + 1 + j) = StatusEmpty" if "j < i" for j using k(3) that by (metis Suc_mono add.assoc plus_1_eq_Suc)
  then show "first_answer receive (call + 1) (bound - 1) frame" using k i by (auto simp: first_answer_def intro!: exI [of _ i])
next
  assume e: "receive call = StatusEmpty" and "first_answer receive (call + 1) (bound - 1) frame"
  then obtain k where k: "k < bound - 1" "receive (call + 1 + k) = StatusOk frame" "\<forall>j < k. receive (call + 1 + j) = StatusEmpty"
    by (auto simp: first_answer_def)
  have "receive (call + j) = StatusEmpty" if "j < Suc k" for j using that e k(3) by (cases j) auto
  then show "first_answer receive call bound frame"
    unfolding first_answer_def using k by (intro exI [of _ "Suc k"]) auto
qed

lemma first_answer_here:
  "receive call \<noteq> StatusEmpty \<Longrightarrow> 0 < bound \<Longrightarrow> first_answer receive call bound frame \<longleftrightarrow> receive call = StatusOk frame"
  unfolding first_answer_def by (metis add_0_right not_less_zero gr0I)

lemma polling:
  assumes M: "\<And>f. matches f = Ok (f = frame)" and F: "length frame = 60"
  shows "n < 1024 \<Longrightarrow> receive_matching_frame receive matches call n =
    (if first_answer receive call (1024 - n) frame then Ok frame else Err ())"
proof (induction "1024 - n" arbitrary: call n)
  case 0
  then show ?case by simp
next
  case (Suc m)
  note step = receive_matching_frame.simps [of receive matches call n]
  show ?case
  proof (cases "receive call")
    case (StatusOk f)
    then show ?thesis
      using Suc.prems F by (simp add: step first_answer_here MIN_FRAME_BYTES_def M)
  next
    case StatusOther
    then show ?thesis using Suc.prems by (simp add: step first_answer_here)
  next
    case StatusEmpty
    have poll: "empty_receive_poll_exhausted n = (1024 \<le> n + 1, n + 1)"
      using Suc.prems by (simp add: empty_receive_poll_exhausted_def MAX_RECEIVE_POLL_ATTEMPTS_def USIZE_MAX_def Let_def)
    show ?thesis
    proof (cases "1024 \<le> n + 1")
      case True
      then have "\<not> first_answer receive call (1024 - n) frame"
        using StatusEmpty first_answer_empty [of receive call "1024 - n" frame] by (simp add: first_answer_def)
      then show ?thesis using True StatusEmpty by (simp add: step poll)
    next
      case False
      then have "receive_matching_frame receive matches (call + 1) (n + 1) =
          (if first_answer receive (call + 1) (1024 - (n + 1)) frame then Ok frame else Err ())"
        using Suc.hyps(1) [of "n + 1" "call + 1"] Suc.hyps(2) by simp
      then show ?thesis
        using False StatusEmpty first_answer_empty [of receive call "1024 - n" frame] by (simp add: step poll)
    qed
  qed
qed

section \<open>The request of the probe\<close>

definition udp_bytes :: "UdpDatagram \<Rightarrow> u16 \<Rightarrow> u8 list" where
  "udp_bytes datagram checksum = to_be_bytes (ud_source_port datagram) @ to_be_bytes (ud_destination_port datagram)
     @ to_be_bytes (15 :: u16) @ to_be_bytes checksum @ ud_data datagram"

lemma udp_profile_cases:
  assumes "validate_udp_profile g source destination = Ok ()"
  shows "ud_data g = UDP_DATA \<and> word_sum source + word_sum destination + unat (ud_source_port g) + unat (ud_destination_port g) = 116062"
  using assms by (auto simp: validate_udp_profile_def Let_def REQUEST_SOURCE_PORT_def REQUEST_DESTINATION_PORT_def
      REQUEST_SOURCE_IPV4_def REQUEST_DESTINATION_IPV4_def split: if_splits)

lemma udp_bytes_sum:
  assumes "validate_udp_profile g source destination = Ok ()"
  shows "udp_pseudo_sum source destination (udp_bytes g c) = 200562 + unat c"
  using udp_profile_cases [OF assms] by (simp add: udp_pseudo_sum_def udp_bytes_def word_sum_be16 UDP_DATA_def)

lemma udp_checksum_fixed:
  assumes "validate_udp_profile g source destination = Ok ()"
  shows "udp_checksum source destination (udp_bytes g 0) = 0xF08A"
proof (rule only_residue)
  have "length (udp_bytes g 0) < 65536" using udp_profile_cases [OF assms] by (simp add: udp_bytes_def UDP_DATA_def)
  then show "65535 dvd 200562 + unat (udp_checksum source destination (udp_bytes g 0))"
    using udp_checksum_completes [of "udp_bytes g 0" source destination] by (simp add: udp_bytes_sum [OF assms])
qed simp_all

lemma udp_round_trip:
  assumes ok: "validate_udp_profile g source destination = Ok ()" and len: "length buffer = 15"
  shows "encode_datagram g source destination buffer = Ok (15, udp_bytes g 0xF08A)"
    and "decode_datagram (udp_bytes g 0xF08A) source destination = Ok g"
proof -
  have data: "ud_data g = UDP_DATA" using udp_profile_cases [OF ok] by simp
  obtain s0 s1 where s: "to_be_bytes (ud_source_port g) = [s0, s1]" "from_be_bytes [s0, s1] = ud_source_port g" by (rule to_be16)
  obtain d0 d1 where d: "to_be_bytes (ud_destination_port g) = [d0, d1]" "from_be_bytes [d0, d1] = ud_destination_port g"
    by (rule to_be16)
  obtain c0 c1 where c: "to_be_bytes (0xF08A :: u16) = [c0, c1]" "from_be_bytes [c0, c1] = (0xF08A :: u16)" by (rule to_be16)
  have zero: "to_be_bytes (0 :: u16) = [0, 0]" by (simp add: to_be_bytes_def to_le_bytes_def numeral_2_eq_2)
  have two: "replicate 2 (0 :: u8) = [0, 0]" by (simp add: numeral_2_eq_2)
  have b: "udp_bytes g 0 = [s0, s1, d0, d1, 0, 15, 0, 0] @ UDP_DATA" "udp_bytes g 0xF08A = [s0, s1, d0, d1, 0, 15, c0, c1] @ UDP_DATA"
    by (simp_all add: udp_bytes_def s d c zero to_be_fixed data)
  have "\<exists>a b c d. buffer = [a, b, c, d] @ drop 4 buffer" "\<exists>a b c d. drop 4 buffer = [a, b, c, d] @ drop 8 buffer"
    using first_4 [of buffer] first_4 [of "drop 4 buffer"] len by simp_all
  then obtain z0 z1 z2 z3 z4 z5 z6 z7 where z: "buffer = [z0, z1, z2, z3, z4, z5, z6, z7] @ drop 8 buffer" by (elim exE) simp
  define r where "r = drop 8 buffer"
  have r: "length r = 7" using len by (simp add: r_def)
  note z = z [folded r_def]
  show "encode_datagram g source destination buffer = Ok (15, udp_bytes g 0xF08A)"
    using ok r udp_checksum_fixed [OF ok, unfolded b] unfolding z b
    by (simp add: encode_datagram_def UDP_DATAGRAM_BYTES_def UDP_HEADER_BYTES_def UDP_LENGTH_def copy_range_def s d c two data
        to_be_fixed Let_def UDP_DATA_def)
  have "length (udp_bytes g 0xF08A) = 15" by (simp add: b UDP_DATA_def)
  moreover have "65535 dvd udp_pseudo_sum source destination (udp_bytes g 0xF08A)" by (simp add: udp_bytes_sum [OF ok])
  moreover have "\<lparr>ud_source_port = ud_source_port g, ud_destination_port = ud_destination_port g, ud_data = UDP_DATA\<rparr> = g"
    using data by (cases g) simp
  ultimately show "decode_datagram (udp_bytes g 0xF08A) source destination = Ok g"
    using ok s d c by (simp add: decode_udp_eq Let_def b ports)
qed

definition udp_request :: UdpDatagram where
  "udp_request = \<lparr>ud_source_port = UDP_SOURCE_PORT, ud_destination_port = UDP_DESTINATION_PORT, ud_data = UDP_DATA\<rparr>"

definition ipv4_request_header :: Ipv4Header where
  "ipv4_request_header = \<lparr>ih_version = 4, ih_ihl = 5, ih_dscp_ecn = 0, ih_identification = IPV4_REQUEST_ID,
     ih_flags_fragment_offset = 0, ih_ttl = IPV4_TTL, ih_protocol = UDP_PROTOCOL, ih_source = LOCAL_IPV4,
     ih_destination = PEER_IPV4\<rparr>"

lemma udp_request_sent:
  assumes "length local_mac = 6"
  shows "\<exists>bytes frame packet. udp_request_frame local_mac = Ok bytes \<and> parse_frame bytes = Ok frame \<and>
    ef_destination frame = PEER_MAC \<and> ef_source frame = local_mac \<and> ef_ether_type frame = IPV4_ETHER_TYPE \<and>
    decode_ipv4_packet (ef_payload frame) = Ok packet \<and> ip_header packet = ipv4_request_header \<and>
    decode_datagram (ip_payload packet) LOCAL_IPV4 PEER_IPV4 = Ok udp_request"
proof -
  let ?u = "udp_bytes udp_request 0xF08A"
  let ?i = "ipv4_bytes (ipv4_request_header, ?u)"
  have mac: "length PEER_MAC = 6" by (simp add: PEER_MAC_def)
  have ok: "validate_udp_profile udp_request LOCAL_IPV4 PEER_IPV4 = Ok ()"
    by (simp add: validate_udp_profile_def udp_request_def udp_constants)
  have lu: "length ?u = 15" using udp_profile_cases [OF ok] by (simp add: udp_bytes_def UDP_DATA_def)
  have wfh: "wf_ipv4_header ipv4_request_header" by (simp add: wf_ipv4_header_def ipv4_request_header_def LOCAL_IPV4_def PEER_IPV4_def)
  then have wf: "wf_ipv4 (ipv4_request_header, ?u)" using lu by (simp add: wf_ipv4_def)
  have li: "length ?i = 35" using lu wfh by (simp add: ipv4_bytes_def Let_def length_ipv4_header)
  have "encode_ipv4_packet ipv4_request_header ?u (replicate 35 0) = Ok (35, ?i)"
    using encode_ipv4_flat [OF wfh, of ?u "replicate 35 0"] lu by (simp add: ipv4_bytes_def Let_def)
  then have "udp_request_frame local_mac = map_errR (\<lambda>_. ()) (encode_minimum_frame PEER_MAC local_mac IPV4_ETHER_TYPE ?i)"
    using udp_round_trip(1) [OF ok, of "replicate 15 0"]
    by (simp add: udp_request_frame_def Let_def UDP_DATAGRAM_BYTES_def IPV4_DATAGRAM_BYTES_def
        udp_request_def [symmetric] ipv4_request_header_def [symmetric])
  then have "udp_request_frame local_mac = Ok (PEER_MAC @ local_mac @ to_be_bytes IPV4_ETHER_TYPE @ ?i @ replicate 11 0)"
    using assms mac li by (simp add: encode_frame_flat)
  moreover have "parse_frame (PEER_MAC @ local_mac @ to_be_bytes IPV4_ETHER_TYPE @ ?i @ replicate 11 0) =
      Ok \<lparr>ef_destination = PEER_MAC, ef_source = local_mac, ef_ether_type = IPV4_ETHER_TYPE, ef_payload = ?i @ replicate 11 0\<rparr>"
    using assms mac li by (intro parse_frame_flat) simp_all
  ultimately show ?thesis
    using decode_ipv4_bytes [OF wf, of "replicate 11 0"] udp_round_trip(2) [OF ok, of "replicate 15 0"] by simp
qed

lemma arp_request_sent:
  assumes "length local_mac = 6"
  shows "\<exists>bytes frame. arp_request_frame local_mac = Ok bytes \<and> parse_frame bytes = Ok frame \<and>
    ef_destination frame = BROADCAST_MAC \<and> ef_source frame = local_mac \<and> ef_ether_type frame = ARP_ETHER_TYPE \<and>
    parse_arp (ef_payload frame) = Ok (arp_request_packet local_mac)"
proof -
  let ?p = "arp_request_packet local_mac"
  have wf: "wf_arp ?p" using assms by (simp add: wf_arp_def arp_request_packet_def LOCAL_IPV4_def PEER_IPV4_def)
  have "arp_request_frame local_mac =
      Ok (BROADCAST_MAC @ local_mac @ to_be_bytes ARP_ETHER_TYPE @ arp_bytes ?p @ replicate 18 0)"
    using assms length_arp_bytes [OF wf]
    by (simp add: arp_request_frame_def BROADCAST_MAC_def MIN_FRAME_BYTES_def ARP_PAYLOAD_BYTES_def copy_range_def
        encode_arp_flat [OF wf])
  moreover have "parse_frame (BROADCAST_MAC @ local_mac @ to_be_bytes ARP_ETHER_TYPE @ arp_bytes ?p @ replicate 18 0) =
      Ok \<lparr>ef_destination = BROADCAST_MAC, ef_source = local_mac, ef_ether_type = ARP_ETHER_TYPE,
          ef_payload = arp_bytes ?p @ replicate 18 0\<rparr>"
    using assms length_arp_bytes [OF wf] by (intro parse_frame_flat) (simp_all add: BROADCAST_MAC_def)
  ultimately show ?thesis using arp_codec.decode_encoded [OF wf] by simp
qed

section \<open>The exchange\<close>

text \<open>
  C27. The UDP exchange. The two frames the probe sends decode, layer by layer, to the ARP and UDP
  requests. Whatever bytes arrive, the probe's check of a reply ends without an abort, and
  it accepts exactly one frame: the one obtained by encoding the reply datagram, wrapping it in the
  reply header and wrapping that in a frame from the peer to the probe. The same holds for the ARP
  reply. Polling ends after at most 1024 calls; it returns this frame when the first answer that is not
  empty is the frame, and stops with an error otherwise.
\<close>

theorem udp_exchange_exact:
  assumes "length local_mac = 6"
  shows "(\<exists>udp ip frame.
      encode_datagram udp_reply PEER_IPV4 LOCAL_IPV4 (replicate 15 0) = Ok (15, udp) \<and>
      encode_ipv4_packet ipv4_reply_header udp (replicate 35 0) = Ok (35, ip) \<and>
      encode_minimum_frame local_mac PEER_MAC IPV4_ETHER_TYPE ip = Ok frame \<and>
      (\<forall>f. udp_reply_frame_matches f local_mac = Ok (f = frame)) \<and>
      receive_matching_frame receive (\<lambda>f. udp_reply_frame_matches f local_mac) 0 0 =
        (if first_answer receive 0 1024 frame then Ok frame else Err ())) \<and>
    (\<exists>arp frame.
      encode_arp (arp_reply_packet local_mac) = Ok arp \<and>
      encode_minimum_frame local_mac PEER_MAC ARP_ETHER_TYPE arp = Ok frame \<and>
      (\<forall>f. arp_reply_frame_matches f local_mac = Ok (f = frame))) \<and>
    (\<exists>bytes frame packet. udp_request_frame local_mac = Ok bytes \<and> parse_frame bytes = Ok frame \<and>
      ef_destination frame = PEER_MAC \<and> ef_source frame = local_mac \<and> ef_ether_type frame = IPV4_ETHER_TYPE \<and>
      decode_ipv4_packet (ef_payload frame) = Ok packet \<and> ip_header packet = ipv4_request_header \<and>
      decode_datagram (ip_payload packet) LOCAL_IPV4 PEER_IPV4 = Ok udp_request) \<and>
    (\<exists>bytes frame. arp_request_frame local_mac = Ok bytes \<and> parse_frame bytes = Ok frame \<and>
      ef_destination frame = BROADCAST_MAC \<and> ef_source frame = local_mac \<and> ef_ether_type frame = ARP_ETHER_TYPE \<and>
      parse_arp (ef_payload frame) = Ok (arp_request_packet local_mac))"
proof (intro conjI udp_request_sent arp_request_sent assms)
  have mac: "length PEER_MAC = 6" by (simp add: PEER_MAC_def)
  have "encode_minimum_frame local_mac PEER_MAC IPV4_ETHER_TYPE ipv4_reply_bytes = Ok (udp_reply_frame local_mac)"
    using encode_frame_flat [OF assms mac, of ipv4_reply_bytes] by (simp add: udp_reply_frame_def)
  moreover have "receive_matching_frame receive (\<lambda>f. udp_reply_frame_matches f local_mac) 0 0 =
      (if first_answer receive 0 (1024 - 0) (udp_reply_frame local_mac) then Ok (udp_reply_frame local_mac) else Err ())"
    using assms mac by (intro polling udp_reply_exact) (simp_all add: udp_reply_frame_def)
  ultimately show "\<exists>udp ip frame.
      encode_datagram udp_reply PEER_IPV4 LOCAL_IPV4 (replicate 15 0) = Ok (15, udp) \<and>
      encode_ipv4_packet ipv4_reply_header udp (replicate 35 0) = Ok (35, ip) \<and>
      encode_minimum_frame local_mac PEER_MAC IPV4_ETHER_TYPE ip = Ok frame \<and>
      (\<forall>f. udp_reply_frame_matches f local_mac = Ok (f = frame)) \<and>
      receive_matching_frame receive (\<lambda>f. udp_reply_frame_matches f local_mac) 0 0 =
        (if first_answer receive 0 1024 frame then Ok frame else Err ())"
    using encode_udp_reply encode_ipv4_reply udp_reply_exact [OF assms] by simp
  have "length (arp_bytes (arp_reply_packet local_mac)) = 28" by (rule length_arp_bytes [OF arp_reply_wf [OF assms]])
  then have "encode_minimum_frame local_mac PEER_MAC ARP_ETHER_TYPE (arp_bytes (arp_reply_packet local_mac)) =
      Ok (arp_reply_frame local_mac)"
    using encode_frame_flat [OF assms mac, of "arp_bytes (arp_reply_packet local_mac)"] by (simp add: arp_reply_frame_def)
  then show "\<exists>arp frame.
      encode_arp (arp_reply_packet local_mac) = Ok arp \<and>
      encode_minimum_frame local_mac PEER_MAC ARP_ETHER_TYPE arp = Ok frame \<and>
      (\<forall>f. arp_reply_frame_matches f local_mac = Ok (f = frame))"
    using encode_arp_flat [OF arp_reply_wf [OF assms]] arp_reply_exact [OF assms] by simp
qed

theorem udp_exchange_exact_witness:
  "\<exists>frame. \<forall>f. udp_reply_frame_matches f [0x52, 0x54, 0, 0x12, 0x34, 0x56] = Ok (f = frame)"
  using udp_exchange_exact [of "[0x52, 0x54, 0, 0x12, 0x34, 0x56]" "\<lambda>_. StatusEmpty"] by auto

end
