(* ===== verification/Sha256.thy ===== *)
theory Sha256
  imports Net_Bytes
begin

text \<open>
  The hash function of \<open>shared/src/sha256.rs\<close>, as the code computes it, with a buffer and in pieces,
  and as FIPS 180-4 defines it. The lemmas show that both agree for every message and every way of
  cutting it into pieces, and that the constants are the ones of the standard.
\<close>

section \<open>Constants and functions of the round\<close>

definition INITIAL_STATE :: "u32 list" where
  "INITIAL_STATE =
     [0x6a09e667, 0xbb67ae85, 0x3c6ef372, 0xa54ff53a, 0x510e527f, 0x9b05688c, 0x1f83d9ab, 0x5be0cd19]"

text \<open>The table of 64 round constants of the source, in eight rows.\<close>

definition K :: "u32 list" where
  "K = concat
     [[0x428a2f98, 0x71374491, 0xb5c0fbcf, 0xe9b5dba5, 0x3956c25b, 0x59f111f1, 0x923f82a4, 0xab1c5ed5],
      [0xd807aa98, 0x12835b01, 0x243185be, 0x550c7dc3, 0x72be5d74, 0x80deb1fe, 0x9bdc06a7, 0xc19bf174],
      [0xe49b69c1, 0xefbe4786, 0x0fc19dc6, 0x240ca1cc, 0x2de92c6f, 0x4a7484aa, 0x5cb0a9dc, 0x76f988da],
      [0x983e5152, 0xa831c66d, 0xb00327c8, 0xbf597fc7, 0xc6e00bf3, 0xd5a79147, 0x06ca6351, 0x14292967],
      [0x27b70a85, 0x2e1b2138, 0x4d2c6dfc, 0x53380d13, 0x650a7354, 0x766a0abb, 0x81c2c92e, 0x92722c85],
      [0xa2bfe8a1, 0xa81a664b, 0xc24b8b70, 0xc76c51a3, 0xd192e819, 0xd6990624, 0xf40e3585, 0x106aa070],
      [0x19a4c116, 0x1e376c08, 0x2748774c, 0x34b0bcb5, 0x391c0cb3, 0x4ed8aa4a, 0x5b9cca4f, 0x682e6ff3],
      [0x748f82ee, 0x78a5636f, 0x84c87814, 0x8cc70208, 0x90befffa, 0xa4506ceb, 0xbef9a3f7, 0xc67178f2]]"

definition ch :: "u32 \<Rightarrow> u32 \<Rightarrow> u32 \<Rightarrow> u32" where
  "ch x y z = (x AND y) XOR (NOT x AND z)"

definition maj :: "u32 \<Rightarrow> u32 \<Rightarrow> u32 \<Rightarrow> u32" where
  "maj x y z = (x AND y) XOR (x AND z) XOR (y AND z)"

text \<open>\<open>word_rotr\<close> is \<open>rotate_right\<close>.\<close>

definition big_sigma0 :: "u32 \<Rightarrow> u32" where
  "big_sigma0 x = word_rotr 2 x XOR word_rotr 13 x XOR word_rotr 22 x"

definition big_sigma1 :: "u32 \<Rightarrow> u32" where
  "big_sigma1 x = word_rotr 6 x XOR word_rotr 11 x XOR word_rotr 25 x"

definition small_sigma0 :: "u32 \<Rightarrow> u32" where
  "small_sigma0 x = word_rotr 7 x XOR word_rotr 18 x XOR drop_bit 3 x"

definition small_sigma1 :: "u32 \<Rightarrow> u32" where
  "small_sigma1 x = word_rotr 17 x XOR word_rotr 19 x XOR drop_bit 10 x"

section \<open>Compression of a block\<close>

text \<open>Reads and writes of an array at an index, which abort out of range.\<close>

definition get_at :: "'a list \<Rightarrow> usize \<Rightarrow> ('e, 'a) result" where
  "get_at xs i = (if i < length xs then Ok (xs ! i) else Panic)"

definition set_at :: "usize \<Rightarrow> 'a \<Rightarrow> 'a list \<Rightarrow> ('e, 'a list) result" where
  "set_at i x xs = (if i < length xs then Ok (xs[i := x]) else Panic)"

text \<open>The two loops that fill the message schedule, and the loop over the rounds.\<close>

definition load_words :: "u8 list \<Rightarrow> u32 list \<Rightarrow> ('e, u32 list) result" where
  "load_words block w =
     fold_res (\<lambda>w i.
       let offset = i * 4 in
       bindR (get_at block offset) (\<lambda>b0.
       bindR (get_at block (offset + 1)) (\<lambda>b1.
       bindR (get_at block (offset + 2)) (\<lambda>b2.
       bindR (get_at block (offset + 3)) (\<lambda>b3.
       set_at i (from_be_bytes [b0, b1, b2, b3]) w))))) w [0..<16]"

definition extend_words :: "u32 list \<Rightarrow> ('e, u32 list) result" where
  "extend_words w =
     fold_res (\<lambda>w i.
       bindR (get_at w (i - 15)) (\<lambda>w15.
       bindR (get_at w (i - 2)) (\<lambda>w2.
       bindR (get_at w (i - 16)) (\<lambda>w16.
       bindR (get_at w (i - 7)) (\<lambda>w7.
       set_at i (w16 + small_sigma0 w15 + w7 + small_sigma1 w2) w))))) w [16..<64]"

type_synonym working = "u32 \<times> u32 \<times> u32 \<times> u32 \<times> u32 \<times> u32 \<times> u32 \<times> u32"

definition rounds :: "u32 list \<Rightarrow> working \<Rightarrow> ('e, working) result" where
  "rounds w s =
     fold_res (\<lambda>(a, b, c, d, e, f, g, h) i.
       bindR (get_at K i) (\<lambda>k.
       bindR (get_at w i) (\<lambda>wi.
       let t1 = h + big_sigma1 e + ch e f g + k + wi;
           t2 = big_sigma0 a + maj a b c
       in Ok (t1 + t2, a, b, c, d + t1, e, f, g)))) s [0..<64]"

definition compress_block :: "u32 list \<Rightarrow> u8 list \<Rightarrow> ('e, u32 list) result" where
  "compress_block state block =
     (if length block \<noteq> 64 then Panic else
      bindR (load_words block (replicate 64 0)) (\<lambda>w.
      bindR (extend_words w) (\<lambda>w.
      bindR (get_at state 0) (\<lambda>s0. bindR (get_at state 1) (\<lambda>s1.
      bindR (get_at state 2) (\<lambda>s2. bindR (get_at state 3) (\<lambda>s3.
      bindR (get_at state 4) (\<lambda>s4. bindR (get_at state 5) (\<lambda>s5.
      bindR (get_at state 6) (\<lambda>s6. bindR (get_at state 7) (\<lambda>s7.
      bindR (rounds w (s0, s1, s2, s3, s4, s5, s6, s7)) (\<lambda>(a, b, c, d, e, f, g, h).
      Ok [s0 + a, s1 + b, s2 + c, s3 + d, s4 + e, s5 + f, s6 + g, s7 + h]))))))))))))"


section \<open>The streaming hasher\<close>

record Sha256 =
  sh_state :: "u32 list"
  sh_len_bytes :: u64
  sh_buffer :: "u8 list"
  sh_buffer_len :: usize

definition sha256_new :: Sha256 where
  "sha256_new = \<lparr>sh_state = INITIAL_STATE, sh_len_bytes = 0, sh_buffer = replicate 64 0, sh_buffer_len = 0\<rparr>"

text \<open>The first part of \<open>update\<close>, which fills a started buffer, and the loop over whole blocks.\<close>

definition fill_buffer :: "u8 list \<Rightarrow> Sha256 \<Rightarrow> ('e, u8 list \<times> Sha256) result" where
  "fill_buffer input s =
     (let needed = 64 - sh_buffer_len s;
          copied = min needed (length input)
      in
      bindR (slice_at input 0 copied) (\<lambda>part.
      bindR (copy_range (sh_buffer_len s) (sh_buffer_len s + copied) part (sh_buffer s)) (\<lambda>buffer.
      bindR (slice_at input copied (length input)) (\<lambda>input.
      if sh_buffer_len s + copied = 64 then
        bindR (compress_block (sh_state s) buffer) (\<lambda>state.
        Ok (input, s\<lparr>sh_state := state, sh_buffer := replicate 64 0, sh_buffer_len := 0\<rparr>))
      else Ok (input, s\<lparr>sh_buffer := buffer, sh_buffer_len := sh_buffer_len s + copied\<rparr>)))))"

function absorb_blocks :: "u8 list \<Rightarrow> u32 list \<Rightarrow> ('e, u8 list \<times> u32 list) result" where
  "absorb_blocks input state =
     (if 64 \<le> length input then
        bindR (compress_block state (take 64 input)) (absorb_blocks (drop 64 input))
      else Ok (input, state))"
  by pat_completeness auto
termination
  by (relation "measure (\<lambda>(input, _). length input)") auto

declare absorb_blocks.simps [simp del]

definition sha256_update :: "u8 list \<Rightarrow> Sha256 \<Rightarrow> ('e, Sha256) result" where
  "sha256_update bytes s =
     (let s = s\<lparr>sh_len_bytes := sh_len_bytes s + of_nat (length bytes)\<rparr> in
      bindR (if sh_buffer_len s \<noteq> 0 then fill_buffer bytes s else Ok (bytes, s)) (\<lambda>(input, s).
      bindR (absorb_blocks input (sh_state s)) (\<lambda>(input, state).
      if input \<noteq> [] then
        bindR (copy_range 0 (length input) input (sh_buffer s)) (\<lambda>buffer.
        Ok (s\<lparr>sh_state := state, sh_buffer := buffer, sh_buffer_len := length input\<rparr>))
      else Ok (s\<lparr>sh_state := state\<rparr>))))"

text \<open>\<open>bytes[i..j].fill(0)\<close>.\<close>

definition zero_range :: "usize \<Rightarrow> usize \<Rightarrow> u8 list \<Rightarrow> ('e, u8 list) result" where
  "zero_range i j bytes = copy_range i j (replicate (j - i) 0) bytes"

definition sha256_finalize :: "Sha256 \<Rightarrow> ('e, u8 list) result" where
  "sha256_finalize s =
     (let bit_len = sh_len_bytes s * 8 in
      bindR (set_at (sh_buffer_len s) 0x80 (sh_buffer s)) (\<lambda>buffer.
      let buffer_len = sh_buffer_len s + 1 in
      bindR (if 56 < buffer_len then
               bindR (zero_range buffer_len 64 buffer) (\<lambda>buffer.
               bindR (compress_block (sh_state s) buffer) (\<lambda>state.
               Ok (state, replicate 64 0, 0)))
             else Ok (sh_state s, buffer, buffer_len)) (\<lambda>(state, buffer, buffer_len).
      bindR (zero_range buffer_len 56 buffer) (\<lambda>buffer.
      bindR (copy_range 56 64 (to_be_bytes bit_len) buffer) (\<lambda>buffer.
      bindR (compress_block state buffer) (\<lambda>state.
      fold_res (\<lambda>out i.
        bindR (get_at state i) (\<lambda>w.
        copy_range (i * 4) (i * 4 + 4) (to_be_bytes w) out)) (replicate 32 0) [0..<length state]))))))"

definition sha256 :: "u8 list \<Rightarrow> ('e, u8 list) result" where
  "sha256 bytes = bindR (sha256_update bytes sha256_new) sha256_finalize"

section \<open>The standard\<close>

text \<open>
  FIPS 180-4: the message schedule of a block as a recurrence, the eight working variables after the
  rounds, the hash values of the blocks of the padded message.
\<close>

fun schedule_word :: "u8 list \<Rightarrow> nat \<Rightarrow> u32" where
  "schedule_word block t =
     (if t < 16 then from_be_bytes (take 4 (drop (4 * t) block))
      else small_sigma1 (schedule_word block (t - 2)) + schedule_word block (t - 7) +
           small_sigma0 (schedule_word block (t - 15)) + schedule_word block (t - 16))"

declare schedule_word.simps [simp del]

primrec working_after :: "u8 list \<Rightarrow> u32 list \<Rightarrow> nat \<Rightarrow> u32 list" where
  "working_after block hash 0 = hash"
| "working_after block hash (Suc t) =
     (let v = working_after block hash t;
          T1 = v ! 7 + big_sigma1 (v ! 4) + ch (v ! 4) (v ! 5) (v ! 6) + K ! t + schedule_word block t;
          T2 = big_sigma0 (v ! 0) + maj (v ! 0) (v ! 1) (v ! 2)
      in [T1 + T2, v ! 0, v ! 1, v ! 2, v ! 3 + T1, v ! 4, v ! 5, v ! 6])"

definition hash_block :: "u8 list \<Rightarrow> u32 list \<Rightarrow> u32 list" where
  "hash_block block hash = map2 (+) hash (working_after block hash 64)"

fun blocks_of :: "u8 list \<Rightarrow> u8 list list" where
  "blocks_of m = (if length m < 64 then [] else take 64 m # blocks_of (drop 64 m))"

declare blocks_of.simps [simp del]

definition padded :: "u8 list \<Rightarrow> u8 list" where
  "padded m = m @ [0x80] @ replicate ((119 - length m mod 64) mod 64) 0 @ to_be_bytes (of_nat (8 * length m) :: u64)"

definition digest :: "u8 list \<Rightarrow> u8 list" where
  "digest m = concat (map to_be_bytes (fold hash_block (blocks_of (padded m)) INITIAL_STATE))"


section \<open>Compression computes the standard's hash of a block\<close>

lemma get_at_eq_Ok [simp]: "get_at xs i = Ok x \<longleftrightarrow> i < length xs \<and> x = xs ! i"
  by (auto simp: get_at_def)

lemma set_at_eq_Ok [simp]: "set_at i x xs = Ok ys \<longleftrightarrow> i < length xs \<and> ys = xs[i := x]"
  by (auto simp: set_at_def)

definition holds_schedule :: "u8 list \<Rightarrow> nat \<Rightarrow> u32 list \<Rightarrow> bool" where
  "holds_schedule block n w \<longleftrightarrow> length w = 64 \<and> (\<forall>t < n. w ! t = schedule_word block t)"

lemma holds_scheduleI:
  "holds_schedule block n w \<Longrightarrow> n < 64 \<Longrightarrow> x = schedule_word block n \<Longrightarrow>
   holds_schedule block (Suc n) (w[n := x])"
  by (auto simp: holds_schedule_def nth_list_update less_Suc_eq)

lemma take_4_drop: "i + 3 < length xs \<Longrightarrow> take 4 (drop i xs) = [xs ! i, xs ! (i + 1), xs ! (i + 2), xs ! (i + 3)]"
  by (simp add: take_Suc_conv_app_nth numeral_eq_Suc)

lemma load_words_schedule:
  assumes "length block = 64"
  shows "\<exists>w. load_words block (replicate 64 0) = Ok w \<and> holds_schedule block 16 w"
  unfolding load_words_def
proof (rule fold_res_upt_total)
  show "holds_schedule block 0 (replicate 64 0)" by (simp add: holds_schedule_def)
next
  fix i w assume i: "i < 16" and w: "holds_schedule block i w"
  have "schedule_word block i = from_be_bytes [block ! (i * 4), block ! (i * 4 + 1), block ! (i * 4 + 2), block ! (i * 4 + 3)]"
    using i assms take_4_drop [of "i * 4" block] by (simp add: schedule_word.simps mult.commute)
  with i w assms show "\<exists>w'. (let offset = i * 4 in
       bindR (get_at block offset) (\<lambda>b0. bindR (get_at block (offset + 1)) (\<lambda>b1.
       bindR (get_at block (offset + 2)) (\<lambda>b2. bindR (get_at block (offset + 3)) (\<lambda>b3.
       set_at i (from_be_bytes [b0, b1, b2, b3]) w))))) = Ok w' \<and> holds_schedule block (Suc i) w'"
    using holds_scheduleI [OF w] by (simp add: Let_def holds_schedule_def)
qed simp

lemma extend_words_schedule:
  assumes "holds_schedule block 16 w"
  shows "\<exists>w'. extend_words w = Ok w' \<and> holds_schedule block 64 w'"
  unfolding extend_words_def
proof (rule fold_res_upt_total)
  show "holds_schedule block 16 w" by (rule assms)
next
  fix i w assume i: "16 \<le> i" "i < 64" and w: "holds_schedule block i w"
  have "w ! (i - k) = schedule_word block (i - k)" if "0 < k" for k
    using w i that by (simp add: holds_schedule_def)
  then have "w ! (i - 16) + small_sigma0 (w ! (i - 15)) + w ! (i - 7) + small_sigma1 (w ! (i - 2)) = schedule_word block i"
    using i schedule_word.simps [of block i] by (simp add: algebra_simps)
  then show "\<exists>w'. bindR (get_at w (i - 15)) (\<lambda>w15. bindR (get_at w (i - 2)) (\<lambda>w2.
       bindR (get_at w (i - 16)) (\<lambda>w16. bindR (get_at w (i - 7)) (\<lambda>w7.
       set_at i (w16 + small_sigma0 w15 + w7 + small_sigma1 w2) w)))) = Ok w' \<and> holds_schedule block (Suc i) w'"
    using holds_scheduleI [OF w] i w by (auto simp: holds_schedule_def)
qed simp

fun working_list :: "working \<Rightarrow> u32 list" where
  "working_list (a, b, c, d, e, f, g, h) = [a, b, c, d, e, f, g, h]"

lemma length_K: "length K = 64"
  by (simp add: K_def)

lemma rounds_working:
  assumes "holds_schedule block 64 w"
  shows "\<exists>v. rounds w s = Ok v \<and> working_list v = working_after block (working_list s) 64"
  unfolding rounds_def
proof (rule fold_res_upt_total)
  fix i v assume i: "i < 64" and v: "working_list v = working_after block (working_list s) i"
  obtain a b c d e f g h where abc: "v = (a, b, c, d, e, f, g, h)" by (cases v rule: working_list.cases)
  then have "working_after block (working_list s) i = [a, b, c, d, e, f, g, h]" using v by simp
  then show "\<exists>v'. (case v of (a, b, c, d, e, f, g, h) \<Rightarrow> \<lambda>i.
       bindR (get_at K i) (\<lambda>k. bindR (get_at w i) (\<lambda>wi.
       let t1 = h + big_sigma1 e + ch e f g + k + wi; t2 = big_sigma0 a + maj a b c
       in Ok (t1 + t2, a, b, c, d + t1, e, f, g)))) i = Ok v' \<and>
       working_list v' = working_after block (working_list s) (Suc i)"
    using assms i by (simp add: abc length_K holds_schedule_def Let_def)
qed simp_all

lemma compress_block_standard:
  assumes "length state = 8" and "length block = 64"
  shows "compress_block state block = Ok (hash_block block state)"
proof -
  obtain s0 s1 s2 s3 s4 s5 s6 s7 where st: "state = [s0, s1, s2, s3, s4, s5, s6, s7]"
    using assms(1) by (auto simp: length_Suc_conv numeral_eq_Suc)
  obtain w where w: "load_words block (replicate 64 0) = (Ok w :: ('a, _) result)" "holds_schedule block 16 w"
    using load_words_schedule [OF assms(2)] by blast
  obtain w' where w': "extend_words w = (Ok w' :: ('a, _) result)" "holds_schedule block 64 w'"
    using extend_words_schedule [OF w(2)] by blast
  obtain a b c d e f g h where
    r: "rounds w' (s0, s1, s2, s3, s4, s5, s6, s7) = (Ok (a, b, c, d, e, f, g, h) :: ('a, _) result)"
    and v: "[a, b, c, d, e, f, g, h] = working_after block state 64"
    using rounds_working [OF w'(2), of "(s0, s1, s2, s3, s4, s5, s6, s7)"] st by auto
  have "hash_block block state = [s0 + a, s1 + b, s2 + c, s3 + d, s4 + e, s5 + f, s6 + g, s7 + h]"
    unfolding hash_block_def v [symmetric] by (simp add: st)
  then show ?thesis by (simp add: compress_block_def assms(2) w(1) w'(1) r st get_at_def)
qed

lemma length_working_after: "length hash = 8 \<Longrightarrow> length (working_after block hash n) = 8"
  by (induction n) (simp_all add: Let_def)

lemma length_hash_block [simp]: "length hash = 8 \<Longrightarrow> length (hash_block block hash) = 8"
  by (simp add: hash_block_def length_working_after)


section \<open>The streaming hasher\<close>

definition hash_of :: "u8 list \<Rightarrow> u32 list" where
  "hash_of m = fold hash_block (blocks_of m) INITIAL_STATE"

lemma blocks_of_short [simp]: "length m < 64 \<Longrightarrow> blocks_of m = []"
  by (simp add: blocks_of.simps)

lemma blocks_of_append: "64 dvd length pre \<Longrightarrow> blocks_of (pre @ m) = blocks_of pre @ blocks_of m"
proof (induction pre rule: blocks_of.induct)
  case (1 pre)
  show ?case
  proof (cases "length pre < 64")
    case True
    with 1(2) have "pre = []" by (auto dest: dvd_imp_le)
    then show ?thesis by simp
  next
    case False
    then show ?thesis using 1 blocks_of.simps [of pre] blocks_of.simps [of "pre @ m"] by simp
  qed
qed

lemma length_hash_fold: "length hash = 8 \<Longrightarrow> length (fold hash_block bs hash) = 8"
  by (induction bs arbitrary: hash) simp_all

lemma length_hash_of [simp]: "length (hash_of m) = 8"
  by (simp add: hash_of_def length_hash_fold INITIAL_STATE_def)

lemma hash_of_append: "64 dvd length pre \<Longrightarrow> hash_of (pre @ m) = fold hash_block (blocks_of m) (hash_of pre)"
  by (simp add: hash_of_def blocks_of_append)

lemma hash_of_block:
  "64 dvd length pre \<Longrightarrow> length block = 64 \<Longrightarrow> hash_of (pre @ block) = hash_block block (hash_of pre)"
  by (simp add: hash_of_append blocks_of.simps [of block])

text \<open>A hasher has absorbed a message: whole blocks into its state, the rest in its buffer.\<close>

definition buffered :: "u8 list \<Rightarrow> Sha256 \<Rightarrow> bool" where
  "buffered m s \<longleftrightarrow> length (sh_buffer s) = 64 \<and> sh_buffer_len s < 64 \<and>
     (\<exists>pre. 64 dvd length pre \<and> m = pre @ take (sh_buffer_len s) (sh_buffer s) \<and> sh_state s = hash_of pre)"

definition absorbed :: "u8 list \<Rightarrow> Sha256 \<Rightarrow> bool" where
  "absorbed m s \<longleftrightarrow> sh_len_bytes s = of_nat (length m) \<and> buffered m s"

lemma absorbed_new: "absorbed [] sha256_new"
  by (simp add: absorbed_def buffered_def sha256_new_def hash_of_def)

lemma absorb_blocks_standard:
  assumes "64 dvd length pre"
  shows "\<exists>mid rest. input = mid @ rest \<and> 64 dvd length mid \<and> length rest < 64 \<and>
    absorb_blocks input (hash_of pre) = Ok (rest, hash_of (pre @ mid))"
  using assms
proof (induction input arbitrary: pre rule: length_induct)
  case (1 input)
  show ?case
  proof (cases "64 \<le> length input")
    case False
    then show ?thesis by (intro exI [of _ "[]"] exI [of _ input]) (simp add: absorb_blocks.simps)
  next
    case True
    let ?b = "take 64 input"
    have "length (drop 64 input) < length input" "64 dvd length (pre @ ?b)" using True 1(2) by simp_all
    then obtain mid rest where d: "drop 64 input = mid @ rest" and r: "64 dvd length mid" "length rest < 64"
      and a: "absorb_blocks (drop 64 input) (hash_of (pre @ ?b)) = (Ok (rest, hash_of ((pre @ ?b) @ mid)) :: ('a, _) result)"
      using 1(1) by blast
    have "absorb_blocks input (hash_of pre) = (absorb_blocks (drop 64 input) (hash_of (pre @ ?b)) :: ('a, _) result)"
      using True 1(2) by (subst absorb_blocks.simps) (simp add: compress_block_standard hash_of_block)
    then have a': "absorb_blocks input (hash_of pre) = (Ok (rest, hash_of (pre @ ?b @ mid)) :: ('a, _) result)"
      using a by (simp only: append.assoc)
    have "?b @ drop 64 input = input" by (rule append_take_drop_id)
    then have "input = (?b @ mid) @ rest" unfolding d by simp
    moreover have "64 dvd length (?b @ mid)" using True r(1) by simp
    ultimately show ?thesis using r(2) a' by blast
  qed
qed


lemma copy_range_Ok: "i \<le> j \<Longrightarrow> j \<le> length bytes \<Longrightarrow> length data = j - i \<Longrightarrow>
   copy_range i j data bytes = Ok (take i bytes @ data @ drop j bytes)"
  by (simp add: copy_range_def)

lemma fill_buffer_standard:
  assumes "buffered m s"
  shows "\<exists>part input' s'. input = part @ input' \<and> fill_buffer input s = Ok (input', s') \<and>
    buffered (m @ part) s' \<and> sh_len_bytes s' = sh_len_bytes s \<and> (input' = [] \<or> sh_buffer_len s' = 0)"
proof -
  obtain pre where len: "length (sh_buffer s) = 64" "sh_buffer_len s < 64" and pre: "64 dvd length pre"
    and m: "m = pre @ take (sh_buffer_len s) (sh_buffer s)" and st: "sh_state s = hash_of pre"
    using assms by (auto simp: buffered_def)
  define n where "n = sh_buffer_len s"
  define k where "k = min (64 - n) (length input)"
  define buf where "buf = take n (sh_buffer s) @ take k input @ drop (n + k) (sh_buffer s)"
  have k: "n + k \<le> 64" "k \<le> length input" and lb: "length buf = 64"
    using len by (auto simp: k_def n_def buf_def)
  have run: "fill_buffer input s =
      (if n + k = 64 then bindR (compress_block (sh_state s) buf) (\<lambda>state.
         Ok (drop k input, s\<lparr>sh_state := state, sh_buffer := replicate 64 0, sh_buffer_len := 0\<rparr>))
       else Ok (drop k input, s\<lparr>sh_buffer := buf, sh_buffer_len := n + k\<rparr>))"
    unfolding fill_buffer_def Let_def n_def [symmetric] k_def [symmetric]
    using k len by (simp add: slice_at_Ok copy_range_Ok buf_def)
  have tb: "take (n + k) buf = take n (sh_buffer s) @ take k input" using k len by (simp add: buf_def n_def)
  show ?thesis
  proof (cases "n + k = 64")
    case True
    have "m @ take k input = pre @ buf" using True tb lb by (simp add: m n_def)
    then have "buffered (m @ take k input)
        (s\<lparr>sh_state := hash_block buf (hash_of pre), sh_buffer := replicate 64 0, sh_buffer_len := 0\<rparr>)"
      using pre lb by (auto simp: buffered_def hash_of_block intro!: exI [of _ "pre @ buf"])
    then show ?thesis using True lb
      by (intro exI [of _ "take k input"] exI [of _ "drop k input"] exI) (auto simp: run compress_block_standard st)
  next
    case False
    then have "drop k input = []" using k by (auto simp: k_def)
    moreover have "buffered (m @ take k input) (s\<lparr>sh_buffer := buf, sh_buffer_len := n + k\<rparr>)"
      using False k pre lb tb by (auto simp: buffered_def m st n_def)
    ultimately show ?thesis using False
      by (intro exI [of _ "take k input"] exI [of _ "drop k input"] exI) (auto simp: run)
  qed
qed

lemma fill_step:
  assumes "buffered m s"
  shows "\<exists>part input' s'. input = part @ input' \<and>
    (if sh_buffer_len s \<noteq> 0 then fill_buffer input s else Ok (input, s)) = Ok (input', s') \<and>
    buffered (m @ part) s' \<and> sh_len_bytes s' = sh_len_bytes s \<and> (input' = [] \<or> sh_buffer_len s' = 0)"
proof (cases "sh_buffer_len s = 0")
  case True
  then show ?thesis using assms by (intro exI [of _ "[]"] exI [of _ input] exI [of _ s]) simp
next
  case False
  then show ?thesis using fill_buffer_standard [OF assms, of input] by simp
qed

lemma sha256_update_standard:
  assumes "absorbed m s"
  shows "\<exists>s'. sha256_update chunk s = Ok s' \<and> absorbed (m @ chunk) s'"
proof -
  let ?s = "s\<lparr>sh_len_bytes := sh_len_bytes s + of_nat (length chunk)\<rparr>"
  have b: "buffered m ?s" using assms by (simp add: absorbed_def buffered_def)
  obtain part input s1 where part: "chunk = part @ input"
    and run: "(if sh_buffer_len ?s \<noteq> 0 then fill_buffer chunk ?s else Ok (chunk, ?s)) = (Ok (input, s1) :: ('a, _) result)"
    and s1: "buffered (m @ part) s1" "sh_len_bytes s1 = sh_len_bytes ?s" "input = [] \<or> sh_buffer_len s1 = 0"
    using fill_step [OF b, of chunk] by blast
  obtain pre where len: "length (sh_buffer s1) = 64" "sh_buffer_len s1 < 64" and pre: "64 dvd length pre"
    and m: "m @ part = pre @ take (sh_buffer_len s1) (sh_buffer s1)" and st: "sh_state s1 = hash_of pre"
    using s1(1) by (auto simp: buffered_def)
  obtain mid rest where mid: "input = mid @ rest" "64 dvd length mid" "length rest < 64"
    and ab: "absorb_blocks input (sh_state s1) = (Ok (rest, hash_of (pre @ mid)) :: ('a, _) result)"
    using absorb_blocks_standard [OF pre, of input] st by auto
  have l: "sh_len_bytes s1 = of_nat (length (m @ chunk))" using assms s1(2) by (simp add: absorbed_def)
  show ?thesis
  proof (cases "rest = []")
    case True
    then have "absorbed (m @ chunk) (s1\<lparr>sh_state := hash_of (pre @ mid)\<rparr>)"
      using l len pre mid m s1(3) part
      by (auto simp: absorbed_def buffered_def intro!: exI [of _ "pre @ mid"])
    then show ?thesis using True run ab by (simp add: sha256_update_def Let_def)
  next
    case False
    then have "sh_buffer_len s1 = 0" using s1(3) mid(1) by auto
    then have "m @ chunk = (pre @ mid) @ rest" using m part mid(1) by (metis append.assoc append.right_neutral take_0)
    then have "absorbed (m @ chunk) (s1\<lparr>sh_state := hash_of (pre @ mid),
        sh_buffer := rest @ drop (length rest) (sh_buffer s1), sh_buffer_len := length rest\<rparr>)"
      using l len pre mid by (auto simp: absorbed_def buffered_def intro!: exI [of _ "pre @ mid"])
    then show ?thesis using False run ab mid(3) len
      by (simp add: sha256_update_def Let_def copy_range_Ok)
  qed
qed


lemma length_to_be_bytes [simp]: "length (to_be_bytes (w :: 'w::len word)) = LENGTH('w) div 8"
  by (simp add: to_be_bytes_def)

lemma length_concat_be32: "length (concat (map to_be_bytes (ws :: u32 list))) = 4 * length ws"
  by (induction ws) simp_all

lemma write_out_standard:
  assumes "length state = 8"
  shows "fold_res (\<lambda>out i. bindR (get_at state i) (\<lambda>w. copy_range (i * 4) (i * 4 + 4) (to_be_bytes w) out))
    (replicate 32 0) [0..<length state] = Ok (concat (map to_be_bytes (state :: u32 list)))"
proof -
  let ?out = "\<lambda>i. concat (map to_be_bytes (take i state)) @ replicate (32 - 4 * i) (0 :: u8)"
  have "\<exists>t. fold_res (\<lambda>out i. bindR (get_at state i) (\<lambda>w. copy_range (i * 4) (i * 4 + 4) (to_be_bytes w) out))
    (replicate 32 0) [0..<length state] = (Ok t :: ('a, _) result) \<and> t = ?out (length state)"
  proof (rule fold_res_upt_total)
    fix i out assume i: "i < length state" and out: "out = ?out i"
    have "length (concat (map to_be_bytes (take i state))) = 4 * i" using i by (simp add: length_concat_be32)
    then have "copy_range (i * 4) (i * 4 + 4) (to_be_bytes (state ! i)) out = (Ok (?out (Suc i)) :: ('a, _) result)"
      using i assms by (simp add: out copy_range_Ok take_Suc_conv_app_nth mult.commute)
    then show "\<exists>t'. bindR (get_at state i) (\<lambda>w. copy_range (i * 4) (i * 4 + 4) (to_be_bytes w) out) = (Ok t' :: ('a, _) result) \<and>
        t' = ?out (Suc i)"
      using i by simp
  qed simp_all
  then show ?thesis using assms by simp
qed

lemma sha256_finalize_standard:
  assumes "absorbed m s"
  shows "sha256_finalize s = Ok (digest m)"
proof -
  obtain pre where l: "sh_len_bytes s = of_nat (length m)" and len: "length (sh_buffer s) = 64" "sh_buffer_len s < 64"
    and pre: "64 dvd length pre" and m: "m = pre @ take (sh_buffer_len s) (sh_buffer s)" and st: "sh_state s = hash_of pre"
    using assms by (auto simp: absorbed_def buffered_def)
  define n where "n = sh_buffer_len s"
  define tail where "tail = take n (sh_buffer s) @ [0x80]"
  define bits where "bits = to_be_bytes (of_nat (8 * length m) :: u64)"
  have n: "n < 64" "length m mod 64 = n" using len pre by (auto simp: n_def m elim!: dvdE)
  have tail: "length tail = Suc n" "(sh_buffer s)[n := 0x80] = tail @ drop (Suc n) (sh_buffer s)"
    using len n by (simp_all add: tail_def upd_conv_take_nth_drop)
  have bits: "to_be_bytes (sh_len_bytes s * 8) = bits" "length bits = 8" by (simp_all add: bits_def l mult.commute)
  have pad: "padded m = pre @ tail @ replicate ((119 - n) mod 64) 0 @ bits" 
    unfolding padded_def n(2) by (simp add: m tail_def n_def bits_def)
  have fin: "digest m = concat (map to_be_bytes (hash_of (padded m)))" by (simp add: digest_def hash_of_def)
  show ?thesis
  proof (cases "56 \<le> n")
    case True
    let ?b1 = "tail @ replicate (63 - n) 0" and ?b2 = "replicate 56 0 @ bits"
    have z: "zero_range (Suc n) 64 (tail @ drop (Suc n) (sh_buffer s)) = (Ok ?b1 :: ('a, _) result)"
      using tail len n by (simp add: zero_range_def copy_range_Ok)
    have z': "zero_range 0 56 (replicate 64 0) = (Ok (replicate 64 0) :: ('a, _) result)"
      by (simp add: zero_range_def copy_range_Ok flip: replicate_add)
    have c: "copy_range 56 64 bits (replicate 64 0) = (Ok ?b2 :: ('a, _) result)" using bits by (simp add: copy_range_Ok)
    have "(119 - n) mod 64 = (63 - n) + 56" using True n by simp
    then have p: "padded m = (pre @ ?b1) @ ?b2" unfolding pad by (simp only: replicate_add append.assoc)
    have b: "length ?b1 = 64" "length ?b2 = 64" using tail bits n by simp_all
    have h: "hash_of (padded m) = hash_block ?b2 (hash_of (pre @ ?b1))"
      unfolding p using pre b by (intro hash_of_block) simp_all
    have "length (hash_of (padded m)) = 8" by simp
    note w = write_out_standard [OF this]
    show ?thesis unfolding sha256_finalize_def Let_def n_def [symmetric] bits(1) tail(2) fin
      using True n len w b by (simp add: set_at_def tail(2) z z' c st compress_block_standard pre h hash_of_block
        del: bindR_eq_Ok)
  next
    case False
    let ?b = "tail @ replicate (55 - n) 0 @ bits"
    have z: "zero_range (Suc n) 56 (tail @ drop (Suc n) (sh_buffer s)) =
        (Ok (tail @ replicate (55 - n) 0 @ drop 56 (sh_buffer s)) :: ('a, _) result)"
      using tail len n False by (simp add: zero_range_def copy_range_Ok)
    have c: "copy_range 56 64 bits (tail @ replicate (55 - n) 0 @ drop 56 (sh_buffer s)) = (Ok ?b :: ('a, _) result)"
      using bits tail len False by (simp add: copy_range_Ok)
    have "(119 - n) mod 64 = 55 - n" using False by (simp add: mod_if)
    then have p: "padded m = pre @ ?b" by (simp add: pad)
    have b: "length ?b = 64" using tail bits False by simp
    have h: "hash_of (padded m) = hash_block ?b (hash_of pre)" unfolding p using pre b by (intro hash_of_block)
    have "length (hash_of (padded m)) = 8" by simp
    note w = write_out_standard [OF this]
    show ?thesis unfolding sha256_finalize_def Let_def n_def [symmetric] bits(1) tail(2) fin
      using False n len w b by (simp add: set_at_def tail(2) z c st compress_block_standard h
        del: bindR_eq_Ok)
  qed
qed


section \<open>Constants and bit functions of the standard\<close>

text \<open>
  The standard takes the initial hash value and the round constants from the fractional parts of the
  square roots of the first eight primes and of the cube roots of the first 64 primes: 32 bits behind
  the point.
\<close>

definition first_primes :: "nat list" where
  "first_primes =
     [2, 3, 5, 7, 11, 13, 17, 19, 23, 29, 31, 37, 41, 43, 47, 53, 59, 61, 67, 71, 73, 79, 83, 89, 97,
      101, 103, 107, 109, 113, 127, 131, 137, 139, 149, 151, 157, 163, 167, 173, 179, 181, 191, 193,
      197, 199, 211, 223, 227, 229, 233, 239, 241, 251, 257, 263, 269, 271, 277, 281, 283, 293, 307,
      311]"

definition root_fraction :: "nat \<Rightarrow> nat \<Rightarrow> u32 \<Rightarrow> bool" where
  "root_fraction k p w \<longleftrightarrow>
     (\<exists>a. (a * 2 ^ 32 + unat w) ^ k \<le> p * 2 ^ (32 * k) \<and> p * 2 ^ (32 * k) < (a * 2 ^ 32 + unat w + 1) ^ k)"

definition fraction_with :: "nat \<Rightarrow> nat \<Rightarrow> nat \<Rightarrow> u32 \<Rightarrow> bool" where
  "fraction_with k a p w \<longleftrightarrow>
     (let n = a * 2 ^ 32 + unat w; q = p * 2 ^ (32 * k) in n ^ k \<le> q \<and> q < (n + 1) ^ k)"

lemma fraction_with_root:
  "list_all2 (\<lambda>(a, p). fraction_with k a p) (zip as ps) ws \<Longrightarrow> length as = length ps \<Longrightarrow>
   list_all2 (root_fraction k) ps ws"
  by (auto simp: list_all2_conv_all_nth fraction_with_def root_fraction_def Let_def)

lemma initial_state_roots: "list_all2 (root_fraction 2) (take 8 first_primes) INITIAL_STATE"
proof (rule fraction_with_root)
  show "list_all2 (\<lambda>(a, p). fraction_with 2 a p) (zip [1, 1, 2, 2, 3, 3, 4, 4] (take 8 first_primes)) INITIAL_STATE"
    by (simp add: first_primes_def INITIAL_STATE_def fraction_with_def)
qed (simp add: first_primes_def)

lemma round_constants_roots: "list_all2 (root_fraction 3) first_primes K"
proof (rule fraction_with_root)
  show "list_all2 (\<lambda>(a, p). fraction_with 3 a p) (zip
      [1, 1, 1, 1, 2, 2, 2, 2, 2, 3, 3, 3, 3, 3, 3, 3, 3, 3, 4, 4, 4, 4, 4, 4, 4, 4, 4, 4, 4, 4, 5, 5, 5,
      5, 5, 5, 5, 5, 5, 5, 5, 5, 5, 5, 5, 5, 5, 6, 6, 6, 6, 6, 6, 6, 6, 6, 6, 6, 6, 6, 6, 6, 6, 6]
      first_primes) K"
    by (simp add: first_primes_def K_def fraction_with_def)
qed (simp add: first_primes_def)

lemma bit_ch: "bit (ch x y z) i \<longleftrightarrow> (if bit x i then bit y i else i < 32 \<and> bit z i)"
  by (auto simp: ch_def bit_simps)

lemma bit_maj: "bit (maj x y z) i \<longleftrightarrow> 2 \<le> length (filter (\<lambda>w. bit w i) [x, y, z])"
  by (auto simp: maj_def bit_simps)

lemma sha256_pieces:
  assumes "absorbed m s"
  shows "\<exists>s'. fold_res (\<lambda>s chunk. sha256_update chunk s) s chunks = Ok s' \<and> absorbed (m @ concat chunks) s'"
  using assms
proof (induction chunks arbitrary: m s)
  case (Cons chunk chunks)
  then obtain s1 where "sha256_update chunk s = (Ok s1 :: ('a, _) result)" "absorbed (m @ chunk) s1"
    using sha256_update_standard by blast
  then show ?case using Cons.IH [of "m @ chunk" s1] by simp
qed simp

lemma sha256_digest [simp]: "sha256 bytes = Ok (digest bytes)"
  using sha256_update_standard [OF absorbed_new, of bytes] sha256_finalize_standard
  by (fastforce simp: sha256_def)

lemma length_digest [simp]: "length (digest m) = 32"
  by (simp add: digest_def length_concat_be32 flip: hash_of_def)

section \<open>The property\<close>

text \<open>
  C24. The hasher is SHA-256. However a message is cut into pieces, absorbing the pieces and finishing
  returns, without an abort, the digest that FIPS 180-4 defines for the whole message; so does the
  one-shot function. The initial hash value and the round constants are the ones the standard derives
  from square and cube roots of primes.
\<close>

theorem sha256_conforms:
  "bindR (fold_res (\<lambda>s chunk. sha256_update chunk s) sha256_new chunks) sha256_finalize = Ok (digest (concat chunks)) \<and>
   sha256 bytes = Ok (digest bytes) \<and>
   list_all2 (root_fraction 2) (take 8 first_primes) INITIAL_STATE \<and> list_all2 (root_fraction 3) first_primes K"
proof -
  obtain s where "fold_res (\<lambda>s chunk. sha256_update chunk s) sha256_new chunks = (Ok s :: ('a, _) result)"
    "absorbed (concat chunks) s"
    using sha256_pieces [OF absorbed_new, of chunks] by auto
  then show ?thesis using sha256_finalize_standard initial_state_roots round_constants_roots by simp
qed

end
