(* ===== verification/Spec2Isabelle.thy ===== *)
theory Spec2Isabelle
  imports Tig_Examples Kernel_Processes Kernel_Ipc Kernel_Quotas Kernel_Allocator Kernel_Scheduler Kernel_Selftests
    Net_Probe Sha256
begin

text \<open>
  This development verifies parts of PythOS, a capability-based operating system in Rust. It covers four
  parts of the repository: the typed graph programs (PythTIG) that the kernel admits and the runtime
  interprets, the tables and services of the kernel that decide what a running program may do, the
  packet codecs of the user network stack, and the hash function of the package formats.

  \<^bold>\<open>How Rust is modelled.\<close> A computation is a value of the type \<open>result\<close> of \<open>Prelude\<close>: \<open>Ok\<close>, \<open>Err\<close>,
  \<open>Panic\<close> for every abort (an index out of range, a failed \<open>expect\<close>, an arithmetic underflow) and
  \<open>Diverge\<close> for a loop that does not end; \<open>settled\<close> excludes the last two. Integers of a fixed width are
  words; \<open>usize\<close> is a natural number with the 64-bit bound in the checked operations; arrays and slices are
  lists; structs are records and enums datatypes with the constructors of the source, renamed where two
  files use the same name. Code that mutates a table through \<open>&mut self\<close> is an operation
  \<open>'s \<Rightarrow> ('e, 'a) result \<times> 's\<close> (\<open>Kernel_Tables\<close>), so that a failing operation still shows what it
  changed. Loops are recursive functions with a termination proof, or \<open>while_res\<close> of \<open>Prelude\<close> where the
  bound of the loop is itself a theorem.

  \<^bold>\<open>Graph programs.\<close> \<open>shared/src/pyth_tig\<close> holds the format, the decoder and the verifier,
  \<open>user/pyth-runtime/src\<close> the interpreter, \<open>tools/pythc/src/encode.rs\<close> the compiler's encoder.
  \<^item> \<open>Tig_Types\<close>: wire codes of types and opcodes and the signature table (\<open>types.rs\<close>, \<open>opcode.rs\<close>), and
    the resource kinds and rights of \<open>shared/src/task_abi.rs\<close>. The locale \<open>wire_code\<close> is the contract of a
    code and its partial inverse.
  \<^item> \<open>Tig_Format\<close>: header, sections, records, checksum and \<open>decode\<close> (\<open>format.rs\<close>). The locale \<open>record_table\<close>
    is the contract of a table of fixed-size records. The lemmas show that decoding is total and what an
    accepted layout looks like.
  \<^item> \<open>Tig_Verify\<close>: every pass of \<open>verify_package\<close> (\<open>verify.rs\<close>). \<open>Tig_Blocks\<close>, \<open>Tig_Dominators\<close> and
    \<open>Tig_Semantics\<close> relate the passes to what they decide: a partition of the nodes, reachability and
    dominance in the control-flow graph, availability of inputs, types, effect order and capability
    origins.
  \<^item> \<open>Tig_Interp\<close>: the interpreter with its host as a record of functions (\<open>interpreter.rs\<close>, \<open>value.rs\<close>,
    with the exit record and limits of \<open>pyth_runtime_abi.rs\<close> and \<open>pyth_command_abi.rs\<close>);
    the loop over blocks is bounded by the instruction budget. \<open>Tig_Soundness\<close> has the invariant of an
    execution and shows that admitted programs never reach an undefined value; \<open>Tig_Trace\<close> adds hosts that
    record their calls. The locale \<open>host_contract\<close> states what a run relies on.
  \<^item> \<open>Tig_Encode\<close>: the encoder (\<open>encode.rs\<close>, \<open>graph.rs\<close>, \<open>span.rs\<close>) and its round trip through the decoder.
    \<open>Tig_Examples\<close> has the concrete packages of the witnesses.

  \<^bold>\<open>Kernel.\<close> The sources are in \<open>core/src\<close>.
  \<^item> \<open>Kernel_Tables\<close>: operations on a state, searches in slot arrays, refinement of an operation by a
    specification. \<open>Ring_Buffer\<close>: a ring in an array as the list it holds.
  \<^item> \<open>Kernel_Identity\<close> (\<open>service_identity.rs\<close>), \<open>Kernel_Capabilities\<close> (\<open>capabilities.rs\<close>) and
    \<open>Kernel_Processes\<close> (\<open>dynamic_capabilities.rs\<close>): identities, grants and revocations, and processes that
    receive grants from their creator. Runs of the tables are inductive; the invariants relate the slots
    to the history of a run. \<open>identity_registry\<close> and \<open>authority\<close> are the contracts the process layer uses.
  \<^item> \<open>Kernel_Ipc\<close> (\<open>ipc_channels.rs\<close>): channels, refined by a bounded queue; the locale \<open>mailbox\<close> has the
    delivery argument.
  \<^item> \<open>Kernel_Quotas\<close> (\<open>resource_quotas.rs\<close>, \<open>storage_quotas.rs\<close>): three quota tables as instances of the
    locale \<open>accounting\<close>.
  \<^item> \<open>Kernel_Allocator\<close> (\<open>storage_allocator.rs\<close>, the device description of \<open>block_device.rs\<close>): first-fit
    allocation in a bitmap, the journal of the allocator and its recovery.
  \<^item> \<open>Kernel_Scheduler\<close> (\<open>scheduler.rs\<close>): the round-robin choice of the next ready task.
  \<^item> \<open>Kernel_Gates\<close> (\<open>storage_service.rs\<close>, \<open>storage_journal.rs\<close>, \<open>permission_validation.rs\<close>,
    \<open>shared_memory.rs\<close>): the services that act only under a capability, and the write journal.
  \<^item> \<open>Kernel_Selftests\<close>: the self-tests of these files, the audit log (\<open>audit.rs\<close>) and the phase of the boot
    in \<open>main.rs\<close> that runs them, with the lines on the serial console.

  \<^bold>\<open>Network.\<close> The sources are in \<open>user/probes\<close>.
  \<^item> \<open>Net_Bytes\<close>: slices, network byte order, the Internet checksum and its meaning modulo 65535; the locale
    \<open>codec\<close> is the contract of a packet codec.
  \<^item> \<open>Net_Frames\<close> (\<open>ethernet.rs\<close>, \<open>arp.rs\<close>, \<open>ipv4.rs\<close>, \<open>icmp.rs\<close>, \<open>udp.rs\<close>): encoders and decoders, their
    round trips, and the detection of corrupted headers.
  \<^item> \<open>Net_Probe\<close> (\<open>udp/src/main.rs\<close>): the frames the UDP probe sends and accepts, and its polling.

  \<^bold>\<open>Hash.\<close> \<open>Sha256\<close> (\<open>shared/src/sha256.rs\<close>): the streaming hasher, the definitions of FIPS 180-4, and
  their agreement.

  \<^bold>\<open>What is shown.\<close> Verification and execution of packages never abort, and a package accepted from its bytes
  runs to an exit record on every host, within its budget, calling the host only with authority it was
  given (C1 to C6). The encoder is inverse to the decoder and returns exactly verified graphs (C7, C8).
  The passes of the verifier decide the graph properties they stand for (C9 to C15). Authority in the kernel
  follows the history of grants and revocations, also through processes and guarded services (C17 to C23,
  C36). Channels, quotas, allocation, journals and scheduling meet their specifications (C25, C26, C28 to
  C35, C37), the boot self-tests pass (C38), the codecs are exact (C27, C39, C40), and the
  hasher computes SHA-256 (C24). C16, C22 and C33 prove
  behaviour that differs from what the code means to do.

  \<^bold>\<open>Parameters and hypotheses.\<close> The host of the interpreter and the receive system call of the probe are
  parameters. Theorems about accepted packages assume that jumps claim no value, which C16 shows to be
  necessary; progress (C3) assumes implemented opcodes, bound imports and a host that returns well-formed
  results. Fields of a fixed array type have the length of the type. The devices of the allocator and the
  storage service are the two variants of the default build.

  \<^bold>\<open>Bounds.\<close> The dominator and reachability loops are bounded by the number of blocks, at most 128 by the width
  of the masks; the run of a package by its budget; table scans by the table sizes; the recovery loops by
  the journal length; the carry loop of the checksum by the value of the sum; the block loop of the
  hasher by the length of its input; polling by 1024 attempts.

  \<^bold>\<open>Not modelled.\<close> Code over raw memory, device registers and inline assembly: context switches, page
  tables, descriptor tables, interrupt entry, drivers, the framebuffer, the UEFI loader and the system-call
  dispatcher, whose state is global and reached through raw pointers. The object, package and task
  services and the session runtime build on persistent objects and the device below them; the compiler front
  end and the native code generator, which would need semantics of the source language and of x86-64
  machine code; TCP, DNS, socket and TLS probes; diagnostic screens and test fixtures.
\<close>

section \<open>Shared facts\<close>

lemma verify_bytes_okD:
  assumes "verify_bytes bs = Ok g"
  shows "verified g" and "graph_within_limits g" and "table_sizes g"
proof -
  from assms obtain pkg where d: "decode bs = Ok pkg" and v: "bindR (package_graph pkg) verify_package = Ok g"
    by (auto simp: verify_bytes_def)
  obtain g' where p: "package_graph pkg = (Ok g' :: (VerifyError, tig_graph) result)"
    and "table_sizes g'" and "graph_within_limits g'"
    by (rule package_graph_of_decoded [OF d])
  moreover from v p have "verify_package g' = Ok g" by simp
  then have "g = g'" and "verified g" using verify_package_result by blast+
  ultimately show "verified g" "graph_within_limits g" "table_sizes g" by simp_all
qed

lemma verify_bytes_admitted: "verify_bytes bs = Ok g \<Longrightarrow> jumps_unit g \<Longrightarrow> admitted g"
  using verify_bytes_okD by (simp add: admitted_def)

lemma execute_sound:
  assumes "admitted g" and "t \<Longrightarrow> tame g caps H"
  obtains r it h' where "execute_inner g H (interpreter_new caps budget, h) = (r, it, h')"
    and "r = Ok () \<or> (\<exists>e. r = Err e \<and> allowed_error t e)" and "accounts (unat budget) it"
proof -
  obtain r it h' where eq: "execute_inner g H (interpreter_new caps budget, h) = (r, it, h')"
    by (metis prod.exhaust)
  have "any_host.final_post t (unat budget) (execute_inner g H (interpreter_new caps budget, h))"
    using any_host.execute_inner_post [OF assms(1), where t = t and caps = caps and H = H and h = h and budget = budget] assms(2)
    by simp
  then show thesis
    using that [OF eq]
    by (cases r) (auto simp: eq any_host.final_post_def any_host.error_inv_def)
qed

lemma hello_bytes: "verify_bytes (flat_bytes hello) = Ok hello_graph"
  using verify_bytes_flat [OF hello_limits] hello_verified(1) by (simp add: verified_def)

lemma hello_jumps: "jumps_unit hello_graph"
  using hello_admitted by (simp add: admitted_def)

lemma error_code_host: "error_code (HostErr x) \<notin> {error_code InvalidBlock, error_code InvalidNode,
    error_code InvalidInput}"
  by (cases x) simp_all

section \<open>Admission of packages\<close>

text \<open>
  C1. Verifying any byte string ends without a panic: no index out of range, no failed
  \<open>expect\<close>, no shift beyond the mask width, and both fixed-point loops stop.
\<close>

theorem verify_bytes_settled: "settled (verify_bytes bs)"
  by (rule settled_verify_bytes)

section \<open>Execution of admitted packages\<close>

text \<open>
  C2. Type soundness across decoder, verifier and interpreter: a package accepted from its bytes,
  whose jumps claim no value, always runs to an exit record. The run neither panics nor loops, and
  the record never reports an invalid block, an invalid node or a missing or ill-typed input.
\<close>

theorem accepted_package_runs:
  assumes "verify_bytes bs = Ok g" and "jumps_unit g"
  shows "\<exists>rec h'. execute g H (interpreter_new caps budget) h = (Ok rec, h') \<and>
    ex_error_code rec \<notin> {error_code InvalidBlock, error_code InvalidNode, error_code InvalidInput}"
proof -
  obtain r it h' where "execute_inner g H (interpreter_new caps budget, h) = (r, it, h')"
    and "r = Ok () \<or> (\<exists>e. r = Err e \<and> allowed_error False e)"
    by (rule execute_sound [OF verify_bytes_admitted [OF assms], where t = False]) simp
  then show ?thesis
    using error_code_host
    by (auto simp: execute_def exit_ok_def exit_budget_exhausted_def exit_runtime_error_def
        exit_record_def allowed_error_def split: RuntimeError.split)
qed

theorem accepted_package_runs_witness:
  "\<exists>rec h'. execute hello_graph log_host (interpreter_new (\<lambda>_. 9) 100) [] = (Ok rec, h') \<and>
    ex_error_code rec \<notin> {error_code InvalidBlock, error_code InvalidNode, error_code InvalidInput}"
  by (rule accepted_package_runs [OF hello_bytes hello_jumps])



text \<open>
  C4. Capability confinement: in every run of an accepted package, on any host, each host call uses
  a capability that is bound to an import declaring the resource kind and the rights the operation
  needs, or that the host itself returned earlier in the run for an object it created or found. The
  calls are read off a recording host.
\<close>

theorem host_calls_authorised:
  assumes "verify_bytes bs = Ok g" and "jumps_unit g"
  shows "trace_authorised g caps
    (snd (snd (snd (execute_inner g (traced H) (interpreter_new caps budget, h, [])))))"
proof -
  obtain r it h' calls where
    eq: "execute_inner g (traced H) (interpreter_new caps budget, h, []) = (r, it, h', calls)"
    by (rule prod_cases4)
  have "traced_host.final_post g caps False (unat budget)
      (execute_inner g (traced H) (interpreter_new caps budget, h, []))"
    using traced_host.execute_inner_post [OF verify_bytes_admitted [OF assms], where t = False
        and caps = caps and H = H and h = "(h, [])" and budget = budget] by simp
  then show ?thesis
    by (cases r) (auto simp: eq traced_host.final_post_def traced_host.error_inv_def)
qed

theorem host_calls_authorised_witness:
  "trace_authorised hello_graph (\<lambda>_. 9)
    (snd (snd (snd (execute_inner hello_graph (traced log_host) (interpreter_new (\<lambda>_. 9) 100, [], [])))))"
  by (rule host_calls_authorised [OF hello_bytes hello_jumps])


text \<open>
  C6. The node budget bounds every run of an accepted package: the number of executed nodes in the
  exit record is at most the budget.
\<close>

theorem budget_bounds_run:
  assumes "verify_bytes bs = Ok g" and "jumps_unit g"
  shows "\<exists>rec h'. execute g H (interpreter_new caps budget) h = (Ok rec, h') \<and>
    ex_executed_nodes rec \<le> budget"
proof -
  obtain r it h' where run: "execute_inner g H (interpreter_new caps budget, h) = (r, it, h')"
    "r = Ok () \<or> (\<exists>e. r = Err e \<and> allowed_error False e)" and "accounts (unat budget) it"
    by (rule execute_sound [OF verify_bytes_admitted [OF assms], where t = False]) simp
  then have "it_executed_nodes it \<le> budget"
    by (simp add: accounts_def word_le_nat_alt)
  with run show ?thesis
    by (auto simp: execute_def exit_ok_def exit_budget_exhausted_def exit_runtime_error_def
        exit_record_def split: RuntimeError.split)
qed

theorem budget_bounds_run_witness:
  "\<exists>rec h'. execute hello_graph log_host (interpreter_new (\<lambda>_. 9) 3) [] = (Ok rec, h') \<and>
    ex_executed_nodes rec \<le> 3"
  by (rule budget_bounds_run [OF hello_bytes hello_jumps])

section \<open>Compiler output\<close>

text \<open>
  C7. Round trip: the encoder turns every owned graph within the format's limits into bytes that the
  decoder accepts, and the tables read back are the graph's own, record by record.
\<close>

theorem encode_decode_graph:
  assumes "owned_limits G"
  shows "\<exists>bytes pkg c. encode_graph G = Ok bytes \<and> decode bytes = Ok pkg \<and>
    package_graph pkg = (Ok (graph_view G c) :: (VerifyError, tig_graph) result)"
  using encode_graph_flat [OF owned_limits_len(2) [OF assms]] decode_flat [OF assms]
    package_graph_flat [OF assms] by blast

theorem encode_decode_graph_witness:
  "\<exists>bytes pkg c. encode_graph hello = Ok bytes \<and> decode bytes = Ok pkg \<and>
    package_graph pkg = (Ok (graph_view hello c) :: (VerifyError, tig_graph) result)"
  by (rule encode_decode_graph [OF hello_limits])

text \<open>
  C8. The verified encoder, completely: on a graph that fits the address space it returns the
  encoding exactly when the graph is within the limits of the format and the shared verifier
  accepts it, and otherwise the diagnostic G0001; it never panics.
\<close>

theorem encode_verified_graph_decides:
  assumes "package_len G \<le> USIZE_MAX"
  shows "encode_verified_graph G =
    (if owned_limits G \<and> verified (graph_view G (graph_checksum G))
     then encode_graph G else Err verifier_rejected)"
  using encode_verified_graph_cases [OF assms] encode_graph_flat owned_limits_len(2) by simp

theorem encode_verified_graph_decides_witness:
  "encode_verified_graph hello = encode_graph hello"
proof -
  have "package_len hello \<le> USIZE_MAX"
    using owned_limits_len(1) [OF hello_limits] by (simp add: MAX_PACKAGE_BYTES_def USIZE_MAX_def)
  from encode_verified_graph_decides [OF this] show ?thesis
    by (simp add: hello_limits hello_verified)
qed

section \<open>What the verifier computes\<close>

text \<open>
  C9. The dominator fixed point is exact: on a graph that passed the block and control-flow passes,
  bit \<open>d\<close> of the mask computed for block \<open>b\<close> is set if and only if \<open>d\<close> lies on every control-flow
  path from the entry to \<open>b\<close>.
\<close>

theorem dominators_exact:
  assumes "cfg_ok g" and "entry_of g < length (blocks g)"
  shows "\<exists>D. compute_dominators g = Ok D \<and>
    (\<forall>b < length (blocks g). \<forall>d < length (blocks g). bit (D b) d \<longleftrightarrow> dominates g d b)"
proof -
  obtain D where "compute_dominators g = Ok D"
    and D: "\<forall>b<length (blocks g). bits_of (D b) = dominator_set g b"
    using compute_dominators_total [OF assms] by blast
  moreover have "bit (D b) d \<longleftrightarrow> dominates g d b" if "b < length (blocks g)" "d < length (blocks g)" for b d
  proof -
    have "bit (D b) d \<longleftrightarrow> d \<in> bits_of (D b)" by (simp add: bits_of_def)
    with D that show ?thesis by (simp add: dominator_set_def)
  qed
  ultimately show ?thesis by blast
qed

theorem dominators_exact_witness:
  "\<exists>D. compute_dominators (graph_view diamond 0) = Ok D \<and>
    (\<forall>b < length (blocks (graph_view diamond 0)). \<forall>d < length (blocks (graph_view diamond 0)).
       bit (D b) d \<longleftrightarrow> dominates (graph_view diamond 0) d b)"
  by (rule dominators_exact [OF diamond_verified(2)]) (simp add: diamond_sizes)

text \<open>
  C10. The worklist pass over 128-bit masks decides reachability: it accepts if and only if the
  entry block exists and every block lies on a control-flow path from it.
\<close>

theorem reachability_decided:
  assumes "cfg_ok g"
  shows "verify_reachable_blocks g = Ok () \<longleftrightarrow>
    entry_of g < length (blocks g) \<and> (\<forall>b < length (blocks g). reachable_block g b)"
  using verify_reachable_blocks_iff [OF assms] by simp

theorem reachability_decided_witness:
  "verify_reachable_blocks (graph_view diamond 0) = Ok () \<longleftrightarrow>
    entry_of (graph_view diamond 0) < length (blocks (graph_view diamond 0)) \<and>
    (\<forall>b < length (blocks (graph_view diamond 0)). reachable_block (graph_view diamond 0) b)"
  by (rule reachability_decided [OF diamond_verified(2)])

text \<open>
  C11. The availability pass accepts if and only if every input of every node names a node that has
  been evaluated whenever control reaches the consumer: an earlier node of the same block, or a node
  of a block that dominates the consumer's block.
\<close>

theorem availability_decided:
  assumes "cfg_ok g" and "verify_block_ranges g = Ok tb" and "entry_of g < length (blocks g)"
  shows "verify_value_availability g (bt_node_blocks tb) = Ok () \<longleftrightarrow> inputs_available g"
proof -
  have "known_codes g" "graph_bounds g" using assms(1) by (simp_all add: cfg_ok_def)
  then have "blocks_wf g tb" by (rule verify_block_ranges_wf [OF _ _ assms(2)])
  from verify_value_availability_eq [OF assms(1) this assms(3)] show ?thesis by simp
qed

theorem availability_decided_witness:
  "verify_value_availability (graph_view diamond 0) (bt_node_blocks diamond_tables) = Ok () \<longleftrightarrow>
    inputs_available (graph_view diamond 0)"
  by (rule availability_decided [OF diamond_verified(2) diamond_blocks]) (simp add: diamond_sizes)

text \<open>
  C12. Blocks of an accepted package partition its nodes: every node lies in exactly one block, the
  one its record names, and is a terminator exactly when it is the last node of that block.
\<close>

theorem blocks_partition_nodes:
  assumes "verify_bytes bs = Ok g" and "i < length (nodes g)"
  shows "(\<exists>!b. b < length (blocks g) \<and> blk_start g b \<le> i \<and> i < blk_end g b) \<and>
    (is_terminator (node_op g i) \<longleftrightarrow> i = blk_end g (node_block g i) - 1)"
proof (rule conjI)
  obtain tb where wf: "blocks_wf g tb" using verify_bytes_okD(1) [OF assms(1)] by (rule verifiedE)
  note nb = node_block_bounds [OF wf assms(2)]
  have own: "node_block g i = b" if "b < length (blocks g)" "blk_start g b \<le> i" "i < blk_end g b" for b
    using block_wf_nodes(1) [OF blocks_wfD(1) [OF wf that(1)] that(2,3)] .
  show "\<exists>!b. b < length (blocks g) \<and> blk_start g b \<le> i \<and> i < blk_end g b"
    using nb own by blast
  show "is_terminator (node_op g i) \<longleftrightarrow> i = blk_end g (node_block g i) - 1"
    by (rule block_wf_nodes(2) [OF blocks_wfD(1) [OF wf nb(1)] nb(3,4)])
qed

theorem blocks_partition_nodes_witness:
  "(\<exists>!b. b < length (blocks hello_graph) \<and> blk_start hello_graph b \<le> 4 \<and> 4 < blk_end hello_graph b) \<and>
   (is_terminator (node_op hello_graph 4) \<longleftrightarrow> 4 = blk_end hello_graph (node_block hello_graph 4) - 1)"
  using blocks_partition_nodes [OF hello_bytes, of 4] by (simp add: hello_sizes)

text \<open>
  C13. The effect chain of an accepted package is linear: its effect nodes, in order, begin with the
  one effect start, and each host operation consumes the effect of the node before it in the chain.
\<close>

theorem effect_chain_linear:
  assumes "verify_bytes bs = Ok g"
  shows "effect_chain g (effect_nodes g (length (nodes g)))"
  using verify_bytes_okD(1) [OF assms] by (rule verifiedE)

theorem effect_chain_linear_witness: "effect_chain hello_graph (effect_nodes hello_graph 5)"
  using effect_chain_linear [OF hello_bytes] by (simp add: hello_sizes)

text \<open>
  C14. Every host operation of an accepted package is covered by a capability of sufficient scope: the
  node feeding its capability input is typed as a capability and stems from an import, or from a
  host result, that grants the resource kind and the rights the operation requires.
\<close>

theorem host_operations_covered:
  assumes "verify_bytes bs = Ok g" and "i < length (nodes g)" and "sig_effectful (node_sig g i)"
  shows "authorised g i \<and> unat (input_at g i 1) < i \<and> node_ty g (unat (input_at g i 1)) = PythType.Capability"
proof -
  have sem: "node_sem g i"
    using verify_bytes_okD(1) [OF assms(1)] assms(2) by (auto elim: verifiedE)
  obtain rest where ins: "sig_inputs (node_sig g i) = Effect # PythType.Capability # rest"
    using effectful_shape(3) assms(3) unfolding node_sig_def by blast
  have "node_op g i \<noteq> HostResult \<and> node_op g i \<noteq> Jump"
    using assms(3) by (auto simp: node_sig_def sig_defs)
  then have ty: "typed_inputs g i" and "authorised g i"
    using sem assms(3) by (auto simp: node_sem_def)
  then show ?thesis using ins by (auto simp: typed_inputs_def dest!: spec [of _ 1])
qed

theorem host_operations_covered_witness:
  "authorised hello_graph 3 \<and> unat (input_at hello_graph 3 1) < 3 \<and>
    node_ty hello_graph (unat (input_at hello_graph 3 1)) = PythType.Capability"
proof -
  have "sig_effectful (node_sig hello_graph 3)"
    by (simp add: node_sig_def node_op_def hello_eval sig_defs del: eval_off)
  then show ?thesis using host_operations_covered [OF hello_bytes, of 3] by (simp add: hello_sizes)
qed

text \<open>
  C15. The layout of an accepted package: the six sections follow the header without gap or overlap
  up to the last byte, the table sizes the consumers see are those of the header, and all are within
  the limits of the format.
\<close>

theorem accepted_layout:
  assumes "decode bytes = Ok pkg"
  shows "\<exists>g. package_graph pkg = (Ok g :: (VerifyError, tig_graph) result) \<and>
    sections_tile bytes (header g) \<and> table_sizes g \<and> graph_within_limits g"
proof -
  obtain g where "package_graph pkg = (Ok g :: (VerifyError, tig_graph) result)"
    and "header g = pkg_header pkg" and "table_sizes g" and "graph_within_limits g"
    by (rule package_graph_of_decoded [OF assms])
  with decode_eq_OkD(4) [OF assms] show ?thesis by auto
qed

theorem accepted_layout_witness:
  "\<exists>g. package_graph \<lparr>pkg_bytes = flat_bytes hello, pkg_header = graph_header hello (graph_checksum hello)\<rparr> =
      (Ok g :: (VerifyError, tig_graph) result) \<and>
    sections_tile (flat_bytes hello) (header g) \<and> table_sizes g \<and> graph_within_limits g"
  by (rule accepted_layout [OF decode_flat [OF hello_limits]])

section \<open>A gap in the verifier\<close>

text \<open>
  C16. The hypothesis on jumps in C2 is needed: the verifier checks no signature for a jump, so it
  accepts a package in which a jump claims a Boolean result that a later branch consumes. No jump
  ever stores a value, and on every host the run ends with the error for an invalid input.
\<close>

theorem jump_value_accepted_and_fails:
  "verify_bytes (flat_bytes jump_value) = Ok (graph_view jump_value (graph_checksum jump_value)) \<and>
   fst (execute_inner (graph_view jump_value (graph_checksum jump_value)) H
     (interpreter_new caps 100, h)) = Err InvalidInput"
  using verify_bytes_flat [OF jump_value_limits] jump_value_verified jump_value_run
  by (simp add: verified_def)

end
